(* ===== verification/Prelude.thy ===== *)
theory Prelude
  imports Main "HOL-Library.AList" "HOL-Library.Word" "HOL-Library.Monad_Syntax"
begin

text \<open>
  Shared ground of the development: names for the model's basic types, the collections that
  the component proofs use, and generic facts on lists, association lists and characters.

  A Go \<open>string\<close> or \<open>[]byte\<close> is a sequence of bytes, which is what HOL's \<open>string\<close> is
  (a list of eight-bit characters). A Go map is an association list with distinct keys: lookups
  go through \<open>map_of\<close>, writes through \<open>AList.update\<close> and \<open>AList.delete\<close>, and the order
  of the list carries no meaning (Go randomises the iteration order).
\<close>

section \<open>Basic types\<close>

type_synonym go_bytes = string
type_synonym duration = int
type_synonym instant = int
type_synonym header_map = "(string \<times> string) list"
type_synonym ('k, 'v) go_map = "('k \<times> 'v) list"

named_theorems go_defs \<open>definitions of the Go library routines the source calls\<close>
named_theorems handler_defs \<open>definitions of request handlers and the helpers they call\<close>
named_theorems frame_simps \<open>what an operation leaves unchanged\<close>

section \<open>Lists\<close>

lemma filter_idem [simp]: "filter P (filter P xs) = filter P xs"
  by (induction xs) auto

lemma takeWhile_append_stop:
  "\<forall>x \<in> set xs. P x \<Longrightarrow> \<not> P y \<Longrightarrow> takeWhile P (xs @ y # ys) = xs"
  by (induction xs) auto

lemma dropWhile_append_stop:
  "\<forall>x \<in> set xs. P x \<Longrightarrow> \<not> P y \<Longrightarrow> dropWhile P (xs @ y # ys) = y # ys"
  by (induction xs) auto

lemma append_eq_sep:
  assumes "xs @ d # ys = xs' @ d # ys'" and "d \<notin> set xs" and "d \<notin> set xs'"
  shows "xs = xs' \<and> ys = ys'"
proof -
  have "takeWhile (\<lambda>c. c \<noteq> d) (xs @ d # ys) = xs"
    using assms(2) by (intro takeWhile_append_stop) auto
  moreover have "takeWhile (\<lambda>c. c \<noteq> d) (xs' @ d # ys') = xs'"
    using assms(3) by (intro takeWhile_append_stop) auto
  ultimately have "xs = xs'" using assms(1) by simp
  with assms(1) show ?thesis by simp
qed

lemma foldl_cong_set:
  "(\<And>x a. x \<in> set xs \<Longrightarrow> f a x = g a x) \<Longrightarrow> foldl f a xs = foldl g a xs"
  by (induction xs arbitrary: a) auto

section \<open>Association lists as Go maps\<close>

definition wf_map :: "('k, 'v) go_map \<Rightarrow> bool" where
  "wf_map m \<longleftrightarrow> distinct (map fst m)"

lemma wf_map_Nil [simp]: "wf_map []"
  by (simp add: wf_map_def)

lemma wf_map_update [simp]: "wf_map m \<Longrightarrow> wf_map (AList.update k v m)"
  by (simp add: wf_map_def distinct_update)

lemma wf_map_delete [simp]: "wf_map m \<Longrightarrow> wf_map (AList.delete k m)"
  by (simp add: wf_map_def distinct_delete)

lemma wf_map_filter [simp]: "wf_map m \<Longrightarrow> wf_map (filter P m)"
  by (simp add: wf_map_def distinct_map_filter)

lemma map_of_update [simp]: "map_of (AList.update k v m) = (map_of m)(k \<mapsto> v)"
  by (simp add: update_conv')

lemma map_of_delete [simp]: "map_of (AList.delete k m) = (map_of m)(k := None)"
  by (simp add: delete_conv')

lemma map_of_filter_wf:
  assumes "wf_map m"
  shows "map_of (filter P m) k =
    (case map_of m k of None \<Rightarrow> None | Some v \<Rightarrow> if P (k, v) then Some v else None)"
  using assms
proof (induction m)
  case Nil
  then show ?case by simp
next
  case (Cons a m)
  obtain k' v' where a: "a = (k', v')" by (cases a)
  from Cons.prems a have wf: "wf_map m" and notin: "map_of m k' = None"
    by (auto simp: wf_map_def map_of_eq_None_iff)
  show ?case
    using Cons.IH [OF wf] notin a by (cases "k = k'") auto
qed

lemma length_update_wf:
  "length (AList.update k v m) = (if map_of m k = None then Suc (length m) else length m)"
  by (induction m) auto

section \<open>Characters as bytes\<close>

lemma of_char_char_of: "n < 256 \<Longrightarrow> of_char (char_of (n::nat)) = n"
  by simp

end
