(* ===== verification/Go_Strings.thy ===== *)
theory Go_Strings
  imports Prelude
begin

text \<open>
  The parts of Go's string handling that the source uses: UTF-8 decoding as done by
  \<open>for _, r := range s\<close>, the \<open>strings\<close> helpers, decimal and hexadecimal formatting, and the
  \<open>%q\<close> verb on ASCII text. Non-ASCII letters are left alone by \<open>ToLower\<close> here: the source
  compares its result with an ASCII suffix without the letters \<open>i\<close> and \<open>k\<close>, the only ones that
  non-ASCII code points lower to, so the comparison is not affected.
\<close>

section \<open>UTF-8\<close>

definition RuneError :: nat where
  "RuneError = 0xFFFD"

definition is_cont :: "nat \<Rightarrow> bool" where
  "is_cont b \<longleftrightarrow> 0x80 \<le> b \<and> b \<le> 0xBF"

text \<open>The range of the second byte depends on the first one (no overlong forms, no surrogates).\<close>

definition second_ok :: "nat \<Rightarrow> nat \<Rightarrow> bool" where
  "second_ok b0 b1 \<longleftrightarrow>
     (if b0 = 0xE0 then 0xA0 \<le> b1 \<and> b1 \<le> 0xBF
      else if b0 = 0xED then 0x80 \<le> b1 \<and> b1 \<le> 0x9F
      else if b0 = 0xF0 then 0x90 \<le> b1 \<and> b1 \<le> 0xBF
      else if b0 = 0xF4 then 0x80 \<le> b1 \<and> b1 \<le> 0x8F
      else is_cont b1)"

definition decode2 :: "nat \<Rightarrow> go_bytes \<Rightarrow> nat \<times> nat" where
  "decode2 b0 t = (case t of
     c1 # _ \<Rightarrow> (if is_cont (of_char c1) then ((b0 - 0xC0) * 64 + (of_char c1 - 0x80), 2) else (RuneError, 1))
   | _ \<Rightarrow> (RuneError, 1))"

definition decode3 :: "nat \<Rightarrow> go_bytes \<Rightarrow> nat \<times> nat" where
  "decode3 b0 t = (case t of
     c1 # c2 # _ \<Rightarrow>
       (if second_ok b0 (of_char c1) \<and> is_cont (of_char c2)
        then ((b0 - 0xE0) * 4096 + (of_char c1 - 0x80) * 64 + (of_char c2 - 0x80), 3)
        else (RuneError, 1))
   | _ \<Rightarrow> (RuneError, 1))"

definition decode4 :: "nat \<Rightarrow> go_bytes \<Rightarrow> nat \<times> nat" where
  "decode4 b0 t = (case t of
     c1 # c2 # c3 # _ \<Rightarrow>
       (if second_ok b0 (of_char c1) \<and> is_cont (of_char c2) \<and> is_cont (of_char c3)
        then ((b0 - 0xF0) * 262144 + (of_char c1 - 0x80) * 4096 + (of_char c2 - 0x80) * 64
                + (of_char c3 - 0x80), 4)
        else (RuneError, 1))
   | _ \<Rightarrow> (RuneError, 1))"

fun decode_rune :: "go_bytes \<Rightarrow> nat \<times> nat" where
  "decode_rune [] = (RuneError, 0)"
| "decode_rune (c # t) =
     (let b0 = of_char c :: nat in
      if b0 < 0x80 then (b0, 1)
      else if b0 < 0xC2 \<or> 0xF4 < b0 then (RuneError, 1)
      else if b0 < 0xE0 then decode2 b0 t
      else if b0 < 0xF0 then decode3 b0 t
      else decode4 b0 t)"

lemmas decode_defs = decode2_def decode3_def decode4_def

lemma decode_rune_size_pos: "s \<noteq> [] \<Longrightarrow> 1 \<le> snd (decode_rune s)"
  by (cases s) (auto simp: Let_def decode_defs split: list.splits)

lemma decode_rune_size_le: "snd (decode_rune s) \<le> length s"
  by (cases s) (auto simp: Let_def decode_defs split: list.splits)

function runes :: "go_bytes \<Rightarrow> nat list" where
  "runes s = (if s = [] then [] else fst (decode_rune s) # runes (drop (snd (decode_rune s)) s))"
  by pat_completeness auto
termination
proof (relation "measure length", simp)
  fix s :: go_bytes
  assume "s \<noteq> []"
  then show "(drop (snd (decode_rune s)) s, s) \<in> measure length"
    using decode_rune_size_pos [of s] by (cases s) auto
qed

declare runes.simps [simp del]

definition is_surrogate :: "nat \<Rightarrow> bool" where
  "is_surrogate r \<longleftrightarrow> 0xD800 \<le> r \<and> r < 0xE000"

definition valid_rune :: "nat \<Rightarrow> bool" where
  "valid_rune r \<longleftrightarrow> r \<le> 0x10FFFF \<and> \<not> is_surrogate r"

definition encode_valid :: "nat \<Rightarrow> go_bytes" where
  "encode_valid r =
     (if r < 0x80 then [char_of r]
      else if r < 0x800 then [char_of (0xC0 + r div 64), char_of (0x80 + r mod 64)]
      else if r < 0x10000 then
        [char_of (0xE0 + r div 4096), char_of (0x80 + r div 64 mod 64), char_of (0x80 + r mod 64)]
      else
        [char_of (0xF0 + r div 262144), char_of (0x80 + r div 4096 mod 64),
         char_of (0x80 + r div 64 mod 64), char_of (0x80 + r mod 64)])"

definition encode_rune :: "nat \<Rightarrow> go_bytes" where
  "encode_rune r = encode_valid (if valid_rune r then r else RuneError)"

lemma of_char_byte: "n < 256 \<Longrightarrow> of_char (char_of (n::nat)) = n"
  by simp

text \<open>Decoding undoes encoding on every valid code point.\<close>

lemma split_64: "r = r div 64 * 64 + r mod (64::nat)"
  by simp

lemma div_4096: "r div 4096 = r div 64 div (64::nat)"
  by (simp add: div_mult2_eq [symmetric])

lemma div_262144: "r div 262144 = r div 64 div 64 div (64::nat)"
  by (simp add: div_mult2_eq [symmetric])

lemma decode_encode_2:
  assumes "0x80 \<le> r" and "r < 0x800"
  shows "decode_rune (encode_valid r @ s) = (r, 2)"
proof -
  define a b where ab: "a = r div 64" "b = r mod 64"
  have b: "b < 64" and r: "a * 64 + b = r" using ab by simp_all
  have a: "a < 32" "2 \<le> a" using assms b r by linarith+
  have "encode_valid r = [char_of (0xC0 + a), char_of (0x80 + b)]"
    using assms ab by (simp add: encode_valid_def)
  with a b r show ?thesis
    by (simp add: Let_def decode2_def is_cont_def of_char_byte)
qed

lemma decode_encode_3:
  assumes "0x800 \<le> r" and "r < 0x10000" and "\<not> is_surrogate r"
  shows "decode_rune (encode_valid r @ s) = (r, 3)"
proof -
  define a b c where abc: "a = r div 4096" "b = r div 64 mod 64" "c = r mod 64"
  have b: "b < 64" and c: "c < 64" using abc by simp_all
  have r: "a * 4096 + b * 64 + c = r"
    using split_64 [of r] split_64 [of "r div 64"] unfolding abc div_4096 by linarith
  have a: "a < 16" using assms r by linarith
  have so: "second_ok (0xE0 + a) (0x80 + b)"
    using assms r a b c by (auto simp: second_ok_def is_cont_def is_surrogate_def)
  have "encode_valid r = [char_of (0xE0 + a), char_of (0x80 + b), char_of (0x80 + c)]"
    using assms abc by (simp add: encode_valid_def)
  with a b c so r show ?thesis
    by (simp add: Let_def decode3_def is_cont_def of_char_byte)
qed

lemma decode_encode_4:
  assumes "0x10000 \<le> r" and "r \<le> 0x10FFFF"
  shows "decode_rune (encode_valid r @ s) = (r, 4)"
proof -
  define a b c d where abcd: "a = r div 262144" "b = r div 4096 mod 64" "c = r div 64 mod 64" "d = r mod 64"
  have b: "b < 64" and c: "c < 64" and d: "d < 64" using abcd by simp_all
  have r: "a * 262144 + b * 4096 + c * 64 + d = r"
    using split_64 [of r] split_64 [of "r div 64"] split_64 [of "r div 64 div 64"]
    unfolding abcd div_4096 div_262144 by linarith
  have a: "a < 5" using assms r by linarith
  have so: "second_ok (0xF0 + a) (0x80 + b)"
    using assms r a b c d by (auto simp: second_ok_def is_cont_def)
  have "encode_valid r = [char_of (0xF0 + a), char_of (0x80 + b), char_of (0x80 + c), char_of (0x80 + d)]"
    using assms abcd by (simp add: encode_valid_def)
  with a b c d so r show ?thesis
    by (simp add: Let_def decode4_def is_cont_def of_char_byte)
qed

lemma decode_encode_rune:
  assumes "valid_rune r"
  shows "decode_rune (encode_rune r @ s) = (r, length (encode_rune r))"
proof -
  consider "r < 0x80" | "0x80 \<le> r" "r < 0x800" | "0x800 \<le> r" "r < 0x10000" | "0x10000 \<le> r"
    by linarith
  then show ?thesis
  proof cases
    case 1
    then show ?thesis using assms by (simp add: encode_rune_def encode_valid_def Let_def)
  next
    case 2
    then show ?thesis using assms decode_encode_2 [of r s]
      by (simp add: encode_rune_def) (simp add: encode_valid_def)
  next
    case 3
    then show ?thesis using assms decode_encode_3 [of r s]
      by (simp add: encode_rune_def valid_rune_def) (simp add: encode_valid_def)
  next
    case 4
    then show ?thesis using assms decode_encode_4 [of r s]
      by (simp add: encode_rune_def valid_rune_def) (simp add: encode_valid_def)
  qed
qed

text \<open>A byte of 0x80 or more never contributes an ASCII code point, whatever follows it.\<close>

lemma decode2_high:
  assumes "0xC2 \<le> b0"
  shows "128 \<le> fst (decode2 b0 t)"
    and "x \<in> set (take (snd (decode2 b0 t) - 1) t) \<Longrightarrow> 128 \<le> (of_char x :: nat)"
  using assms by (auto simp: decode2_def RuneError_def is_cont_def split: list.splits if_splits)

lemma second_ok_high:
  "second_ok b0 b1 \<Longrightarrow> 128 \<le> b1" "second_ok 0xE0 b1 \<Longrightarrow> 0xA0 \<le> b1" "second_ok 0xF0 b1 \<Longrightarrow> 0x90 \<le> b1"
  by (auto simp: second_ok_def is_cont_def split: if_splits)

lemma decode3_high:
  assumes "0xE0 \<le> b0"
  shows "128 \<le> fst (decode3 b0 t)"
    and "x \<in> set (take (snd (decode3 b0 t) - 1) t) \<Longrightarrow> 128 \<le> (of_char x :: nat)"
proof -
  show "x \<in> set (take (snd (decode3 b0 t) - 1) t) \<Longrightarrow> 128 \<le> (of_char x :: nat)"
    by (auto simp: decode3_def is_cont_def take_Cons' dest: second_ok_high split: list.splits if_splits)
  show "128 \<le> fst (decode3 b0 t)"
  proof (cases "b0 = 0xE0")
    case True
    then show ?thesis
      by (auto simp: decode3_def RuneError_def dest: second_ok_high(2) split: list.splits)
  next
    case False
    then have "4096 \<le> (b0 - 0xE0) * 4096" using assms by simp
    then show ?thesis by (auto simp: decode3_def RuneError_def split: list.splits)
  qed
qed

lemma decode4_high:
  assumes "0xF0 \<le> b0"
  shows "128 \<le> fst (decode4 b0 t)"
    and "x \<in> set (take (snd (decode4 b0 t) - 1) t) \<Longrightarrow> 128 \<le> (of_char x :: nat)"
proof -
  show "x \<in> set (take (snd (decode4 b0 t) - 1) t) \<Longrightarrow> 128 \<le> (of_char x :: nat)"
    by (auto simp: decode4_def is_cont_def take_Cons' dest: second_ok_high split: list.splits if_splits)
  show "128 \<le> fst (decode4 b0 t)"
  proof (cases "b0 = 0xF0")
    case True
    then show ?thesis
      by (auto simp: decode4_def RuneError_def dest: second_ok_high(3) split: list.splits)
  next
    case False
    then have "262144 \<le> (b0 - 0xF0) * 262144" using assms by simp
    then show ?thesis by (auto simp: decode4_def RuneError_def split: list.splits)
  qed
qed

lemma decode_rune_high:
  assumes "128 \<le> (of_char c :: nat)"
  shows "128 \<le> fst (decode_rune (c # t))"
  using assms decode2_high(1) decode3_high(1) decode4_high(1)
  by (simp add: Let_def RuneError_def)

lemma decode_rune_bytes_high:
  assumes c: "128 \<le> (of_char c :: nat)" and x: "x \<in> set (take (snd (decode_rune (c # t))) (c # t))"
  shows "128 \<le> (of_char x :: nat)"
proof -
  let ?n = "snd (decode_rune (c # t))"
  have "?n = Suc (?n - 1)" using decode_rune_size_pos [of "c # t"] by simp
  then have "take ?n (c # t) = c # take (?n - 1) t" by (metis take_Suc_Cons)
  with x consider "x = c" | "x \<in> set (take (?n - 1) t)" by auto
  then show ?thesis
  proof cases
    case 2
    with c show ?thesis
      using decode2_high(2) [of "of_char c" x t] decode3_high(2) [of "of_char c" x t]
        decode4_high(2) [of "of_char c" x t]
      by (auto simp: Let_def split: if_splits)
  qed (simp add: c)
qed

lemma filter_runes_ascii:
  assumes "hi < 128"
  shows "map char_of (filter (\<lambda>r. lo \<le> r \<and> r \<le> hi) (runes s)) =
         filter (\<lambda>c. lo \<le> (of_char c :: nat) \<and> of_char c \<le> hi) s"
proof (induction s rule: runes.induct)
  case (1 s)
  let ?P = "\<lambda>c. lo \<le> (of_char c :: nat) \<and> of_char c \<le> hi"
  let ?n = "snd (decode_rune s)"
  show ?case
  proof (cases s)
    case Nil
    then show ?thesis by (simp add: runes.simps)
  next
    case (Cons c t)
    note IH = 1 [unfolded Cons, simplified]
    show ?thesis
    proof (cases "(of_char c :: nat) < 128")
      case True
      then have "decode_rune s = (of_char c, 1)" using Cons by simp
      with IH Cons True show ?thesis by (auto simp: runes.simps [of "c # t"])
    next
      case False
      have "filter ?P s = filter ?P (take ?n s) @ filter ?P (drop ?n s)"
        by (simp flip: filter_append)
      moreover have "filter ?P (take ?n s) = []"
        using decode_rune_bytes_high [of c _ t] False assms unfolding Cons filter_empty_conv
        by fastforce
      moreover have "128 \<le> fst (decode_rune s)"
        using decode_rune_high False Cons by simp
      moreover have "s \<noteq> []" using Cons by simp
      moreover from this have "runes s = fst (decode_rune s) # runes (drop ?n s)"
        by (simp add: runes.simps [of s])
      ultimately show ?thesis using 1 assms by simp
    qed
  qed
qed

section \<open>The strings package\<close>

definition HasPrefix :: "string \<Rightarrow> string \<Rightarrow> bool" where
  [go_defs]: "HasPrefix s p \<longleftrightarrow> take (length p) s = p"

definition HasSuffix :: "string \<Rightarrow> string \<Rightarrow> bool" where
  [go_defs]: "HasSuffix s p \<longleftrightarrow> length p \<le> length s \<and> drop (length s - length p) s = p"

lemma HasSuffix_iff: "HasSuffix s p \<longleftrightarrow> (\<exists>q. s = q @ p)"
  by (auto simp: HasSuffix_def) (metis append_take_drop_id)

definition lower_byte :: "char \<Rightarrow> char" where
  "lower_byte c = (if 65 \<le> (of_char c :: nat) \<and> of_char c \<le> (90::nat) then char_of (of_char c + 32 :: nat) else c)"

definition ToLower :: "string \<Rightarrow> string" where
  [go_defs]: "ToLower s = map lower_byte s"

definition IndexByte :: "string \<Rightarrow> char \<Rightarrow> int" where
  [go_defs]: "IndexByte s c = (if c \<in> set s then int (length (takeWhile (\<lambda>x. x \<noteq> c) s)) else -1)"

definition TrimLeft :: "string \<Rightarrow> string \<Rightarrow> string" where
  [go_defs]: "TrimLeft s cutset = dropWhile (\<lambda>c. c \<in> set cutset) s"

fun Split :: "string \<Rightarrow> char \<Rightarrow> string list" where
  "Split [] d = [[]]"
| "Split (c # cs) d =
     (if c = d then [] # Split cs d
      else (case Split cs d of [] \<Rightarrow> [[c]] | x # xs \<Rightarrow> (c # x) # xs))"

text \<open>The code points of \<open>unicode.IsSpace\<close>, in their UTF-8 form.\<close>

definition space_runes :: "nat list" where
  "space_runes = [9, 10, 11, 12, 13, 32, 0x85, 0xA0, 0x1680] @ [0x2000..<0x200B] @
                 [0x2028, 0x2029, 0x202F, 0x205F, 0x3000]"

definition strip_space :: "string \<Rightarrow> string option" where
  "strip_space s = (let (r, n) = decode_rune s in
     if s \<noteq> [] \<and> r \<in> set space_runes then Some (drop n s) else None)"

definition strip_space_end :: "string \<Rightarrow> string option" where
  "strip_space_end s = (case filter (\<lambda>r. HasSuffix s (encode_rune r)) space_runes of
     [] \<Rightarrow> None | r # _ \<Rightarrow> Some (take (length s - length (encode_rune r)) s))"

lemma strip_space_shorter: "strip_space s = Some s' \<Longrightarrow> length s' < length s"
  using decode_rune_size_pos [of s]
  by (auto simp: strip_space_def split: prod.splits if_splits)

lemma encode_rune_nonempty: "encode_rune r \<noteq> []"
  by (simp add: encode_rune_def encode_valid_def)

lemma strip_space_end_shorter: "strip_space_end s = Some s' \<Longrightarrow> length s' < length s"
proof -
  assume "strip_space_end s = Some s'"
  then obtain r rs where f: "filter (\<lambda>r. HasSuffix s (encode_rune r)) space_runes = r # rs"
    and s': "s' = take (length s - length (encode_rune r)) s"
    by (auto simp: strip_space_end_def split: list.splits)
  from f have "HasSuffix s (encode_rune r)"
    using filter_eq_Cons_iff by (fastforce dest: filter_eq_ConsD)
  then have "length (encode_rune r) \<le> length s" by (simp add: HasSuffix_def)
  moreover have "0 < length (encode_rune r)" using encode_rune_nonempty by blast
  moreover have "length s' = length s - length (encode_rune r)" using s' by simp
  ultimately show ?thesis by linarith
qed

function trim_left_space :: "string \<Rightarrow> string" where
  "trim_left_space s = (case strip_space s of None \<Rightarrow> s | Some s' \<Rightarrow> trim_left_space s')"
  by pat_completeness auto
termination
  by (relation "measure length") (auto dest: strip_space_shorter)

function trim_right_space :: "string \<Rightarrow> string" where
  "trim_right_space s = (case strip_space_end s of None \<Rightarrow> s | Some s' \<Rightarrow> trim_right_space s')"
  by pat_completeness auto
termination
  by (relation "measure length") (auto dest: strip_space_end_shorter)

declare trim_left_space.simps [simp del] trim_right_space.simps [simp del]

definition TrimSpace :: "string \<Rightarrow> string" where
  [go_defs]: "TrimSpace s = trim_right_space (trim_left_space s)"

section \<open>Number formatting\<close>

definition digit_char :: "nat \<Rightarrow> char" where
  "digit_char d = char_of (if d < 10 then 48 + d else 87 + d)"

definition digit_val :: "char \<Rightarrow> nat" where
  "digit_val c = (if of_char c < (58::nat) then of_char c - 48 else of_char c - 87)"

fun to_base :: "nat \<Rightarrow> nat \<Rightarrow> string" where
  "to_base b n = (if n < b \<or> b < 2 then [digit_char n] else to_base b (n div b) @ [digit_char (n mod b)])"

declare to_base.simps [simp del]

definition of_base :: "nat \<Rightarrow> string \<Rightarrow> nat" where
  "of_base b s = foldl (\<lambda>a c. a * b + digit_val c) 0 s"

definition pad0 :: "nat \<Rightarrow> string \<Rightarrow> string" where
  "pad0 w s = replicate (w - length s) (CHR ''0'') @ s"

text \<open>The verbs \<open>%d\<close> on a non-negative integer, \<open>%08x\<close> on a \<open>uint64\<close> and \<open>%x\<close> on bytes.\<close>

definition fmt_d :: "nat \<Rightarrow> string" where
  "fmt_d n = to_base 10 n"

definition fmt_08x :: "64 word \<Rightarrow> string" where
  "fmt_08x h = pad0 8 (to_base 16 (unat h))"

definition fmt_x_bytes :: "8 word list \<Rightarrow> string" where
  "fmt_x_bytes bs = concat (map (\<lambda>b. pad0 2 (to_base 16 (unat b))) bs)"

lemma digit_val_char [simp]: "d < 16 \<Longrightarrow> digit_val (digit_char d) = d"
  by (simp add: digit_val_def digit_char_def)

lemma of_base_snoc: "of_base b (s @ [c]) = of_base b s * b + digit_val c"
  by (simp add: of_base_def)

lemma of_base_to_base:
  assumes "2 \<le> b" and "b \<le> 16"
  shows "of_base b (to_base b n) = n"
  using assms
proof (induction b n rule: to_base.induct)
  case (1 b n)
  show ?case
  proof (cases "n < b")
    case True
    then show ?thesis using 1 by (simp add: to_base.simps [of b n] of_base_def)
  next
    case False
    then have "of_base b (to_base b (n div b)) = n div b" using 1 by simp
    moreover have "n mod b < b" using 1 by simp
    then have "n mod b < 16" using 1 by linarith
    ultimately show ?thesis
      using 1 False by (simp add: to_base.simps [of b n] of_base_snoc)
  qed
qed

lemma of_base_pad0 [simp]: "of_base b (pad0 w s) = of_base b s"
proof -
  have "foldl (\<lambda>a c. a * b + digit_val c) 0 (replicate n (CHR ''0'')) = 0" for n
    by (induction n) (simp_all add: digit_val_def)
  then show ?thesis by (simp add: of_base_def pad0_def)
qed

lemma fmt_d_inj: "fmt_d m = fmt_d n \<longleftrightarrow> m = n"
proof
  assume "fmt_d m = fmt_d n"
  then have "of_base 10 (to_base 10 m) = of_base 10 (to_base 10 n)" by (simp add: fmt_d_def)
  then show "m = n" by (simp add: of_base_to_base)
qed simp

lemma fmt_08x_inj: "fmt_08x g = fmt_08x h \<longleftrightarrow> g = h"
proof
  assume "fmt_08x g = fmt_08x h"
  then have "of_base 16 (fmt_08x g) = of_base 16 (fmt_08x h)" by simp
  then have "unat g = unat h" by (simp add: fmt_08x_def of_base_to_base)
  then show "g = h" by (rule unsigned_word_eqI)
qed simp

lemma set_to_base:
  "2 \<le> b \<Longrightarrow> c \<in> set (to_base b n) \<Longrightarrow> \<exists>d < b. c = digit_char d"
proof (induction b n rule: to_base.induct)
  case hyp: (1 b n)
  show ?case
  proof (cases "n < b")
    case True
    then show ?thesis using hyp by (auto simp: to_base.simps [of b n])
  next
    case False
    then consider "c \<in> set (to_base b (n div b))" | "c = digit_char (n mod b)"
      using hyp by (auto simp: to_base.simps [of b n])
    then show ?thesis
    proof cases
      case 1
      then show ?thesis using hyp False by simp
    next
      case 2
      then show ?thesis using hyp by (intro exI [of _ "n mod b"]) simp
    qed
  qed
qed

lemma digit_char_range:
  "d < 16 \<Longrightarrow> 48 \<le> (of_char (digit_char d) :: nat) \<and> of_char (digit_char d) \<le> (102::nat)"
  by (simp add: digit_char_def)

section \<open>The %q verb on ASCII text\<close>

definition q_escape :: "char \<Rightarrow> string" where
  "q_escape c =
     (let n = of_char c :: nat; esc = (\<lambda>e. [CHR 0x5C, e]) in
      if c = CHR 0x22 \<or> c = CHR 0x5C then esc c
      else if 32 \<le> n \<and> n \<le> 126 then [c]
      else if n = 7 then esc (CHR ''a'') else if n = 8 then esc (CHR ''b'')
      else if n = 12 then esc (CHR ''f'') else if n = 10 then esc (CHR ''n'')
      else if n = 13 then esc (CHR ''r'') else if n = 9 then esc (CHR ''t'')
      else if n = 11 then esc (CHR ''v'')
      else esc (CHR ''x'') @ pad0 2 (to_base 16 n))"

definition fmt_q :: "string \<Rightarrow> string" where
  "fmt_q s = CHR 0x22 # concat (map q_escape s) @ [CHR 0x22]"

end
