(* ===== verification/Go_Http.thy ===== *)
theory Go_Http
  imports Go_Strings
begin

text \<open>
  What the source uses of \<open>net/http\<close>, \<open>net/url\<close> and \<open>net/http/httputil\<close>: headers with
  canonical keys, the query string, reading a request body under a limit, \<open>http.Error\<close>, and the
  director of a single-host reverse proxy. A handler ends by writing a response or by handing a
  request to the reverse proxy; what the upstream answers, and the headers the reverse proxy
  itself strips or adds on the way, are the library's.
\<close>

section \<open>Headers\<close>

definition upper_byte :: "char \<Rightarrow> char" where
  "upper_byte c = (if 97 \<le> (of_char c :: nat) \<and> of_char c \<le> (122::nat) then char_of (of_char c - 32 :: nat) else c)"

text \<open>\<open>CanonicalMIMEHeaderKey\<close> on a valid key: a capital at the start and after each hyphen.\<close>

fun canonical_loop :: "bool \<Rightarrow> string \<Rightarrow> string" where
  "canonical_loop up [] = []"
| "canonical_loop up (c # cs) = (if up then upper_byte c else lower_byte c) # canonical_loop (c = CHR ''-'') cs"

definition CanonicalKey :: "string \<Rightarrow> string" where
  "CanonicalKey k = canonical_loop True k"

text \<open>The server stores request headers under canonical keys, in the order of arrival.\<close>

definition Header_Get :: "header_map \<Rightarrow> string \<Rightarrow> string" where
  "Header_Get h k = (case map_of h (CanonicalKey k) of Some v \<Rightarrow> v | None \<Rightarrow> [])"

definition Header_Set :: "string \<Rightarrow> string \<Rightarrow> header_map \<Rightarrow> header_map" where
  "Header_Set k v h = AList.update (CanonicalKey k) v h"

definition Header_Del :: "string \<Rightarrow> header_map \<Rightarrow> header_map" where
  "Header_Del k h = AList.delete (CanonicalKey k) h"

lemma Header_Get_Set [simp]:
  "Header_Get (Header_Set k v h) k' = (if CanonicalKey k' = CanonicalKey k then v else Header_Get h k')"
  by (simp add: Header_Get_def Header_Set_def)

section \<open>Requests and responses\<close>

record url =
  Scheme :: string
  url_Host :: string
  Path :: string
  RawQuery :: string

text \<open>\<open>Body\<close> holds the bytes the client sends; \<open>BodyFails\<close> says that reading then ends in an error.\<close>

record http_request =
  Method :: string
  URL :: url
  Header :: header_map
  Host :: string
  RemoteAddr :: string
  Body :: string
  BodyFails :: bool

record response =
  Status :: nat
  resp_Header :: header_map
  resp_Body :: string

text \<open>
  What becomes of a request: a response, the request handed to the reverse proxy with the response headers set so
  far, or the end of the whole process by a panic in a goroutine that nothing recovers.
\<close>

datatype outcome = Respond response | Forward header_map http_request | Crash

text \<open>\<open>http.Error\<close> on a response whose headers so far are \<open>h\<close>.\<close>

definition http_Error :: "header_map \<Rightarrow> string \<Rightarrow> nat \<Rightarrow> response" where
  "http_Error h msg code =
     \<lparr>Status = code,
      resp_Header = Header_Set ''X-Content-Type-Options'' ''nosniff''
        (Header_Set ''Content-Type'' ''text/plain; charset=utf-8'' (Header_Del ''Content-Length'' h)),
      resp_Body = msg @ [CHR 0x0A]\<rparr>"

section \<open>Reading a body\<close>

datatype body_error = TooLarge | ReadFailed

text \<open>\<open>io.ReadAll\<close> through a \<open>MaxBytesReader\<close>, which is installed only for a positive limit.\<close>

definition read_limited :: "int \<Rightarrow> http_request \<Rightarrow> body_error + string" where
  "read_limited limit r =
     (if 0 < limit \<and> limit < int (length (Body r)) then Inl TooLarge
      else if BodyFails r then Inl ReadFailed
      else Inr (Body r))"

section \<open>Query strings\<close>

definition unhex :: "char \<Rightarrow> nat option" where
  "unhex c =
     (let n = of_char c :: nat in
      if 48 \<le> n \<and> n \<le> 57 then Some (n - 48) else if 97 \<le> n \<and> n \<le> 102 then Some (n - 87)
      else if 65 \<le> n \<and> n \<le> 70 then Some (n - 55) else None)"

fun QueryUnescape :: "string \<Rightarrow> string option" where
  "QueryUnescape [] = Some []"
| "QueryUnescape (c # cs) =
     (if c = CHR ''%'' then
        (case cs of
           a # b # r \<Rightarrow>
             (case (unhex a, unhex b) of
                (Some x, Some y) \<Rightarrow> map_option ((#) (char_of (x * 16 + y))) (QueryUnescape r)
              | _ \<Rightarrow> None)
         | _ \<Rightarrow> None)
      else map_option ((#) (if c = CHR ''+'' then CHR '' '' else c)) (QueryUnescape cs))"

definition cut_eq :: "string \<Rightarrow> string \<times> string" where
  "cut_eq s = (takeWhile (\<lambda>c. c \<noteq> CHR ''='') s, tl (dropWhile (\<lambda>c. c \<noteq> CHR ''='') s))"

text \<open>\<open>URL.Query\<close>: pairs that do not parse are dropped, the others kept in order.\<close>

definition parse_pair :: "string \<Rightarrow> (string \<times> string) option" where
  "parse_pair s =
     (if s = [] \<or> CHR '';'' \<in> set s then None
      else case cut_eq s of (k, v) \<Rightarrow>
        Option.bind (QueryUnescape k) (\<lambda>k'. map_option (Pair k') (QueryUnescape v)))"

definition URL_Query :: "url \<Rightarrow> (string \<times> string) list" where
  "URL_Query u = List.map_filter parse_pair (Split (RawQuery u) (CHR ''&''))"

definition Values_Get :: "(string \<times> string) list \<Rightarrow> string \<Rightarrow> string" where
  "Values_Get vs k = (case map_of vs k of Some v \<Rightarrow> v | None \<Rightarrow> [])"

section \<open>Routing\<close>

text \<open>\<open>cleanPath\<close> of \<open>ServeMux\<close>: the segments without empty ones and dots, two dots going up.\<close>

fun clean_segments :: "string list \<Rightarrow> string list \<Rightarrow> string list" where
  "clean_segments done [] = rev done"
| "clean_segments done (s # ss) =
     (if s = [] \<or> s = ''.'' then clean_segments done ss
      else if s = ''..'' then clean_segments (tl done) ss
      else clean_segments (s # done) ss)"

definition path_Clean :: "string \<Rightarrow> string" where
  "path_Clean p =
     (let segs = clean_segments [] (Split p (CHR ''/''))
      in if segs = [] then ''/'' else concat (map ((#) (CHR ''/'')) segs))"

definition cleanPath :: "string \<Rightarrow> string" where
  "cleanPath p =
     (if p = [] then ''/''
      else let np = path_Clean p
           in if HasSuffix p ''/'' \<and> np \<noteq> ''/'' then np @ ''/'' else np)"

datatype route = Matched string | Redirect string | NotFound

text \<open>
  A pattern that ends in a slash matches every path it is a prefix of, another one only itself; the
  longest match wins. A path that is not clean is redirected, save for \<open>CONNECT\<close>. Paths are
  taken without percent-escapes.
\<close>

definition pattern_matches :: "string \<Rightarrow> string \<Rightarrow> bool" where
  "pattern_matches pat path = (if HasSuffix pat ''/'' then HasPrefix path pat else path = pat)"

definition longest :: "string list \<Rightarrow> string option" where
  "longest ps = foldl (\<lambda>best p. case best of None \<Rightarrow> Some p
     | Some b \<Rightarrow> if length b < length p then Some p else Some b) None ps"

definition mux_route :: "string list \<Rightarrow> http_request \<Rightarrow> route" where
  "mux_route patterns r =
     (let path = Path (URL r) in
      if Method r \<noteq> ''CONNECT'' \<and> cleanPath path \<noteq> path then Redirect (cleanPath path)
      else case longest (filter (\<lambda>pat. pattern_matches pat path) patterns) of
        None \<Rightarrow> NotFound
      | Some pat \<Rightarrow> Matched pat)"

section \<open>The reverse proxy\<close>

definition singleJoiningSlash :: "string \<Rightarrow> string \<Rightarrow> string" where
  "singleJoiningSlash a b =
     (if HasSuffix a ''/'' \<and> HasPrefix b ''/'' then a @ tl b
      else if \<not> HasSuffix a ''/'' \<and> \<not> HasPrefix b ''/'' then a @ ''/'' @ b
      else a @ b)"

text \<open>The director of \<open>NewSingleHostReverseProxy\<close>.\<close>

definition single_host_director :: "url \<Rightarrow> http_request \<Rightarrow> http_request" where
  "single_host_director target r =
     r\<lparr>URL := (URL r)\<lparr>Scheme := Scheme target, url_Host := url_Host target,
        Path := singleJoiningSlash (Path target) (Path (URL r)),
        RawQuery := (if RawQuery target = [] \<or> RawQuery (URL r) = [] then RawQuery target @ RawQuery (URL r)
                     else RawQuery target @ ''&'' @ RawQuery (URL r))\<rparr>\<rparr>"

end
