(* ===== verification/Go_Json.thy ===== *)
theory Go_Json
  imports Complex_Main Go_Strings
begin

text \<open>
  What the source uses of \<open>encoding/json\<close>, on bytes: the scanner with its nesting limit, string
  unquoting (escapes, surrogate pairs, replacement of invalid UTF-8), the case folding of object
  keys, the \<open>Decoder\<close> that stops after one value, and the encoding of strings and raw messages.
  The parser spends one unit of fuel per call; \<open>json_fuel_enough\<close> shows that every fuel above
  twice the length of the input gives the same result, so \<open>json_prefix\<close> never fails for lack of it.
\<close>

section \<open>Values\<close>

text \<open>An object keeps its members in order, each with the raw text of its value.\<close>

datatype json =
    JNull
  | JBool bool
  | JNum string
  | JStr string
  | JArr "json list"
  | JObj "(string \<times> string \<times> json) list"

text \<open>What \<open>interface{}\<close> holds after decoding; numbers are \<open>float64\<close>, here without rounding.\<close>

datatype gval =
    GNull
  | GBool bool
  | GNum rat
  | GStr string
  | GArr "gval list"
  | GObj "(string \<times> gval) list"

section \<open>Scanning\<close>

definition is_ws :: "char \<Rightarrow> bool" where
  "is_ws c \<longleftrightarrow> c = CHR '' '' \<or> c = CHR 0x09 \<or> c = CHR 0x0D \<or> c = CHR 0x0A"

definition skip_ws :: "string \<Rightarrow> string" where
  "skip_ws s = dropWhile is_ws s"

definition is_digit :: "char \<Rightarrow> bool" where
  "is_digit c \<longleftrightarrow> 48 \<le> (of_char c :: nat) \<and> of_char c \<le> (57::nat)"

definition is_hex :: "char \<Rightarrow> bool" where
  "is_hex c \<longleftrightarrow> is_digit c \<or> (97 \<le> (of_char c :: nat) \<and> of_char c \<le> (102::nat)) \<or>
     (65 \<le> (of_char c :: nat) \<and> of_char c \<le> (70::nat))"

definition hex_val :: "char \<Rightarrow> nat" where
  "hex_val c = (if is_digit c then of_char c - 48
                else if 97 \<le> (of_char c :: nat) then of_char c - 87 else of_char c - 55)"

definition expect :: "char \<Rightarrow> string \<Rightarrow> string option" where
  "expect c s = (case s of [] \<Rightarrow> None | x # r \<Rightarrow> if x = c then Some r else None)"

definition digits1 :: "string \<Rightarrow> string option" where
  "digits1 s = (if takeWhile is_digit s = [] then None else Some (dropWhile is_digit s))"

definition num_int :: "string \<Rightarrow> string option" where
  "num_int s = (case s of
     [] \<Rightarrow> None
   | c # r \<Rightarrow> if c = CHR ''0'' then Some r else digits1 s)"

definition num_frac :: "string \<Rightarrow> string option" where
  "num_frac s = (case expect (CHR ''.'') s of None \<Rightarrow> Some s | Some r \<Rightarrow> digits1 r)"

definition num_exp :: "string \<Rightarrow> string option" where
  "num_exp s = (case s of
     [] \<Rightarrow> Some s
   | c # r \<Rightarrow>
       if c = CHR ''e'' \<or> c = CHR ''E''
       then (case r of
               [] \<Rightarrow> None
             | d # t \<Rightarrow> if d = CHR ''+'' \<or> d = CHR ''-'' then digits1 t else digits1 r)
       else Some s)"

text \<open>A number literal; the result is what follows it.\<close>

definition scan_number :: "string \<Rightarrow> string option" where
  "scan_number s =
     Option.bind (num_int (case expect (CHR ''-'') s of None \<Rightarrow> s | Some r \<Rightarrow> r))
       (\<lambda>s1. Option.bind (num_frac s1) num_exp)"

definition simple_escape :: "char \<Rightarrow> bool" where
  "simple_escape e \<longleftrightarrow> e \<in> {CHR ''b'', CHR ''f'', CHR ''n'', CHR ''r'', CHR ''t'', CHR 0x5C, CHR ''/'', CHR 0x22}"

text \<open>The body of a string literal up to its closing quote, and what follows the quote.\<close>

fun scan_str :: "string \<Rightarrow> (string \<times> string) option" where
  "scan_str [] = None"
| "scan_str (c # cs) =
     (if c = CHR 0x22 then Some ([], cs)
      else if c = CHR 0x5C then
        (case cs of
           [] \<Rightarrow> None
         | e # es \<Rightarrow>
             if simple_escape e then map_option (\<lambda>(b, r). (c # e # b, r)) (scan_str es)
             else if e = CHR ''u'' then
               (case es of
                  h1 # h2 # h3 # h4 # t \<Rightarrow>
                    if is_hex h1 \<and> is_hex h2 \<and> is_hex h3 \<and> is_hex h4
                    then map_option (\<lambda>(b, r). (c # e # h1 # h2 # h3 # h4 # b, r)) (scan_str t)
                    else None
                | _ \<Rightarrow> None)
             else None)
      else if (of_char c :: nat) < 32 then None
      else map_option (\<lambda>(b, r). (c # b, r)) (scan_str cs))"

section \<open>Unquoting\<close>

definition hex4 :: "string \<Rightarrow> nat option" where
  "hex4 s = (case s of
     a # b # c # d # _ \<Rightarrow>
       if is_hex a \<and> is_hex b \<and> is_hex c \<and> is_hex d
       then Some (((hex_val a * 16 + hex_val b) * 16 + hex_val c) * 16 + hex_val d) else None
   | _ \<Rightarrow> None)"

definition getu4 :: "string \<Rightarrow> nat option" where
  "getu4 s = (case s of
     a # b # r \<Rightarrow> if a = CHR 0x5C \<and> b = CHR ''u'' then hex4 r else None
   | _ \<Rightarrow> None)"

definition decode_surrogates :: "nat \<Rightarrow> nat \<Rightarrow> nat" where
  "decode_surrogates r1 r2 =
     (if 0xD800 \<le> r1 \<and> r1 < 0xDC00 \<and> 0xDC00 \<le> r2 \<and> r2 < 0xE000
      then (r1 - 0xD800) * 1024 + (r2 - 0xDC00) + 0x10000 else RuneError)"

definition escape_value :: "char \<Rightarrow> char" where
  "escape_value e =
     (if e = CHR ''b'' then CHR 0x08 else if e = CHR ''f'' then CHR 0x0C
      else if e = CHR ''n'' then CHR 0x0A else if e = CHR ''r'' then CHR 0x0D
      else if e = CHR ''t'' then CHR 0x09 else e)"

function unquote :: "string \<Rightarrow> string" where
  "unquote [] = []"
| "unquote (c # cs) =
     (if c = CHR 0x5C then
        (case cs of
           [] \<Rightarrow> []
         | e # es \<Rightarrow>
             if e = CHR ''u'' then
               (case hex4 es of
                  None \<Rightarrow> []
                | Some rr \<Rightarrow>
                    let rest = drop 4 es in
                    if is_surrogate rr then
                      (case getu4 rest of
                         Some rr1 \<Rightarrow>
                           if decode_surrogates rr rr1 \<noteq> RuneError
                           then encode_rune (decode_surrogates rr rr1) @ unquote (drop 6 rest)
                           else encode_rune RuneError @ unquote rest
                       | None \<Rightarrow> encode_rune RuneError @ unquote rest)
                    else encode_rune rr @ unquote rest)
             else escape_value e # unquote es)
      else if (of_char c :: nat) < 128 then c # unquote cs
      else encode_rune (fst (decode_rune (c # cs))) @ unquote (drop (snd (decode_rune (c # cs)) - 1) cs))"
  by pat_completeness auto
termination by (relation "measure length") auto

declare unquote.simps(2) [simp del]

section \<open>The parser\<close>

definition max_nesting :: nat where
  "max_nesting = 10000"

definition json_literal :: "string \<Rightarrow> (json \<times> string) option" where
  "json_literal s =
     (if HasPrefix s ''null'' then Some (JNull, drop 4 s)
      else if HasPrefix s ''true'' then Some (JBool True, drop 4 s)
      else if HasPrefix s ''false'' then Some (JBool False, drop 5 s)
      else None)"

definition consumed :: "string \<Rightarrow> string \<Rightarrow> string" where
  "consumed s rest = take (length s - length rest) s"

fun json_value :: "nat \<Rightarrow> nat \<Rightarrow> string \<Rightarrow> (json \<times> string) option"
  and json_members :: "nat \<Rightarrow> nat \<Rightarrow> string \<Rightarrow> ((string \<times> string \<times> json) list \<times> string) option"
  and json_elements :: "nat \<Rightarrow> nat \<Rightarrow> string \<Rightarrow> (json list \<times> string) option"
  where
    "json_value 0 d s = None"
  | "json_value (Suc n) d s =
       (case s of
          [] \<Rightarrow> None
        | c # r \<Rightarrow>
            if c = CHR 0x7B then
              (if max_nesting \<le> d then None
               else (case expect (CHR 0x7D) (skip_ws r) of
                       Some t \<Rightarrow> Some (JObj [], t)
                     | None \<Rightarrow> map_option (\<lambda>(ms, t). (JObj ms, t)) (json_members n (Suc d) (skip_ws r))))
            else if c = CHR 0x5B then
              (if max_nesting \<le> d then None
               else (case expect (CHR 0x5D) (skip_ws r) of
                       Some t \<Rightarrow> Some (JArr [], t)
                     | None \<Rightarrow> map_option (\<lambda>(es, t). (JArr es, t)) (json_elements n (Suc d) (skip_ws r))))
            else if c = CHR 0x22 then map_option (\<lambda>(b, t). (JStr (unquote b), t)) (scan_str r)
            else if is_digit c \<or> c = CHR ''-'' then
              map_option (\<lambda>t. (JNum (consumed s t), t)) (scan_number s)
            else json_literal s)"
  | "json_members 0 d s = None"
  | "json_members (Suc n) d s =
       Option.bind (Option.bind (expect (CHR 0x22) s) scan_str) (\<lambda>(k, t).
       Option.bind (expect (CHR '':'') (skip_ws t)) (\<lambda>u.
       Option.bind (json_value n d (skip_ws u)) (\<lambda>(v, w).
         let m = (unquote k, consumed (skip_ws u) w, v) in
         (case expect (CHR '','') (skip_ws w) of
            Some x \<Rightarrow> map_option (\<lambda>(ms, y). (m # ms, y)) (json_members n d (skip_ws x))
          | None \<Rightarrow> map_option (\<lambda>x. ([m], x)) (expect (CHR 0x7D) (skip_ws w))))))"
  | "json_elements 0 d s = None"
  | "json_elements (Suc n) d s =
       Option.bind (json_value n d s) (\<lambda>(v, w).
         (case expect (CHR '','') (skip_ws w) of
            Some x \<Rightarrow> map_option (\<lambda>(vs, y). (v # vs, y)) (json_elements n d (skip_ws x))
          | None \<Rightarrow> map_option (\<lambda>x. ([v], x)) (expect (CHR 0x5D) (skip_ws w))))"

text \<open>\<open>Decoder.Decode\<close> reads one value and leaves the rest; \<open>Unmarshal\<close> wants nothing but space after it.\<close>

definition json_prefix :: "string \<Rightarrow> (json \<times> string) option" where
  "json_prefix s = json_value (2 * length s + 1) 0 (skip_ws s)"

definition json_whole :: "string \<Rightarrow> json option" where
  "json_whole s =
     Option.bind (json_prefix s) (\<lambda>(v, rest). if skip_ws rest = [] then Some v else None)"

text \<open>\<open>Decoder.More\<close>, after a value at top level.\<close>

definition decoder_More :: "string \<Rightarrow> bool" where
  "decoder_More rest = (case skip_ws rest of [] \<Rightarrow> False | c # _ \<Rightarrow> c \<noteq> CHR 0x5D \<and> c \<noteq> CHR 0x7D)"

section \<open>Into Go values\<close>

definition digits_value :: "string \<Rightarrow> nat" where
  "digits_value ds = foldl (\<lambda>a c. a * 10 + (of_char c - 48)) 0 ds"

definition num_value :: "string \<Rightarrow> rat" where
  "num_value s =
     (let neg = expect (CHR ''-'') s \<noteq> None;
          m = (if neg then tl s else s);
          ip = takeWhile is_digit m; r1 = dropWhile is_digit m;
          fp = (case expect (CHR ''.'') r1 of None \<Rightarrow> [] | Some t \<Rightarrow> takeWhile is_digit t);
          r2 = (case expect (CHR ''.'') r1 of None \<Rightarrow> r1 | Some t \<Rightarrow> dropWhile is_digit t);
          ex = tl r2;
          eneg = expect (CHR ''-'') ex \<noteq> None;
          ed = digits_value (filter is_digit ex);
          mant = of_nat (digits_value (ip @ fp)) / 10 ^ length fp;
          scaled = (if r2 = [] then mant else if eneg then mant / 10 ^ ed else mant * 10 ^ ed)
      in if neg then - scaled else scaled)"

fun to_gval :: "json \<Rightarrow> gval" where
  "to_gval JNull = GNull"
| "to_gval (JBool b) = GBool b"
| "to_gval (JNum s) = GNum (num_value s)"
| "to_gval (JStr s) = GStr s"
| "to_gval (JArr vs) = GArr (map to_gval vs)"
| "to_gval (JObj ms) = GObj (foldl (\<lambda>m (k, raw, v). AList.update k (to_gval v) m) [] ms)"

text \<open>A number that rounds beyond the largest \<open>float64\<close> is an error of the decoder.\<close>

fun numbers_fit :: "json \<Rightarrow> bool" where
  "numbers_fit (JNum s) \<longleftrightarrow> \<bar>num_value s\<bar> < 2 ^ 1024 - 2 ^ 970"
| "numbers_fit (JArr vs) \<longleftrightarrow> (\<forall>v \<in> set vs. numbers_fit v)"
| "numbers_fit (JObj ms) \<longleftrightarrow> (\<forall>m \<in> set ms. numbers_fit (snd (snd m)))"
| "numbers_fit _ \<longleftrightarrow> True"

text \<open>
  Into a \<open>map[string]interface{}\<close>: \<open>None\<close> is an error, \<open>Some None\<close> the nil map that
  \<open>null\<close> leaves.
\<close>

type_synonym params = "(string \<times> gval) list"

definition json_to_map :: "json \<Rightarrow> params option option" where
  "json_to_map v =
     (if \<not> numbers_fit v then None
      else case to_gval v of GObj m \<Rightarrow> Some (Some m) | GNull \<Rightarrow> Some None | _ \<Rightarrow> None)"

text \<open>\<open>Unmarshal\<close> and \<open>Decode\<close> into a map.\<close>

definition unmarshal_map :: "string \<Rightarrow> params option option" where
  "unmarshal_map s = Option.bind (json_whole s) json_to_map"

definition decode_map :: "string \<Rightarrow> params option option" where
  "decode_map s = Option.bind (json_prefix s) (\<lambda>(v, rest). json_to_map v)"

text \<open>
  Into a struct: the members are stored one by one, so a repeated key overwrites; \<open>null\<close> leaves
  the target as it is; a value of the wrong type is an error.
\<close>

definition decode_string :: "json \<Rightarrow> string \<Rightarrow> string option" where
  "decode_string v old = (case v of JStr s \<Rightarrow> Some s | JNull \<Rightarrow> Some old | _ \<Rightarrow> None)"

definition decode_bool :: "json \<Rightarrow> bool \<Rightarrow> bool option" where
  "decode_bool v old = (case v of JBool b \<Rightarrow> Some b | JNull \<Rightarrow> Some old | _ \<Rightarrow> None)"

fun fold_members ::
  "(string \<Rightarrow> string \<Rightarrow> json \<Rightarrow> 'a \<Rightarrow> 'a option) \<Rightarrow> (string \<times> string \<times> json) list \<Rightarrow> 'a \<Rightarrow> 'a option"
  where
    "fold_members step [] a = Some a"
  | "fold_members step ((k, raw, v) # ms) a = Option.bind (step k raw v a) (fold_members step ms)"

definition decode_struct :: "(string \<Rightarrow> string \<Rightarrow> json \<Rightarrow> 'a \<Rightarrow> 'a option) \<Rightarrow> json \<Rightarrow> 'a \<Rightarrow> 'a option" where
  "decode_struct step v a =
     (case v of JObj ms \<Rightarrow> fold_members step ms a | JNull \<Rightarrow> Some a | _ \<Rightarrow> None)"

section \<open>Key folding\<close>

text \<open>
  A key belongs to the field with the same name up to case; the two non-ASCII letters that fold
  to ASCII ones (long s, Kelvin sign) count as these.
\<close>

fun fold_name :: "string \<Rightarrow> string" where
  "fold_name (a # b # c # r) =
     (if a = CHR 0xC5 \<and> b = CHR 0xBF then CHR ''S'' # fold_name (c # r)
      else if a = CHR 0xE2 \<and> b = CHR 0x84 \<and> c = CHR 0xAA then CHR ''K'' # fold_name r
      else (if 97 \<le> (of_char a :: nat) \<and> of_char a \<le> (122::nat) then char_of (of_char a - 32 :: nat) else a)
           # fold_name (b # c # r))"
| "fold_name [a, b] =
     (if a = CHR 0xC5 \<and> b = CHR 0xBF then [CHR ''S'']
      else (if 97 \<le> (of_char a :: nat) \<and> of_char a \<le> (122::nat) then char_of (of_char a - 32 :: nat) else a)
           # fold_name [b])"
| "fold_name [a] = [if 97 \<le> (of_char a :: nat) \<and> of_char a \<le> (122::nat) then char_of (of_char a - 32 :: nat) else a]"
| "fold_name [] = []"

definition is_field :: "string \<Rightarrow> string \<Rightarrow> bool" where
  "is_field name key \<longleftrightarrow> fold_name key = fold_name name"

section \<open>Encoding\<close>

definition u_escape :: "nat \<Rightarrow> string" where
  "u_escape n = [CHR 0x5C, CHR ''u''] @ pad0 4 (to_base 16 n)"

definition enc_ascii :: "char \<Rightarrow> string" where
  "enc_ascii c =
     (let n = of_char c :: nat in
      if c = CHR 0x22 \<or> c = CHR 0x5C then [CHR 0x5C, c]
      else if n = 8 then [CHR 0x5C, CHR ''b''] else if n = 12 then [CHR 0x5C, CHR ''f'']
      else if n = 10 then [CHR 0x5C, CHR ''n''] else if n = 13 then [CHR 0x5C, CHR ''r'']
      else if n = 9 then [CHR 0x5C, CHR ''t'']
      else if n < 32 \<or> c = CHR ''<'' \<or> c = CHR ''>'' \<or> c = CHR ''&'' then u_escape n
      else [c])"

function enc_body :: "string \<Rightarrow> string" where
  "enc_body [] = []"
| "enc_body (c # cs) =
     (if (of_char c :: nat) < 128 then enc_ascii c @ enc_body cs
      else let (r, n) = decode_rune (c # cs) in
        (if r = RuneError \<and> n = 1 then u_escape RuneError
         else if r = 0x2028 \<or> r = 0x2029 then u_escape r
         else take n (c # cs)) @ enc_body (drop (n - 1) cs))"
  by pat_completeness auto
termination by (relation "measure length") auto

declare enc_body.simps(2) [simp del]

definition json_string :: "string \<Rightarrow> string" where
  "json_string s = CHR 0x22 # enc_body s @ [CHR 0x22]"

text \<open>\<open>compact\<close> on a raw message: \<open>q\<close> says whether we are inside a string.\<close>

fun compact_loop :: "bool \<Rightarrow> string \<Rightarrow> string" where
  "compact_loop q [] = []"
| "compact_loop q (c # cs) =
     (if c = CHR ''<'' \<or> c = CHR ''>'' \<or> c = CHR ''&'' then u_escape (of_char c) @ compact_loop q cs
      else if c = CHR 0xE2 \<and> (HasPrefix cs [CHR 0x80, CHR 0xA8] \<or> HasPrefix cs [CHR 0x80, CHR 0xA9])
      then u_escape (if HasPrefix cs [CHR 0x80, CHR 0xA8] then 0x2028 else 0x2029) @ compact_loop q (drop 2 cs)
      else if q \<and> c = CHR 0x5C then
        (case cs of [] \<Rightarrow> [c] | e # es \<Rightarrow> c # e # compact_loop q es)
      else if c = CHR 0x22 then c # compact_loop (\<not> q) cs
      else if \<not> q \<and> is_ws c then compact_loop q cs
      else c # compact_loop q cs)"

definition json_compact :: "string \<Rightarrow> string option" where
  "json_compact raw = (if json_whole raw = None then None else Some (compact_loop False raw))"

section \<open>Consumption and fuel\<close>

lemma length_skip_ws [simp]: "length (skip_ws s) \<le> length s"
  by (simp add: skip_ws_def length_dropWhile_le)

lemma expect_Some: "expect c s = Some r \<longleftrightarrow> s = c # r"
  by (auto simp: expect_def split: list.splits if_splits)

lemma scan_str_length: "scan_str s = Some (b, r) \<Longrightarrow> length r < length s"
  by (induction s arbitrary: b r rule: scan_str.induct)
    (fastforce split: if_splits list.splits)+

lemma digits1_length: "digits1 s = Some t \<Longrightarrow> length t < length s"
  by (cases s) (auto simp: digits1_def le_imp_less_Suc length_dropWhile_le split: if_splits)

lemma num_int_length: "num_int s = Some t \<Longrightarrow> length t < length s"
  by (auto simp: num_int_def dest: digits1_length split: list.splits if_splits)

lemma num_frac_length: "num_frac s = Some t \<Longrightarrow> length t \<le> length s"
  by (auto simp: num_frac_def expect_Some dest: digits1_length split: option.splits)

lemma num_exp_length: "num_exp s = Some t \<Longrightarrow> length t \<le> length s"
  by (auto simp: num_exp_def dest: digits1_length split: list.splits if_splits)

lemma scan_number_length: "scan_number s = Some t \<Longrightarrow> length t < length s"
  by (auto simp: scan_number_def bind_eq_Some_conv expect_Some split: option.splits
      dest!: num_int_length num_frac_length num_exp_length)

lemma json_literal_length: "json_literal s = Some (v, t) \<Longrightarrow> length t < length s"
  by (cases s) (auto simp: json_literal_def HasPrefix_def split: if_splits)

lemma expect_length: "expect c s = Some r \<Longrightarrow> length r < length s"
  by (simp add: expect_Some)

lemma expect_skip_length: "expect c (skip_ws s) = Some r \<Longrightarrow> length r < length s"
  using length_skip_ws [of s] by (auto simp: expect_Some)

lemmas scan_lengths = expect_length expect_skip_length scan_str_length scan_number_length json_literal_length

lemma json_members_Some:
  assumes "json_members (Suc n) d s = Some (ms, y)"
  obtains k t u v w where "length t < length s" "expect (CHR '':'') (skip_ws t) = Some u"
    "json_value n d (skip_ws u) = Some (v, w)"
    "(\<exists>x ms'. expect (CHR '','') (skip_ws w) = Some x \<and> json_members n d (skip_ws x) = Some (ms', y)) \<or>
     expect (CHR 0x7D) (skip_ws w) = Some y"
proof -
  from assms obtain s1 k t u v w where "expect (CHR 0x22) s = Some s1" "scan_str s1 = Some (k, t)"
    and u: "expect (CHR '':'') (skip_ws t) = Some u" and v: "json_value n d (skip_ws u) = Some (v, w)"
    and r: "(case expect (CHR '','') (skip_ws w) of
            Some x \<Rightarrow> map_option (\<lambda>(ms, y). ((unquote k, consumed (skip_ws u) w, v) # ms, y)) (json_members n d (skip_ws x))
          | None \<Rightarrow> map_option (\<lambda>x. ([(unquote k, consumed (skip_ws u) w, v)], x)) (expect (CHR 0x7D) (skip_ws w))) = Some (ms, y)"
    by (auto simp: bind_eq_Some_conv Let_def simp del: not_None_eq)
  then have "length t < length s" by (auto dest!: scan_lengths)
  moreover have "(\<exists>x ms'. expect (CHR '','') (skip_ws w) = Some x \<and> json_members n d (skip_ws x) = Some (ms', y)) \<or>
     expect (CHR 0x7D) (skip_ws w) = Some y"
    using r by (auto split: option.splits)
  ultimately show ?thesis using that u v by blast
qed

lemma json_elements_Some:
  assumes "json_elements (Suc n) d s = Some (vs, y)"
  obtains v w where "json_value n d s = Some (v, w)"
    "(\<exists>x vs'. expect (CHR '','') (skip_ws w) = Some x \<and> json_elements n d (skip_ws x) = Some (vs', y)) \<or>
     expect (CHR 0x5D) (skip_ws w) = Some y"
  using assms by (auto simp: bind_eq_Some_conv split: option.splits)

lemma json_length:
  "(\<forall>d s v t. json_value n d s = Some (v, t) \<longrightarrow> length t < length s) \<and>
   (\<forall>d s v t. json_members n d s = Some (v, t) \<longrightarrow> length t < length s) \<and>
   (\<forall>d s v t. json_elements n d s = Some (v, t) \<longrightarrow> length t < length s)"
proof (induction n)
  case (Suc n)
  have val: "length t < length s" if "json_value n d (skip_ws s) = Some (v, t)" for d s v t
    using Suc that length_skip_ws [of s] by (meson less_le_trans)
  have members: "length t < length s" if "json_members n d (skip_ws s) = Some (v, t)" for d s v t
    using Suc that length_skip_ws [of s] by (meson less_le_trans)
  have elements: "length t < length s" if "json_elements n d (skip_ws s) = Some (v, t)" for d s v t
    using Suc that length_skip_ws [of s] by (meson less_le_trans)
  have "length t < length s" if "json_value (Suc n) d s = Some (v, t)" for d s v t
    using that members elements
    by (auto split: list.splits if_splits option.splits dest: scan_lengths intro: less_SucI)
  moreover have "length y < length s" if m: "json_members (Suc n) d s = Some (ms, y)" for d s ms y
    by (rule json_members_Some [OF m]) (meson expect_skip_length less_trans members val)
  moreover have "length y < length s" if e: "json_elements (Suc n) d s = Some (vs, y)" for d s vs y
    by (rule json_elements_Some [OF e]) (meson Suc.IH expect_skip_length less_trans elements)
  ultimately show ?case by blast
qed simp

lemma json_value_length: "json_value n d s = Some (v, t) \<Longrightarrow> length t < length s"
  using json_length by blast

lemma bind_cong_Some:
  "a = b \<Longrightarrow> (\<And>x. b = Some x \<Longrightarrow> f x = g x) \<Longrightarrow> Option.bind a f = Option.bind b g"
  by (cases b) auto

text \<open>An element is scanned without consuming anything first, hence the factor two.\<close>

lemma json_fuel_agree:
  "(\<forall>m d s. 2 * length s < n \<longrightarrow> 2 * length s < m \<longrightarrow> json_value n d s = json_value m d s) \<and>
   (\<forall>m d s. 2 * length s < n \<longrightarrow> 2 * length s < m \<longrightarrow> json_members n d s = json_members m d s) \<and>
   (\<forall>m d s. Suc (2 * length s) < n \<longrightarrow> Suc (2 * length s) < m \<longrightarrow> json_elements n d s = json_elements m d s)"
proof (induction n)
  case (Suc n)
  have val: "json_value n d s' = json_value m d s'"
    if "2 * length s' < n" "2 * length s' < m" for m d s'
    using Suc that by blast
  have members: "json_members n d (skip_ws s) = json_members m d (skip_ws s)"
    if "2 * length s < n" "2 * length s < m" for m d s
    using Suc that length_skip_ws [of s] by (meson le_less_trans mult_le_mono2)
  have elements: "json_elements n d (skip_ws s) = json_elements m d (skip_ws s)"
    if "Suc (2 * length s) < n" "Suc (2 * length s) < m" for m d s
    using Suc that length_skip_ws [of s] by (meson Suc_le_mono le_less_trans mult_le_mono2)
  have "json_value (Suc n) d s = json_value m d s" if *: "2 * length s < Suc n" "2 * length s < m" for m d s
  proof -
    obtain m' where "m = Suc m'" using * by (cases m) auto
    with * members [of _ m'] elements [of _ m'] show ?thesis by (auto split: list.splits option.splits)
  qed
  moreover have "json_members (Suc n) d s = json_members m d s"
    if *: "2 * length s < Suc n" "2 * length s < m" for m d s
  proof -
    obtain m' where m: "m = Suc m'" using * by (cases m) auto
    have v: "json_value n d (skip_ws u) = json_value m' d (skip_ws u)" if "length u < length s" for u
      using length_skip_ws [of u] that m * by (intro val) linarith+
    have ms: "json_members n d (skip_ws x) = json_members m' d (skip_ws x)" if "length x < length s" for x
      using that m * by (intro members) linarith+
    have tail: "length x < length s"
      if "length u < length s" "json_value m' d (skip_ws u) = Some (v, w)" "expect (CHR '','') (skip_ws w) = Some x"
      for u v w x
      using that length_skip_ws [of u] by (meson expect_skip_length json_value_length less_le_trans less_trans)
    show ?thesis
      unfolding m json_members.simps
    proof (rule bind_cong_Some, rule refl, clarify, rule bind_cong_Some, rule refl, rule bind_cong_Some, goal_cases)
      case (1 k t u)
      then have "length u < length s" by (auto simp: bind_eq_Some_conv dest!: scan_lengths)
      then show ?case by (rule v)
    next
      case (2 k t u r)
      then have "length u < length s" by (auto simp: bind_eq_Some_conv dest!: scan_lengths)
      with 2 ms tail [OF this] show ?case by (cases r) (auto simp: Let_def split: option.splits)
    qed
  qed
  moreover have "json_elements (Suc n) d s = json_elements m d s"
    if *: "Suc (2 * length s) < Suc n" "Suc (2 * length s) < m" for m d s
  proof -
    obtain m' where m: "m = Suc m'" using * by (cases m) auto
    have v: "json_value n d s = json_value m' d s"
      using * m by (intro val) linarith+
    have es: "json_elements n d (skip_ws x) = json_elements m' d (skip_ws x)" if "length x < length s" for x
      using that m * by (intro elements) linarith+
    have "length x < length s" if "json_value m' d s = Some (v, w)" "expect (CHR '','') (skip_ws w) = Some x" for v w x
      using that by (meson expect_skip_length json_value_length less_trans)
    with es show ?thesis
      unfolding m json_elements.simps v
      by (intro bind_cong_Some refl) (auto split: option.splits)
  qed
  ultimately show ?case by blast
qed simp


text \<open>Any fuel above twice the length gives the result of \<open>json_prefix\<close>.\<close>

lemma json_fuel_enough:
  "2 * length s < n \<Longrightarrow> json_value n 0 (skip_ws s) = json_prefix s"
  unfolding json_prefix_def
  by (rule json_fuel_agree [THEN conjunct1, rule_format]) (use length_skip_ws [of s] in linarith)+

lemma consumed_append [simp]: "consumed (a @ b) b = a"
  by (simp add: consumed_def)

lemma skip_ws_Cons [simp]: "skip_ws (c # cs) = (if is_ws c then skip_ws cs else c # cs)"
  by (simp add: skip_ws_def)

lemma skip_ws_Nil [simp]: "skip_ws [] = []"
  by (simp add: skip_ws_def)

end
