(* ===== verification/Query_Ast.thy ===== *)
theory Query_Ast
  imports Go_Strings
begin

text \<open>
  The data the query analysis works on. The abstract syntax belongs to the \<open>gqlparser\<close> package,
  which is not part of the repository: its types are given here with exactly the fields that
  \<open>internal/parser\<close> reads, and its functions (\<open>ParseQuery\<close>, the \<open>ForName\<close> lookups) are
  arguments of the definitions that call them. A nil \<open>SelectionSet\<close> is the empty list: the
  source guards the recursive call with a nil check, and walking an empty list does nothing.
\<close>

text \<open>
  A value: its children (a child may carry a nil value) and, for a variable, its definition with
  an optional default value.
\<close>

datatype gql_value = Value (Children: "gql_value option list") (VariableDefinition: "gql_value option option")

datatype selection =
    Field string string "string list" "(string \<times> gql_value option) list" "selection list"
      \<comment> \<open>Name, Alias, Directives, Arguments, SelectionSet\<close>
  | InlineFragment string "string list" "selection list"
      \<comment> \<open>TypeCondition, Directives, SelectionSet\<close>
  | FragmentSpread string "string list"
      \<comment> \<open>Name, Directives\<close>

datatype ast_operation = ast_Query | ast_Mutation | ast_Subscription | ast_OtherOperation

record operation_def =
  op_Operation :: ast_operation
  op_Name :: string
  op_VariableDefinitions :: "gql_value option list" \<comment> \<open>the default values\<close>
  op_Directives :: "string list"
  op_SelectionSet :: "selection list"

record fragment_def =
  frag_Name :: string
  frag_Directives :: "string list"
  frag_SelectionSet :: "selection list"

record query_document =
  Operations :: "operation_def list"
  Fragments :: "fragment_def list"

type_synonym fragment_lookup = "string \<Rightarrow> fragment_def option"

record QueryInfo =
  OperationType :: string
  OperationName :: string
  Depth :: nat
  FieldCount :: nat
  FieldPaths :: "string list"
  TenantID :: string
  Directives :: nat
  BatchSize :: nat
  ArgumentDepth :: nat
  ListsRequested :: nat
  FragmentSpreadCount :: nat
  QueryHash :: string
  VariableCount :: nat
  HasDefaultVariables :: bool
  OperationDirectives :: nat
  InlineFragmentTypesCount :: nat
  FragmentCount :: nat
  RequestVariables :: go_bytes

definition zero_QueryInfo :: QueryInfo where
  "zero_QueryInfo =
     \<lparr>OperationType = '''', OperationName = '''', Depth = 0, FieldCount = 0, FieldPaths = [],
      TenantID = '''', Directives = 0, BatchSize = 0, ArgumentDepth = 0, ListsRequested = 0,
      FragmentSpreadCount = 0, QueryHash = '''', VariableCount = 0, HasDefaultVariables = False,
      OperationDirectives = 0, InlineFragmentTypesCount = 0, FragmentCount = 0,
      RequestVariables = ''''\<rparr>"

text \<open>The name under which a field appears in the response: the alias when there is one.\<close>

definition response_name :: "string \<Rightarrow> string \<Rightarrow> string" where
  "response_name name alias = (if alias \<noteq> '''' then alias else name)"

text \<open>Names a selection set spreads, and well-formedness of the names it uses.\<close>

fun spreads :: "selection list \<Rightarrow> string set" where
  "spreads [] = {}"
| "spreads (Field n al ds as ss # rest) = spreads ss \<union> spreads rest"
| "spreads (InlineFragment tc ds ss # rest) = spreads ss \<union> spreads rest"
| "spreads (FragmentSpread n ds # rest) = insert n (spreads rest)"

lemma finite_spreads [simp]: "finite (spreads sels)"
  by (induction sels rule: spreads.induct) auto

definition plain_name :: "string \<Rightarrow> bool" where
  "plain_name n \<longleftrightarrow> n \<noteq> '''' \<and> CHR ''.'' \<notin> set n"

fun plain_names :: "selection list \<Rightarrow> bool" where
  "plain_names [] = True"
| "plain_names (Field n al ds as ss # rest) =
     (plain_name (response_name n al) \<and> plain_names ss \<and> plain_names rest)"
| "plain_names (InlineFragment tc ds ss # rest) = (plain_names ss \<and> plain_names rest)"
| "plain_names (FragmentSpread n ds # rest) = plain_names rest"

text \<open>
  The meaning of a selection set, fragments expanded: the sequences of response names that lead
  from the root to a field. This is the reference the analysis is compared with.
\<close>

inductive selects :: "fragment_lookup \<Rightarrow> selection list \<Rightarrow> string list \<Rightarrow> bool"
  for forName :: fragment_lookup
  where
    sel_field: "selects forName (Field n al ds as ss # rest) [response_name n al]"
  | sel_sub: "selects forName ss p \<Longrightarrow>
      selects forName (Field n al ds as ss # rest) (response_name n al # p)"
  | sel_inline: "selects forName ss p \<Longrightarrow> selects forName (InlineFragment tc ds ss # rest) p"
  | sel_spread: "forName n = Some f \<Longrightarrow> selects forName (frag_SelectionSet f) p \<Longrightarrow>
      selects forName (FragmentSpread n ds # rest) p"
  | sel_rest: "selects forName rest p \<Longrightarrow> selects forName (s # rest) p"

inductive_cases selects_NilE [elim!]: "selects forName [] p"
inductive_cases selects_FieldE: "selects forName (Field n al ds as ss # rest) p"
inductive_cases selects_InlineE: "selects forName (InlineFragment tc ds ss # rest) p"
inductive_cases selects_SpreadE: "selects forName (FragmentSpread n ds # rest) p"

lemma selects_not_Nil: "selects forName sels p \<Longrightarrow> p \<noteq> []"
  by (induction rule: selects.induct) auto

end
