(* ===== verification/Query_Analysis.thy ===== *)
theory Query_Analysis
  imports Query_Ast Go_Sha256
begin

text \<open>
  \<open>internal/parser\<close>: the walk over a query's selection sets that collects field paths and
  complexity counters, and \<open>parseGraphQL\<close>, which aggregates them over the operations of a
  document. The walk is a \<^theory_text>\<open>partial_function\<close> on options, where \<open>None\<close> is a recursion
  that does not end; \<open>walkSelections_total\<close> shows that the visited set rules it out.
\<close>

section \<open>Paths\<close>

text \<open>\<open>splitPath\<close>: \<open>cur\<close> is \<open>path[start:i]\<close>.\<close>

fun splitPath_loop :: "string \<Rightarrow> string \<Rightarrow> string list" where
  "splitPath_loop cur [] = (if cur \<noteq> [] then [cur] else [])"
| "splitPath_loop cur (c # cs) =
     (if c = CHR ''.'' then (if cur \<noteq> [] then [cur] else []) @ splitPath_loop [] cs
      else splitPath_loop (cur @ [c]) cs)"

definition splitPath :: "string \<Rightarrow> string list" where
  "splitPath path = splitPath_loop [] path"

definition join_path :: "string \<Rightarrow> string \<Rightarrow> string" where
  "join_path prefix fieldName = (if prefix \<noteq> '''' then prefix @ ''.'' @ fieldName else fieldName)"

section \<open>Argument depth\<close>

fun measureValueDepth :: "gql_value option \<Rightarrow> nat \<Rightarrow> nat"
  and measureChildren :: "gql_value option list \<Rightarrow> nat \<Rightarrow> nat \<Rightarrow> nat"
  where
    "measureValueDepth None depth = depth"
  | "measureValueDepth (Some (Value children vd)) depth =
       (let maxDepth = measureChildren children depth depth in
        (case vd of
           Some (Some dv) \<Rightarrow>
             (let defaultDepth = measureValueDepth (Some dv) (depth + 1)
              in if maxDepth < defaultDepth then defaultDepth else maxDepth)
         | _ \<Rightarrow> maxDepth))"
  | "measureChildren [] depth maxDepth = maxDepth"
  | "measureChildren (None # cs) depth maxDepth = measureChildren cs depth maxDepth"
  | "measureChildren (Some v # cs) depth maxDepth =
       (let childDepth = measureValueDepth (Some v) (depth + 1)
        in measureChildren cs depth (if maxDepth < childDepth then childDepth else maxDepth))"

fun argumentDepth_loop :: "(string \<times> gql_value option) list \<Rightarrow> nat \<Rightarrow> nat" where
  "argumentDepth_loop [] m = m"
| "argumentDepth_loop ((n, v) # as) m =
     (let argDepth = measureValueDepth v 1
      in argumentDepth_loop as (if m < argDepth then argDepth else m))"

section \<open>The walk\<close>

definition looks_plural :: "string \<Rightarrow> bool" where
  "looks_plural fieldName \<longleftrightarrow> 1 < length fieldName \<and> last fieldName = CHR ''s''"

definition record_field ::
  "string \<Rightarrow> string \<Rightarrow> string list \<Rightarrow> (string \<times> gql_value option) list \<Rightarrow> nat \<Rightarrow> QueryInfo \<Rightarrow> QueryInfo" where
  "record_field fieldName path ds args newDepth info =
     info\<lparr>FieldCount := FieldCount info + 1,
          Directives := Directives info + length ds,
          ArgumentDepth := argumentDepth_loop args (ArgumentDepth info),
          ListsRequested := ListsRequested info + (if looks_plural fieldName then 1 else 0),
          FieldPaths := FieldPaths info @ [path],
          Depth := (if Depth info < newDepth then newDepth else Depth info)\<rparr>"

definition record_inline :: "string \<Rightarrow> string list \<Rightarrow> QueryInfo \<Rightarrow> QueryInfo" where
  "record_inline typeCondition ds info =
     info\<lparr>FragmentSpreadCount := FragmentSpreadCount info + 1,
          Directives := Directives info + length ds,
          InlineFragmentTypesCount :=
            InlineFragmentTypesCount info + (if typeCondition \<noteq> '''' then 1 else 0)\<rparr>"

definition record_spread :: "string list \<Rightarrow> QueryInfo \<Rightarrow> QueryInfo" where
  "record_spread ds info =
     info\<lparr>FragmentSpreadCount := FragmentSpreadCount info + 1,
          Directives := Directives info + length ds\<rparr>"

lemmas record_defs = record_field_def record_inline_def record_spread_def

partial_function (option) walkSelections ::
  "fragment_lookup \<Rightarrow> selection list \<Rightarrow> string \<Rightarrow> nat \<Rightarrow> QueryInfo \<Rightarrow> string set \<Rightarrow>
   (QueryInfo \<times> string set) option" where
  [code]: "walkSelections forName selections prefix depth info visited =
     (case selections of
        [] \<Rightarrow> Some (info, visited)
      | sel # rest \<Rightarrow>
        (case sel of
           Field name alias ds args ss \<Rightarrow>
             (let fieldName = response_name name alias;
                  path = join_path prefix fieldName;
                  newDepth = depth + 1
              in Option.bind
                   (walkSelections forName ss path newDepth
                      (record_field fieldName path ds args newDepth info) visited)
                   (\<lambda>r. walkSelections forName rest prefix depth (fst r) (snd r)))
         | InlineFragment tc ds ss \<Rightarrow>
             Option.bind
               (walkSelections forName ss prefix depth (record_inline tc ds info) visited)
               (\<lambda>r. walkSelections forName rest prefix depth (fst r) (snd r))
         | FragmentSpread name ds \<Rightarrow>
             (if name \<in> visited
              then walkSelections forName rest prefix depth (record_spread ds info) visited
              else
                (case forName name of
                   None \<Rightarrow>
                     walkSelections forName rest prefix depth (record_spread ds info) (insert name visited)
                 | Some fragment \<Rightarrow>
                     Option.bind
                       (walkSelections forName (frag_SelectionSet fragment) prefix depth
                          (record_spread ds info) (insert name visited))
                       (\<lambda>r. walkSelections forName rest prefix depth (fst r) (snd r))))))"

section \<open>parseGraphQL\<close>

datatype parse_error = EmptyQuery | ParsingQuery | NoOperations | UnnamedOperation

definition operation_type_name :: "ast_operation \<Rightarrow> string" where
  "operation_type_name op =
     (case op of
        ast_Query \<Rightarrow> ''query'' | ast_Mutation \<Rightarrow> ''mutation''
      | ast_Subscription \<Rightarrow> ''subscription'' | ast_OtherOperation \<Rightarrow> ''query'')"

definition analyse_operation ::
  "fragment_lookup \<Rightarrow> query_document \<Rightarrow> operation_def \<Rightarrow> QueryInfo option" where
  "analyse_operation forName doc op =
     map_option
       (\<lambda>r. (fst r)\<lparr>Directives := Directives (fst r) + sum_list (map (\<lambda>f. length (frag_Directives f)) (Fragments doc))\<rparr>)
       (walkSelections forName (op_SelectionSet op) '''' 0
          (zero_QueryInfo\<lparr>
             OperationName := op_Name op,
             OperationType := operation_type_name (op_Operation op),
             OperationDirectives := length (op_Directives op),
             VariableCount := length (op_VariableDefinitions op),
             HasDefaultVariables := list_ex (\<lambda>d. d \<noteq> None) (op_VariableDefinitions op)\<rparr>)
          {})"

definition aggregate :: "QueryInfo \<Rightarrow> QueryInfo \<Rightarrow> QueryInfo" where
  "aggregate info cur =
     info\<lparr>OperationName := (if OperationName info = '''' then OperationName cur else OperationName info),
          OperationType := (if OperationType info = '''' then OperationType cur else OperationType info),
          Depth := max (Depth info) (Depth cur),
          FieldCount := max (FieldCount info) (FieldCount cur),
          Directives := max (Directives info) (Directives cur),
          ArgumentDepth := max (ArgumentDepth info) (ArgumentDepth cur),
          ListsRequested := max (ListsRequested info) (ListsRequested cur),
          FragmentSpreadCount := max (FragmentSpreadCount info) (FragmentSpreadCount cur),
          VariableCount := max (VariableCount info) (VariableCount cur),
          OperationDirectives := max (OperationDirectives info) (OperationDirectives cur),
          InlineFragmentTypesCount := max (InlineFragmentTypesCount info) (InlineFragmentTypesCount cur),
          HasDefaultVariables := (HasDefaultVariables info \<or> HasDefaultVariables cur),
          FieldPaths := FieldPaths info @ FieldPaths cur\<rparr>"

fun analyse_operations ::
  "fragment_lookup \<Rightarrow> query_document \<Rightarrow> operation_def list \<Rightarrow> QueryInfo \<Rightarrow> QueryInfo option" where
  "analyse_operations forName doc [] info = Some info"
| "analyse_operations forName doc (op # ops) info =
     Option.bind (analyse_operation forName doc op)
       (\<lambda>cur. analyse_operations forName doc ops (aggregate info cur))"

definition initial_info :: "query_document \<Rightarrow> string \<Rightarrow> QueryInfo" where
  "initial_info doc query =
     zero_QueryInfo\<lparr>
       BatchSize := length (Operations doc),
       QueryHash := fmt_x_bytes (take 8 (Sum256 query)),
       FragmentCount := length (Fragments doc)\<rparr>"

definition parseGraphQL ::
  "(string \<Rightarrow> query_document option) \<Rightarrow> (fragment_def list \<Rightarrow> fragment_lookup) \<Rightarrow> string \<Rightarrow>
   (parse_error + QueryInfo) option" where
  "parseGraphQL ParseQuery ForName query =
     (if query = '''' then Some (Inl EmptyQuery)
      else (case ParseQuery query of
        None \<Rightarrow> Some (Inl ParsingQuery)
      | Some doc \<Rightarrow>
         (if length (Operations doc) = 0 then Some (Inl NoOperations)
          else if 1 < length (Operations doc) \<and> list_ex (\<lambda>op. op_Name op = '''') (Operations doc)
          then Some (Inl UnnamedOperation)
          else
            map_option Inr
              (analyse_operations (ForName (Fragments doc)) doc (Operations doc)
                 (initial_info doc query)))))"

definition Parse ::
  "(string \<Rightarrow> query_document option) \<Rightarrow> (fragment_def list \<Rightarrow> fragment_lookup) \<Rightarrow> string \<Rightarrow>
   (parse_error + QueryInfo) option" where
  "Parse ParseQuery ForName query = parseGraphQL ParseQuery ForName query"

section \<open>The walk as a relation\<close>

inductive walks ::
  "fragment_lookup \<Rightarrow> selection list \<Rightarrow> string \<Rightarrow> nat \<Rightarrow> QueryInfo \<Rightarrow> string set \<Rightarrow>
   QueryInfo \<Rightarrow> string set \<Rightarrow> bool"
  for forName :: fragment_lookup
  where
    walks_Nil: "walks forName [] prefix depth info visited info visited"
  | walks_Field:
      "walks forName ss (join_path prefix (response_name n al)) (depth + 1)
         (record_field (response_name n al) (join_path prefix (response_name n al)) ds args (depth + 1) info)
         visited info1 visited1 \<Longrightarrow>
       walks forName rest prefix depth info1 visited1 info2 visited2 \<Longrightarrow>
       walks forName (Field n al ds args ss # rest) prefix depth info visited info2 visited2"
  | walks_Inline:
      "walks forName ss prefix depth (record_inline tc ds info) visited info1 visited1 \<Longrightarrow>
       walks forName rest prefix depth info1 visited1 info2 visited2 \<Longrightarrow>
       walks forName (InlineFragment tc ds ss # rest) prefix depth info visited info2 visited2"
  | walks_Seen:
      "n \<in> visited \<Longrightarrow>
       walks forName rest prefix depth (record_spread ds info) visited info2 visited2 \<Longrightarrow>
       walks forName (FragmentSpread n ds # rest) prefix depth info visited info2 visited2"
  | walks_Unknown:
      "n \<notin> visited \<Longrightarrow> forName n = None \<Longrightarrow>
       walks forName rest prefix depth (record_spread ds info) (insert n visited) info2 visited2 \<Longrightarrow>
       walks forName (FragmentSpread n ds # rest) prefix depth info visited info2 visited2"
  | walks_Spread:
      "n \<notin> visited \<Longrightarrow> forName n = Some f \<Longrightarrow>
       walks forName (frag_SelectionSet f) prefix depth (record_spread ds info) (insert n visited)
         info1 visited1 \<Longrightarrow>
       walks forName rest prefix depth info1 visited1 info2 visited2 \<Longrightarrow>
       walks forName (FragmentSpread n ds # rest) prefix depth info visited info2 visited2"

lemma walkSelections_walks:
  assumes "walkSelections forName sels prefix depth info visited = Some r"
  shows "walks forName sels prefix depth info visited (fst r) (snd r)"
proof (rule walkSelections.raw_induct
    [where P = "\<lambda>forName sels prefix depth info visited r.
        walks forName sels prefix depth info visited (fst r) (snd r)", OF _ assms], goal_cases)
  case (1 walk forName sels prefix depth info visited r)
  note IH = 1(1)
  from 1(2) show ?case
    by (auto simp: Let_def bind_eq_Some_conv split: list.splits selection.splits if_splits option.splits
        intro: walks.intros dest!: IH)
qed

lemma walkSelections_Nil [simp]:
  "walkSelections forName [] prefix depth info visited = Some (info, visited)"
  by (simp add: walkSelections.simps)

lemma walkSelections_Field [simp]:
  "walkSelections forName (Field n al ds args ss # rest) prefix depth info visited =
     Option.bind
       (walkSelections forName ss (join_path prefix (response_name n al)) (depth + 1)
          (record_field (response_name n al) (join_path prefix (response_name n al)) ds args (depth + 1) info)
          visited)
       (\<lambda>r. walkSelections forName rest prefix depth (fst r) (snd r))"
  by (subst walkSelections.simps) (simp add: Let_def)

lemma walkSelections_Inline [simp]:
  "walkSelections forName (InlineFragment tc ds ss # rest) prefix depth info visited =
     Option.bind (walkSelections forName ss prefix depth (record_inline tc ds info) visited)
       (\<lambda>r. walkSelections forName rest prefix depth (fst r) (snd r))"
  by (subst walkSelections.simps) simp

lemma walkSelections_Spread [simp]:
  "walkSelections forName (FragmentSpread n ds # rest) prefix depth info visited =
     (if n \<in> visited then walkSelections forName rest prefix depth (record_spread ds info) visited
      else (case forName n of
         None \<Rightarrow> walkSelections forName rest prefix depth (record_spread ds info) (insert n visited)
       | Some f \<Rightarrow>
           Option.bind
             (walkSelections forName (frag_SelectionSet f) prefix depth (record_spread ds info) (insert n visited))
             (\<lambda>r. walkSelections forName rest prefix depth (fst r) (snd r))))"
  by (subst walkSelections.simps) simp

lemma walks_walkSelections:
  "walks forName sels prefix depth info visited info' visited' \<Longrightarrow>
   walkSelections forName sels prefix depth info visited = Some (info', visited')"
  by (induction rule: walks.induct) simp_all

lemma walkSelections_iff_walks:
  "walkSelections forName sels prefix depth info visited = Some (info', visited') \<longleftrightarrow>
   walks forName sels prefix depth info visited info' visited'"
  using walkSelections_walks [of forName sels prefix depth info visited "(info', visited')"]
    walks_walkSelections by auto

lemma walks_visited_mono: "walks forName sels prefix depth info visited info' visited' \<Longrightarrow> visited \<subseteq> visited'"
  by (induction rule: walks.induct) auto

section \<open>Termination\<close>

fun weight :: "selection list \<Rightarrow> nat" where
  "weight [] = 0"
| "weight (Field n al ds as ss # rest) = 1 + weight ss + weight rest"
| "weight (InlineFragment tc ds ss # rest) = 1 + weight ss + weight rest"
| "weight (FragmentSpread n ds # rest) = 1 + weight rest"

lemma walks_total_bounded:
  assumes fin: "finite U"
    and frags: "\<And>n f. forName n = Some f \<Longrightarrow> spreads (frag_SelectionSet f) \<subseteq> U"
  shows "card (U - visited) \<le> k \<Longrightarrow> spreads sels \<subseteq> U \<Longrightarrow>
    \<exists>info' visited'. walks forName sels prefix depth info visited info' visited'"
proof (induction k arbitrary: sels visited prefix depth info rule: less_induct)
  case outer: (less k)
  have grow: "card (U - v') \<le> k" if "card (U - v) \<le> k" "v \<subseteq> v'" for v v'
    using that fin card_mono [of "U - v" "U - v'"] by fastforce
  show ?case
    using outer.prems
  proof (induction sels arbitrary: visited prefix depth info rule: weight.induct)
    case 1
    then show ?case using walks_Nil by blast
  next
    case (2 n al ds as ss rest)
    from 2 have ss: "spreads ss \<subseteq> U" and rest: "spreads rest \<subseteq> U" by auto
    from "2.IH"(1) [OF "2.prems"(1) ss] obtain i1 v1 where w1:
      "walks forName ss (join_path prefix (response_name n al)) (depth + 1)
         (record_field (response_name n al) (join_path prefix (response_name n al)) ds as (depth + 1) info)
         visited i1 v1" by blast
    from "2.IH"(2) [OF grow [OF "2.prems"(1) walks_visited_mono [OF w1]] rest] obtain i2 v2
      where "walks forName rest prefix depth i1 v1 i2 v2" by blast
    then show ?case using walks_Field [OF w1] by blast
  next
    case (3 tc ds ss rest)
    from 3 have ss: "spreads ss \<subseteq> U" and rest: "spreads rest \<subseteq> U" by auto
    from "3.IH"(1) [OF "3.prems"(1) ss] obtain i1 v1
      where w1: "walks forName ss prefix depth (record_inline tc ds info) visited i1 v1" by blast
    from "3.IH"(2) [OF grow [OF "3.prems"(1) walks_visited_mono [OF w1]] rest] obtain i2 v2
      where "walks forName rest prefix depth i1 v1 i2 v2" by blast
    then show ?case using walks_Inline [OF w1] by blast
  next
    case (4 n ds rest)
    have nU: "n \<in> U" and rest: "spreads rest \<subseteq> U" using "4.prems" by auto
    show ?case
    proof (cases "n \<in> visited")
      case True
      from "4.IH" [OF "4.prems"(1) rest] show ?thesis using walks_Seen [OF True] by blast
    next
      case new: False
      have less: "card (U - insert n visited) < card (U - visited)"
        using nU new fin by (intro psubset_card_mono) auto
      show ?thesis
      proof (cases "forName n")
        case None
        from "4.IH" [OF grow [OF "4.prems"(1)] rest, of "insert n visited"]
        show ?thesis using walks_Unknown [where forName = forName, OF new None] by blast
      next
        case (Some f)
        from less "4.prems"(1) have "card (U - insert n visited) < k" by simp
        from outer.IH [OF this order_refl frags [OF Some]]
        obtain i1 v1 where w1: "walks forName (frag_SelectionSet f) prefix depth (record_spread ds info)
            (insert n visited) i1 v1" by blast
        from "4.IH" [OF grow [OF "4.prems"(1)] rest, of v1] walks_visited_mono [OF w1]
        show ?thesis using walks_Spread [where forName = forName, OF new Some w1] by blast
      qed
    qed
  qed
qed

lemma walkSelections_defined:
  assumes "\<And>n f. forName n = Some f \<Longrightarrow> f \<in> set frags"
  shows "\<exists>r. walkSelections forName sels prefix depth info visited = Some r"
proof -
  let ?U = "spreads sels \<union> (\<Union>f \<in> set frags. spreads (frag_SelectionSet f))"
  have "\<exists>info' visited'. walks forName sels prefix depth info visited info' visited'"
    by (rule walks_total_bounded [where U = ?U and k = "card (?U - visited)"]) (auto dest: assms)
  then show ?thesis by (metis walks_walkSelections)
qed

section \<open>What the walk collects\<close>

lemma record_simps [simp]:
  "FieldCount (record_field fn path ds args d info) = Suc (FieldCount info)"
  "FieldPaths (record_field fn path ds args d info) = FieldPaths info @ [path]"
  "Depth (record_field fn path ds args d info) = max (Depth info) d"
  "FieldCount (record_inline tc ds info) = FieldCount info"
  "FieldPaths (record_inline tc ds info) = FieldPaths info"
  "Depth (record_inline tc ds info) = Depth info"
  "FieldCount (record_spread ds info) = FieldCount info"
  "FieldPaths (record_spread ds info) = FieldPaths info"
  "Depth (record_spread ds info) = Depth info"
  by (auto simp: record_defs max_def)

text \<open>Every field visited adds one to the counter and one path.\<close>

lemma walks_count:
  "walks forName sels prefix depth info visited info' visited' \<Longrightarrow>
   FieldCount info' + length (FieldPaths info) = FieldCount info + length (FieldPaths info')"
  by (induction rule: walks.induct) auto

lemma walks_paths_mono:
  "walks forName sels prefix depth info visited info' visited' \<Longrightarrow>
   set (FieldPaths info) \<subseteq> set (FieldPaths info')"
  by (induction rule: walks.induct) auto

text \<open>Paths and their segments.\<close>

lemma splitPath_loop_plain:
  "CHR ''.'' \<notin> set n \<Longrightarrow> cur @ n \<noteq> [] \<Longrightarrow> splitPath_loop cur n = [cur @ n]"
  by (induction n arbitrary: cur) auto

lemma splitPath_loop_append:
  "splitPath_loop cur (p @ CHR ''.'' # q) = splitPath_loop cur p @ splitPath_loop [] q"
  by (induction p arbitrary: cur) auto

lemma splitPath_join:
  assumes "plain_name n"
  shows "splitPath (join_path prefix n) = splitPath prefix @ [n]"
  using assms splitPath_loop_plain [of n "[]"] splitPath_loop_append [of "[]" prefix n]
  by (auto simp: splitPath_def join_path_def plain_name_def)

lemma splitPath_Nil [simp]: "splitPath '''' = []"
  by (simp add: splitPath_def)

definition segments :: "string \<Rightarrow> nat" where
  "segments p = length (splitPath p)"

definition path_depth :: "string list \<Rightarrow> nat" where
  "path_depth ps = foldr max (map segments ps) 0"

lemma path_depth_simps [simp]: "path_depth [] = 0" "path_depth (p # ps) = max (segments p) (path_depth ps)"
  by (auto simp: path_depth_def)

lemma path_depth_append [simp]: "path_depth (ps @ qs) = max (path_depth ps) (path_depth qs)"
  by (induction ps) (auto simp: max.assoc)

text \<open>The measured depth is the length of the longest recorded path.\<close>

lemma walks_depth:
  assumes frags: "\<And>n f. forName n = Some f \<Longrightarrow> plain_names (frag_SelectionSet f)"
  shows "walks forName sels prefix depth info visited info' visited' \<Longrightarrow> plain_names sels \<Longrightarrow>
    segments prefix = depth \<Longrightarrow> Depth info = path_depth (FieldPaths info) \<Longrightarrow>
    Depth info' = path_depth (FieldPaths info')"
proof (induction rule: walks.induct)
  case (walks_Spread n visited f prefix depth ds info info1 visited1 rest info2 visited2)
  then show ?case using frags by simp
qed (auto simp: segments_def splitPath_join)

text \<open>Every recorded path leads to a field the query really selects.\<close>

definition path_of :: "string \<Rightarrow> string list \<Rightarrow> string" where
  "path_of prefix ns = foldl join_path prefix ns"

lemma walks_sound:
  "walks forName sels prefix depth info visited info' visited' \<Longrightarrow> p \<in> set (FieldPaths info') \<Longrightarrow>
   p \<in> set (FieldPaths info) \<or> (\<exists>ns. selects forName sels ns \<and> p = path_of prefix ns)"
proof (induction rule: walks.induct)
  case (walks_Field ss prefix n al depth ds args info visited info1 visited1 rest info2 visited2)
  then show ?case
    by (fastforce simp: path_of_def intro: sel_field sel_sub sel_rest)
next
  case (walks_Inline ss prefix depth tc ds info visited info1 visited1 rest info2 visited2)
  then show ?case by (fastforce intro: sel_inline sel_rest)
next
  case (walks_Spread n visited f prefix depth ds info info1 visited1 rest info2 visited2)
  then show ?case by (fastforce intro: sel_spread sel_rest)
qed (auto intro: sel_rest)

text \<open>Where no fragment is spread, every selected field is recorded.\<close>

lemma walks_complete:
  assumes "walks forName sels prefix depth info visited info' visited'"
    and "spreads sels = {}" and "selects forName sels ns"
  shows "path_of prefix ns \<in> set (FieldPaths info')"
  using assms
proof (induction arbitrary: ns rule: walks.induct)
  case (walks_Field ss prefix n al depth ds args info visited info1 visited1 rest info2 visited2)
  note mono = walks_paths_mono [OF walks_Field.hyps(1)] walks_paths_mono [OF walks_Field.hyps(2)]
  from walks_Field.prems(2) consider (here) "ns = [response_name n al]"
    | (sub) p where "ns = response_name n al # p" "selects forName ss p"
    | (rest) "selects forName rest ns"
    by (auto elim: selects_FieldE)
  then show ?case
  proof cases
    case here
    then show ?thesis using mono by (auto simp: path_of_def)
  next
    case (sub p)
    then show ?thesis using mono walks_Field.IH(1) [of p] walks_Field.prems by (auto simp: path_of_def)
  next
    case rest
    then show ?thesis using walks_Field.IH(2) walks_Field.prems by simp
  qed
next
  case (walks_Inline ss prefix depth tc ds info visited info1 visited1 rest info2 visited2)
  then show ?case using walks_paths_mono [OF walks_Inline.hyps(2)] by (auto elim!: selects_InlineE)
qed auto

section \<open>Argument depth against nesting\<close>

inductive nests :: "gql_value \<Rightarrow> nat \<Rightarrow> bool" where
  nests_0: "nests v 0"
| nests_child: "Some c \<in> set cs \<Longrightarrow> nests c n \<Longrightarrow> nests (Value cs vd) (Suc n)"
| nests_default: "nests dv n \<Longrightarrow> nests (Value cs (Some (Some dv))) (Suc n)"

inductive_simps nests_Value: "nests (Value cs vd) n"

lemma measure_le:
  "depth \<le> measureValueDepth ov depth"
  "maxDepth \<le> measureChildren cs depth maxDepth"
  by (induction ov depth and cs depth maxDepth rule: measureValueDepth_measureChildren.induct)
    (auto simp: Let_def split: option.splits)

lemma measure_upper:
  "ov = Some v \<Longrightarrow> nests v n \<Longrightarrow> depth + n \<le> measureValueDepth ov depth"
  "Some c \<in> set cs \<Longrightarrow> nests c n \<Longrightarrow> depth + Suc n \<le> measureChildren cs depth maxDepth"
proof (induction ov depth and cs depth maxDepth arbitrary: v n and c n
    rule: measureValueDepth_measureChildren.induct)
  case (2 children vd depth)
  from "2.prems" consider "n = 0" | (child) c m where "n = Suc m" "Some c \<in> set children" "nests c m"
    | (def) dv m where "n = Suc m" "vd = Some (Some dv)" "nests dv m"
    by (auto simp: nests_Value)
  then show ?case
  proof cases
    case 1
    then show ?thesis using measure_le(1) [of depth "Some (Value children vd)"]
      by (simp del: measureValueDepth.simps)
  next
    case child
    then show ?thesis using "2.IH"(1) [of c m]
      by (auto simp: Let_def split: option.splits)
  next
    case def
    then show ?thesis using "2.IH"(2) [of _ "Some dv" dv dv m]
      by (auto simp: Let_def split: option.splits)
  qed
next
  case (5 v' cs depth maxDepth)
  show ?case
  proof (cases "c = v'")
    case True
    then have "depth + 1 + n \<le> measureValueDepth (Some v') (depth + 1)" using 5 by simp
    then show ?thesis using measure_le(2) [of _ cs depth]
      by (auto simp: Let_def intro: order_trans [OF _ measure_le(2)])
  next
    case False
    then show ?thesis using 5 by (auto simp: Let_def)
  qed
qed auto

lemma measure_attained:
  "ov = Some v \<Longrightarrow> \<exists>n. nests v n \<and> measureValueDepth ov depth = depth + n"
  "measureChildren cs depth maxDepth = maxDepth \<or>
   (\<exists>c n. Some c \<in> set cs \<and> nests c n \<and> measureChildren cs depth maxDepth = depth + Suc n)"
proof (induction ov depth and cs depth maxDepth arbitrary: v and
    rule: measureValueDepth_measureChildren.induct)
  case (2 children vd depth)
  have children: "\<exists>n. nests (Value children vd) n \<and> measureChildren children depth depth = depth + n"
    using "2.IH"(1) by (metis add_0_right nests_0 nests_child)
  have default: "\<exists>n. nests (Value children vd) n \<and> measureValueDepth (Some dv) (depth + 1) = depth + n"
    if "vd = Some (Some dv)" for dv
    using "2.IH"(2) [OF refl that refl refl] that by (auto intro: nests_default)
  show ?case
    using children default "2.prems" by (auto simp: Let_def split: option.splits)
next
  case (5 v' cs depth maxDepth)
  from "5.IH"(1) obtain n where n: "nests v' n" "measureValueDepth (Some v') (depth + 1) = depth + Suc n"
    by auto
  show ?case
    using "5.IH"(2) n by (fastforce simp: Let_def split: if_splits)
qed auto

section \<open>Operations and documents\<close>

text \<open>What the documentation of the lookup promises: it returns fragments of the list it is given.\<close>

definition lookup_in_list :: "(fragment_def list \<Rightarrow> fragment_lookup) \<Rightarrow> bool" where
  "lookup_in_list ForName \<longleftrightarrow> (\<forall>fs n f. ForName fs n = Some f \<longrightarrow> f \<in> set fs)"

definition find_fragment :: "fragment_def list \<Rightarrow> fragment_lookup" where
  "find_fragment fs n = find (\<lambda>f. frag_Name f = n) fs"

lemma lookup_in_list_find: "lookup_in_list find_fragment"
  by (auto simp: lookup_in_list_def find_fragment_def find_Some_iff in_set_conv_nth)

lemma analyse_operation_defined:
  assumes "\<And>n f. forName n = Some f \<Longrightarrow> f \<in> set frags"
  shows "\<exists>cur. analyse_operation forName doc op = Some cur"
  using walkSelections_defined [OF assms] by (simp add: analyse_operation_def)

lemma analyse_operations_defined:
  assumes "\<And>n f. forName n = Some f \<Longrightarrow> f \<in> set frags"
  shows "\<exists>info'. analyse_operations forName doc ops info = Some info'"
proof (induction ops arbitrary: info)
  case (Cons op ops)
  obtain cur where "analyse_operation forName doc op = Some cur"
    using analyse_operation_defined [of forName frags] assms by blast
  with Cons show ?case by simp
qed simp

text \<open>What one operation contributes.\<close>

lemma analyse_operation_walks:
  assumes "analyse_operation forName doc op = Some cur"
  obtains info0 info' visited' where
    "walks forName (op_SelectionSet op) '''' 0 info0 {} info' visited'"
    and "FieldCount info0 = 0" "FieldPaths info0 = []" "Depth info0 = 0"
    and "FieldCount cur = FieldCount info'" "FieldPaths cur = FieldPaths info'" "Depth cur = Depth info'"
  using assms walkSelections_walks unfolding analyse_operation_def
  by (fastforce simp: zero_QueryInfo_def)

lemma analyse_operation_count:
  "analyse_operation forName doc op = Some cur \<Longrightarrow> FieldCount cur = length (FieldPaths cur)"
  by (erule analyse_operation_walks) (auto dest: walks_count)

lemma analyse_operation_depth:
  assumes "analyse_operation forName doc op = Some cur"
    and "\<And>n f. forName n = Some f \<Longrightarrow> plain_names (frag_SelectionSet f)"
    and "plain_names (op_SelectionSet op)"
  shows "Depth cur = path_depth (FieldPaths cur)"
  using assms(1)
  by (rule analyse_operation_walks) (use assms(2,3) walks_depth in \<open>fastforce simp: segments_def\<close>)

lemma aggregate_simps [simp]:
  "FieldPaths (aggregate info cur) = FieldPaths info @ FieldPaths cur"
  "Depth (aggregate info cur) = max (Depth info) (Depth cur)"
  "FieldCount (aggregate info cur) = max (FieldCount info) (FieldCount cur)"
  by (simp_all add: aggregate_def)

lemma analyse_operations_count:
  "analyse_operations forName doc ops info = Some info' \<Longrightarrow> FieldCount info \<le> length (FieldPaths info) \<Longrightarrow>
   FieldCount info' \<le> length (FieldPaths info')"
proof (induction ops arbitrary: info)
  case (Cons op ops)
  then obtain cur where "analyse_operation forName doc op = Some cur"
    and "analyse_operations forName doc ops (aggregate info cur) = Some info'"
    by (auto simp: bind_eq_Some_conv)
  with Cons show ?case by (auto dest!: analyse_operation_count)
qed simp

lemma analyse_operations_depth:
  assumes "\<And>n f. forName n = Some f \<Longrightarrow> plain_names (frag_SelectionSet f)"
  shows "analyse_operations forName doc ops info = Some info' \<Longrightarrow>
    \<forall>op \<in> set ops. plain_names (op_SelectionSet op) \<Longrightarrow> Depth info = path_depth (FieldPaths info) \<Longrightarrow>
    Depth info' = path_depth (FieldPaths info')"
proof (induction ops arbitrary: info)
  case (Cons op ops)
  then obtain cur where "analyse_operation forName doc op = Some cur"
    and "analyse_operations forName doc ops (aggregate info cur) = Some info'"
    by (auto simp: bind_eq_Some_conv)
  with Cons analyse_operation_depth [OF _ assms] show ?case by simp
qed simp

lemma analyse_operations_sound:
  assumes "analyse_operations forName doc ops info = Some info'" and "p \<in> set (FieldPaths info')"
  shows "p \<in> set (FieldPaths info) \<or>
    (\<exists>op \<in> set ops. \<exists>ns. selects forName (op_SelectionSet op) ns \<and> p = path_of '''' ns)"
  using assms
proof (induction ops arbitrary: info)
  case (Cons op ops)
  then obtain cur where cur: "analyse_operation forName doc op = Some cur"
    and rest: "analyse_operations forName doc ops (aggregate info cur) = Some info'"
    by (auto simp: bind_eq_Some_conv)
  have "p \<in> set (FieldPaths cur) \<Longrightarrow> \<exists>ns. selects forName (op_SelectionSet op) ns \<and> p = path_of '''' ns"
    using cur by (rule analyse_operation_walks) (auto dest: walks_sound)
  with Cons.IH [OF rest Cons.prems(2)] show ?case by auto
qed simp

text \<open>The counters and the operation metadata that aggregation computes.\<close>

lemma analyse_operations_frame:
  "analyse_operations forName doc ops info = Some info' \<Longrightarrow>
   BatchSize info' = BatchSize info \<and> QueryHash info' = QueryHash info \<and>
   FragmentCount info' = FragmentCount info \<and> TenantID info' = TenantID info \<and>
   RequestVariables info' = RequestVariables info"
proof (induction ops arbitrary: info)
  case (Cons op ops)
  then show ?case by (fastforce simp: bind_eq_Some_conv aggregate_def)
qed simp

lemma analyse_operations_ge:
  "analyse_operations forName doc ops info = Some info' \<Longrightarrow>
   Depth info \<le> Depth info' \<and> FieldCount info \<le> FieldCount info' \<and> Directives info \<le> Directives info' \<and>
   ArgumentDepth info \<le> ArgumentDepth info' \<and> set (FieldPaths info) \<subseteq> set (FieldPaths info')"
proof (induction ops arbitrary: info)
  case (Cons op ops)
  then obtain cur where "analyse_operations forName doc ops (aggregate info cur) = Some info'"
    by (auto simp: bind_eq_Some_conv)
  from Cons.IH [OF this] show ?case by (simp add: aggregate_def)
qed simp

lemma analyse_operations_worst_case:
  assumes "analyse_operations forName doc ops info = Some info'" and "op \<in> set ops"
  shows "\<exists>cur. analyse_operation forName doc op = Some cur \<and>
    Depth cur \<le> Depth info' \<and> FieldCount cur \<le> FieldCount info' \<and> Directives cur \<le> Directives info' \<and>
    ArgumentDepth cur \<le> ArgumentDepth info' \<and> set (FieldPaths cur) \<subseteq> set (FieldPaths info')"
  using assms
proof (induction ops arbitrary: info)
  case (Cons o1 ops)
  then obtain cur where cur: "analyse_operation forName doc o1 = Some cur"
    and rest: "analyse_operations forName doc ops (aggregate info cur) = Some info'"
    by (auto simp: bind_eq_Some_conv)
  show ?case
  proof (cases "op = o1")
    case True
    with cur analyse_operations_ge [OF rest] show ?thesis by (auto simp: aggregate_def)
  next
    case False
    with Cons rest show ?thesis by auto
  qed
qed simp

lemma analyse_operations_fold:
  "analyse_operations forName doc ops info = Some info' \<Longrightarrow>
   \<exists>curs. list_all2 (\<lambda>op cur. analyse_operation forName doc op = Some cur) ops curs \<and> info' = fold (\<lambda>cur info. aggregate info cur) curs info"
proof (induction ops arbitrary: info)
  case (Cons op ops)
  then obtain cur where cur: "analyse_operation forName doc op = Some cur"
    "analyse_operations forName doc ops (aggregate info cur) = Some info'"
    by (auto simp: bind_eq_Some_conv)
  from Cons.IH [OF this(2)] obtain curs where
    "list_all2 (\<lambda>op cur. analyse_operation forName doc op = Some cur) ops curs"
    "info' = fold (\<lambda>cur info. aggregate info cur) curs (aggregate info cur)" by blast
  with cur(1) show ?case by (intro exI [of _ "cur # curs"]) simp
qed simp

text \<open>A metric of which the aggregate takes the maximum is that of the worst operation.\<close>

lemma fold_aggregate_max:
  assumes "\<And>a b. M (aggregate a b) = max (M a) (M b)" and "curs \<noteq> []" and "M info = (0 :: nat)"
  shows "M (fold (\<lambda>cur info. aggregate info cur) curs info) = Max (M ` set curs)"
proof -
  have "M (fold (\<lambda>cur info. aggregate info cur) cs x) = Max (insert (M x) (M ` set cs))" for cs x
  proof (induction cs arbitrary: x)
    case (Cons c cs)
    then show ?case by (simp add: assms(1) Max_insert insert_commute) (cases "cs = []", simp_all add: max.assoc max.commute max.left_commute)
  qed simp
  then show ?thesis using assms(2,3) by (simp add: Max_insert)
qed

lemma fold_aggregate_paths: "FieldPaths (fold (\<lambda>cur info. aggregate info cur) curs info) = FieldPaths info @ concat (map FieldPaths curs)"
  by (induction curs arbitrary: info) (simp_all add: aggregate_def)

lemma fold_aggregate_defaults:
  "HasDefaultVariables (fold (\<lambda>cur info. aggregate info cur) curs info) \<longleftrightarrow>
   HasDefaultVariables info \<or> (\<exists>cur \<in> set curs. HasDefaultVariables cur)"
  by (induction curs arbitrary: info) (auto simp: aggregate_def)

lemma parseGraphQL_Inr:
  assumes "parseGraphQL ParseQuery ForName query = Some (Inr info)"
  obtains doc where "query \<noteq> ''''" "ParseQuery query = Some doc" "Operations doc \<noteq> []"
    "analyse_operations (ForName (Fragments doc)) doc (Operations doc) (initial_info doc query) = Some info"
  using assms by (auto simp: parseGraphQL_def split: if_splits option.splits)

section \<open>Repeated fragment spreads\<close>

text \<open>
  A family of documents: fragment \<open>i + 1\<close> spreads fragment \<open>i\<close> twice, once beside and once
  below a field \<open>a\<close>; fragment 0 selects the field \<open>x\<close>.
\<close>

definition laugh_name :: "nat \<Rightarrow> string" where
  "laugh_name i = replicate (Suc i) (CHR ''f'')"

fun laugh_selections :: "nat \<Rightarrow> selection list" where
  "laugh_selections 0 = [Field ''x'' '''' [] [] []]"
| "laugh_selections (Suc i) =
     [FragmentSpread (laugh_name i) [],
      Field ''a'' '''' [] [] [FragmentSpread (laugh_name i) []]]"

definition laugh_fragment :: "nat \<Rightarrow> fragment_def" where
  "laugh_fragment i =
     \<lparr>frag_Name = laugh_name i, frag_Directives = [], frag_SelectionSet = laugh_selections i\<rparr>"

lemma laugh_name_inj [simp]: "laugh_name i = laugh_name j \<longleftrightarrow> i = j"
  by (auto simp: laugh_name_def dest: arg_cong [where f = length])

lemma laugh_selects:
  assumes "\<And>i. i < k \<Longrightarrow> forName (laugh_name i) = Some (laugh_fragment i)"
  shows "selects forName (laugh_selections k) (replicate k ''a'' @ [''x''])"
  using assms
proof (induction k)
  case 0
  then show ?case using sel_field [of forName "''x''" "''''"] by (simp add: response_name_def)
next
  case (Suc k)
  have "selects forName [FragmentSpread (laugh_name k) []] (replicate k ''a'' @ [''x''])"
    using Suc by (intro sel_spread [of _ _ "laugh_fragment k"]) (auto simp: laugh_fragment_def)
  then have "selects forName [Field ''a'' '''' [] [] [FragmentSpread (laugh_name k) []]]
      (response_name ''a'' '''' # replicate k ''a'' @ [''x''])"
    by (rule sel_sub)
  then have "selects forName (laugh_selections (Suc k)) (response_name ''a'' '''' # replicate k ''a'' @ [''x''])"
    by (simp add: sel_rest)
  then show ?case by (simp add: response_name_def)
qed

lemma laugh_walks:
  assumes "\<And>i. i < k \<Longrightarrow> forName (laugh_name i) = Some (laugh_fragment i)"
    and "\<And>i. i < k \<Longrightarrow> laugh_name i \<notin> visited"
  shows "\<exists>info'. walkSelections forName (laugh_selections k) prefix depth info visited =
      Some (info', visited \<union> laugh_name ` {..<k}) \<and>
      Depth info' = max (Depth info) (depth + 1) \<and> FieldCount info' = FieldCount info + k + 1"
  using assms
proof (induction k arbitrary: info visited)
  case 0
  then show ?case by simp
next
  case (Suc k)
  let ?v = "insert (laugh_name k) visited"
  obtain info1 where i1: "walkSelections forName (laugh_selections k) prefix depth (record_spread [] info) ?v =
      Some (info1, ?v \<union> laugh_name ` {..<k})"
    and "Depth info1 = max (Depth info) (depth + 1)" and "FieldCount info1 = FieldCount info + k + 1"
    using Suc.IH [of ?v "record_spread [] info"] Suc.prems by auto
  moreover have "?v \<union> laugh_name ` {..<k} = visited \<union> laugh_name ` {..<Suc k}"
    by (auto simp: lessThan_Suc)
  ultimately show ?case
    using Suc.prems by (simp add: laugh_fragment_def max.assoc)
qed

section \<open>Aliases\<close>

text \<open>Replace the name of every aliased field; the name of a field without alias stays.\<close>

fun mask_names :: "string \<Rightarrow> selection list \<Rightarrow> selection list" where
  "mask_names m [] = []"
| "mask_names m (Field n al ds as ss # rest) =
     Field (if al \<noteq> '''' then m else n) al ds as (mask_names m ss) # mask_names m rest"
| "mask_names m (InlineFragment tc ds ss # rest) = InlineFragment tc ds (mask_names m ss) # mask_names m rest"
| "mask_names m (FragmentSpread n ds # rest) = FragmentSpread n ds # mask_names m rest"

definition mask_fragment :: "string \<Rightarrow> fragment_def \<Rightarrow> fragment_def" where
  "mask_fragment m f = f\<lparr>frag_SelectionSet := mask_names m (frag_SelectionSet f)\<rparr>"

lemma response_name_mask [simp]:
  "response_name (if al \<noteq> '''' then m else n) al = response_name n al"
  by (simp add: response_name_def)

lemma walks_mask:
  "walks forName sels prefix depth info visited info' visited' \<Longrightarrow>
   walks (\<lambda>n. map_option (mask_fragment m) (forName n)) (mask_names m sels)
     prefix depth info visited info' visited'"
proof (induction rule: walks.induct)
  case (walks_Field ss prefix n al depth ds args info visited info1 visited1 rest info2 visited2)
  then show ?case
    unfolding mask_names.simps by (intro walks.walks_Field) (simp_all only: response_name_mask)
next
  case (walks_Spread n visited f prefix depth ds info info1 visited1 rest info2 visited2)
  then show ?case
    by (auto simp: mask_fragment_def intro!: walks.walks_Spread [where f = "mask_fragment m f"])
qed (auto intro: walks.intros)

section \<open>Properties of the query analysis\<close>

lemma analyse_operation_complete:
  assumes "analyse_operation forName doc op = Some cur" and "spreads (op_SelectionSet op) = {}"
    and "selects forName (op_SelectionSet op) ns"
  shows "path_of '''' ns \<in> set (FieldPaths cur)"
  using assms(1) by (rule analyse_operation_walks) (use assms(2,3) walks_complete in fastforce)

lemma analyse_operation_type:
  assumes "analyse_operation forName doc op = Some cur"
  shows "OperationType cur = operation_type_name (op_Operation op)"
proof -
  have "walks forName sels prefix depth info visited info' visited' \<Longrightarrow> OperationType info' = OperationType info"
    for sels prefix depth info visited info' visited'
    by (induction rule: walks.induct) (simp_all add: record_defs)
  then show ?thesis using assms walkSelections_walks unfolding analyse_operation_def by fastforce
qed

lemma operation_type_name_nonempty: "operation_type_name op \<noteq> ''''"
  by (cases op) (simp_all add: operation_type_name_def)

lemma analyse_operations_type:
  "analyse_operations forName doc ops info = Some info' \<Longrightarrow>
   OperationType info' =
     (if OperationType info = '''' \<and> ops \<noteq> [] then operation_type_name (op_Operation (hd ops))
      else OperationType info)"
proof (induction ops arbitrary: info)
  case (Cons op ops)
  then obtain cur where "analyse_operation forName doc op = Some cur"
    and "analyse_operations forName doc ops (aggregate info cur) = Some info'"
    by (auto simp: bind_eq_Some_conv)
  with Cons.IH [of "aggregate info cur"] show ?case
    using operation_type_name_nonempty by (auto simp: aggregate_def dest: analyse_operation_type)
qed simp

lemma length_to_base_byte: "length (pad0 2 (to_base 16 (unat (b :: 8 word)))) = 2"
proof -
  have "unat b < 2 ^ LENGTH(8)" by (rule unsigned_less)
  then have n: "unat b < 256" by simp
  show ?thesis
  proof (cases "unat b < 16")
    case True
    then show ?thesis by (simp add: to_base.simps [of 16 "unat b"] pad0_def)
  next
    case False
    with n have "unat b div 16 < 16" by linarith
    with False show ?thesis
      by (simp add: to_base.simps [of 16 "unat b"] to_base.simps [of 16 "unat b div 16"] pad0_def)
  qed
qed

lemma length_fmt_x_bytes: "length (fmt_x_bytes bs) = 2 * length bs"
  by (induction bs) (auto simp: fmt_x_bytes_def length_to_base_byte)

text \<open>
  C10: the analysis of a query always returns, circular fragment references included: the lookup
  of fragments in a document returns fragments of that document, and no fragment is walked twice.
\<close>

theorem parseGraphQL_terminates:
  assumes "lookup_in_list ForName"
  shows "\<exists>r. parseGraphQL ParseQuery ForName query = Some r"
proof (cases "ParseQuery query")
  case (Some doc)
  have "\<exists>info'. analyse_operations (ForName (Fragments doc)) doc (Operations doc) info = Some info'" for info
    using assms by (intro analyse_operations_defined [where frags = "Fragments doc"])
      (auto simp: lookup_in_list_def)
  then show ?thesis using Some by (auto simp: parseGraphQL_def)
qed (simp add: parseGraphQL_def)

lemma initial_info_simps [simp]:
  "FieldPaths (initial_info doc query) = []" "FieldCount (initial_info doc query) = 0"
  "Depth (initial_info doc query) = 0" "OperationType (initial_info doc query) = ''''"
  "BatchSize (initial_info doc query) = length (Operations doc)"
  "QueryHash (initial_info doc query) = fmt_x_bytes (take 8 (Sum256 query))"
  "FragmentCount (initial_info doc query) = length (Fragments doc)"
  by (simp_all add: initial_info_def zero_QueryInfo_def)

text \<open>A small document used by the witnesses, and the result of its analysis.\<close>

definition demo_operation :: operation_def where
  "demo_operation =
     \<lparr>op_Operation = ast_Mutation, op_Name = ''Get'', op_VariableDefinitions = [None],
      op_Directives = [],
      op_SelectionSet = [Field ''user'' '''' [''skip''] [(''id'', Some (Value [] None))]
                           [Field ''name'' '''' [] [] [], Field ''posts'' ''p'' [] [] []]]\<rparr>"

definition demo_document :: query_document where
  "demo_document = \<lparr>Operations = [demo_operation], Fragments = []\<rparr>"

definition demo_info :: "string \<Rightarrow> QueryInfo" where
  "demo_info query =
     (initial_info demo_document query)\<lparr>
       OperationType := ''mutation'', OperationName := ''Get'', Depth := 2, FieldCount := 3,
       FieldPaths := [''user'', ''user.name'', ''user.p''], Directives := 1, ArgumentDepth := 1,
       VariableCount := 1\<rparr>"

lemma demo_parse:
  "parseGraphQL (\<lambda>_. Some demo_document) find_fragment ''m'' = Some (Inr (demo_info ''m''))"
  by (simp add: parseGraphQL_def demo_document_def demo_operation_def demo_info_def analyse_operation_def
      operation_type_name_def response_name_def join_path_def record_field_def looks_plural_def
      aggregate_def initial_info_def zero_QueryInfo_def)

definition circular_document :: query_document where
  "circular_document =
     \<lparr>Operations = [\<lparr>op_Operation = ast_Query, op_Name = '''', op_VariableDefinitions = [],
                     op_Directives = [], op_SelectionSet = [FragmentSpread ''A'' []]\<rparr>],
      Fragments = [\<lparr>frag_Name = ''A'', frag_Directives = [],
                    frag_SelectionSet = [Field ''x'' '''' [] [] [FragmentSpread ''A'' []]]\<rparr>]\<rparr>"

theorem parseGraphQL_terminates_witness:
  "lookup_in_list find_fragment \<and>
   (\<exists>r. parseGraphQL (\<lambda>_. Some circular_document) find_fragment ''{...A}'' = Some r)"
  using lookup_in_list_find parseGraphQL_terminates [OF lookup_in_list_find] by blast

text \<open>
  C11: the analysis reports nothing the query does not ask for: every recorded path is the dotted
  form of response names that lead to a field selected by some operation, fragments expanded.
\<close>

theorem parseGraphQL_paths_selected:
  assumes "parseGraphQL ParseQuery ForName query = Some (Inr info)"
    and "ParseQuery query = Some doc" and "p \<in> set (FieldPaths info)"
  shows "\<exists>op \<in> set (Operations doc). \<exists>ns.
    selects (ForName (Fragments doc)) (op_SelectionSet op) ns \<and> p = path_of '''' ns"
  using assms(1)
  by (rule parseGraphQL_Inr) (use assms(2,3) in \<open>auto dest: analyse_operations_sound\<close>)

theorem parseGraphQL_paths_selected_witness:
  "\<exists>op \<in> set (Operations demo_document). \<exists>ns.
    selects (find_fragment (Fragments demo_document)) (op_SelectionSet op) ns \<and> ''user.name'' = path_of '''' ns"
  by (rule parseGraphQL_paths_selected [OF demo_parse refl]) (simp add: demo_info_def)

text \<open>
  C12: where an operation spreads no named fragment, the analysis misses nothing: the path of every
  field the operation selects is recorded.
\<close>

theorem parseGraphQL_paths_complete:
  assumes "parseGraphQL ParseQuery ForName query = Some (Inr info)"
    and "ParseQuery query = Some doc" and "op \<in> set (Operations doc)"
    and "spreads (op_SelectionSet op) = {}"
    and "selects (ForName (Fragments doc)) (op_SelectionSet op) ns"
  shows "path_of '''' ns \<in> set (FieldPaths info)"
  using assms(1)
proof (rule parseGraphQL_Inr)
  fix doc'
  assume "ParseQuery query = Some doc'"
    and *: "analyse_operations (ForName (Fragments doc')) doc' (Operations doc') (initial_info doc' query) = Some info"
  then have "doc' = doc" using assms(2) by simp
  with analyse_operations_worst_case [OF *] assms(3-5) show ?thesis
    by (blast dest: analyse_operation_complete)
qed

theorem parseGraphQL_paths_complete_witness:
  "path_of '''' [''user'', ''name''] \<in> set (FieldPaths (demo_info ''m''))"
proof (rule parseGraphQL_paths_complete [OF demo_parse refl, where op = demo_operation])
  show "demo_operation \<in> set (Operations demo_document)" by (simp add: demo_document_def)
  show "spreads (op_SelectionSet demo_operation) = {}" by (simp add: demo_operation_def)
  show "selects (find_fragment (Fragments demo_document)) (op_SelectionSet demo_operation) [''user'', ''name'']"
    using sel_sub [OF sel_field [of _ "''name''" "''''"], of _ "''user''" "''''"]
    by (simp add: demo_operation_def response_name_def)
qed

text \<open>
  C21: the reported depth is the number of segments of the longest recorded path, over all
  operations of the document, when the response names are GraphQL names (not empty, no dot).
\<close>

theorem parseGraphQL_depth:
  assumes "parseGraphQL ParseQuery ForName query = Some (Inr info)"
    and "ParseQuery query = Some doc"
    and "\<And>n f. ForName (Fragments doc) n = Some f \<Longrightarrow> plain_names (frag_SelectionSet f)"
    and "\<And>op. op \<in> set (Operations doc) \<Longrightarrow> plain_names (op_SelectionSet op)"
  shows "Depth info = path_depth (FieldPaths info)"
  using assms(1)
proof (rule parseGraphQL_Inr)
  fix doc'
  assume "ParseQuery query = Some doc'"
    and *: "analyse_operations (ForName (Fragments doc')) doc' (Operations doc') (initial_info doc' query) = Some info"
  then have "doc' = doc" using assms(2) by simp
  from analyse_operations_depth [OF assms(3) *[unfolded this]] assms(4) show ?thesis by simp
qed

theorem parseGraphQL_depth_witness:
  "Depth (demo_info ''m'') = path_depth [''user'', ''user.name'', ''user.p'']"
proof -
  have "Depth (demo_info ''m'') = path_depth (FieldPaths (demo_info ''m''))"
    by (rule parseGraphQL_depth [OF demo_parse refl])
      (auto simp: demo_document_def demo_operation_def find_fragment_def plain_name_def response_name_def)
  then show ?thesis by (simp add: demo_info_def)
qed

text \<open>
  C22: a document with several operations is judged by its worst operation in every metric: depth, field count,
  directives, argument depth, lists requested, fragment spreads, variables, operation directives and inline fragment types
  are each the maximum over the operations analysed one by one, default variables are reported if one of them has
  any, and the paths are those of all operations in order. At most as many fields are counted as paths
  recorded; the batch size is the number of operations and the query hash has 16 hexadecimal digits.
\<close>

theorem parseGraphQL_worst_case:
  assumes "parseGraphQL ParseQuery ForName query = Some (Inr info)" and "ParseQuery query = Some doc"
  shows "\<exists>curs. list_all2 (\<lambda>op cur. analyse_operation (ForName (Fragments doc)) doc op = Some cur) (Operations doc) curs \<and>
    Depth info = Max (Depth ` set curs) \<and> FieldCount info = Max (FieldCount ` set curs) \<and>
    Directives info = Max (Directives ` set curs) \<and> ArgumentDepth info = Max (ArgumentDepth ` set curs) \<and>
    ListsRequested info = Max (ListsRequested ` set curs) \<and> FragmentSpreadCount info = Max (FragmentSpreadCount ` set curs) \<and>
    VariableCount info = Max (VariableCount ` set curs) \<and> OperationDirectives info = Max (OperationDirectives ` set curs) \<and>
    InlineFragmentTypesCount info = Max (InlineFragmentTypesCount ` set curs) \<and>
    (HasDefaultVariables info \<longleftrightarrow> (\<exists>cur \<in> set curs. HasDefaultVariables cur)) \<and>
    FieldPaths info = concat (map FieldPaths curs) \<and> FieldCount info \<le> length (FieldPaths info) \<and>
    BatchSize info = length (Operations doc) \<and> length (QueryHash info) = 16"
  using assms(1)
proof (rule parseGraphQL_Inr)
  fix doc'
  assume "ParseQuery query = Some doc'" and ops: "Operations doc' \<noteq> []"
    and *: "analyse_operations (ForName (Fragments doc')) doc' (Operations doc') (initial_info doc' query) = Some info"
  then have doc: "doc' = doc" using assms(2) by simp
  from analyse_operations_fold [OF *] obtain curs where
    curs: "list_all2 (\<lambda>op cur. analyse_operation (ForName (Fragments doc)) doc op = Some cur) (Operations doc) curs"
    and info: "info = fold (\<lambda>cur info. aggregate info cur) curs (initial_info doc query)" unfolding doc by blast
  have ne: "curs \<noteq> []" using curs ops doc by auto
  note m = fold_aggregate_max [OF _ ne, of _ "initial_info doc query", folded info]
  have "Depth info = Max (Depth ` set curs)" "FieldCount info = Max (FieldCount ` set curs)"
    "Directives info = Max (Directives ` set curs)" "ArgumentDepth info = Max (ArgumentDepth ` set curs)"
    "ListsRequested info = Max (ListsRequested ` set curs)" "FragmentSpreadCount info = Max (FragmentSpreadCount ` set curs)"
    "VariableCount info = Max (VariableCount ` set curs)" "OperationDirectives info = Max (OperationDirectives ` set curs)"
    "InlineFragmentTypesCount info = Max (InlineFragmentTypesCount ` set curs)"
    by (rule m; simp add: aggregate_def initial_info_def zero_QueryInfo_def)+
  moreover have "FieldPaths info = concat (map FieldPaths curs)"
    "HasDefaultVariables info \<longleftrightarrow> (\<exists>cur \<in> set curs. HasDefaultVariables cur)"
    by (simp_all add: info fold_aggregate_paths fold_aggregate_defaults initial_info_def zero_QueryInfo_def)
  moreover have "FieldCount info \<le> length (FieldPaths info)" "BatchSize info = length (Operations doc)" "length (QueryHash info) = 16"
    using analyse_operations_frame [OF *] analyse_operations_count [OF *] by (auto simp: doc length_fmt_x_bytes length_Sum256)
  ultimately show ?thesis using curs by blast
qed

definition two_operations :: query_document where
  "two_operations =
     (let op = (\<lambda>n sels. \<lparr>op_Operation = ast_Query, op_Name = n, op_VariableDefinitions = [], op_Directives = [], op_SelectionSet = sels\<rparr>)
      in \<lparr>Operations = [op ''A'' [Field ''user'' '''' [] [] [Field ''name'' '''' [] [] []]],
           op ''B'' [Field ''a'' '''' [] [] [], Field ''b'' '''' [''skip''] [] [], Field ''c'' '''' [] [] []]],
          Fragments = []\<rparr>)"

theorem parseGraphQL_worst_case_witness:
  "\<exists>info. parseGraphQL (\<lambda>_. Some two_operations) find_fragment ''q'' = Some (Inr info) \<and>
     Depth info = 2 \<and> FieldCount info = 3 \<and> Directives info = 1 \<and> FieldCount info \<le> length (FieldPaths info)"
proof -
  obtain info where p: "parseGraphQL (\<lambda>_. Some two_operations) find_fragment ''q'' = Some (Inr info)"
    and i: "Depth info = 2" "FieldCount info = 3" "Directives info = 1"
    by (simp add: parseGraphQL_def two_operations_def analyse_operation_def Let_def
      operation_type_name_def response_name_def join_path_def record_field_def looks_plural_def
      aggregate_def initial_info_def zero_QueryInfo_def)
  from parseGraphQL_worst_case [OF p refl] have "FieldCount info \<le> length (FieldPaths info)" by blast
  with p i show ?thesis by blast
qed

text \<open>
  The operation type reported for a document is that of its first operation, whatever the
  other operations are.
\<close>

theorem parseGraphQL_type_of_first:
  assumes "parseGraphQL ParseQuery ForName query = Some (Inr info)"
    and "ParseQuery query = Some doc"
  shows "OperationType info = operation_type_name (op_Operation (hd (Operations doc)))"
  using assms(1)
  by (rule parseGraphQL_Inr) (use assms(2) in \<open>auto dest: analyse_operations_type\<close>)

theorem parseGraphQL_type_of_first_witness: "OperationType (demo_info ''m'') = ''mutation''"
  using parseGraphQL_type_of_first [OF demo_parse refl]
  by (simp add: demo_document_def demo_operation_def operation_type_name_def)

text \<open>
  The query is refused exactly when it is empty, does not parse, has no operation, or has
  several operations of which one is unnamed; each refusal has its own error.
\<close>

theorem parseGraphQL_errors:
  assumes "lookup_in_list ForName"
  shows "parseGraphQL ParseQuery ForName query = Some (Inl e) \<longleftrightarrow>
    (case e of
       EmptyQuery \<Rightarrow> query = ''''
     | ParsingQuery \<Rightarrow> query \<noteq> '''' \<and> ParseQuery query = None
     | NoOperations \<Rightarrow> query \<noteq> '''' \<and> (\<exists>doc. ParseQuery query = Some doc \<and> Operations doc = [])
     | UnnamedOperation \<Rightarrow> query \<noteq> '''' \<and>
         (\<exists>doc. ParseQuery query = Some doc \<and> 1 < length (Operations doc) \<and>
            (\<exists>op \<in> set (Operations doc). op_Name op = '''')))"
  by (cases e) (auto simp: parseGraphQL_def list_ex_iff split: option.splits if_splits)

theorem parseGraphQL_errors_witness:
  "parseGraphQL (\<lambda>_. None) find_fragment '''' = Some (Inl EmptyQuery)"
  using parseGraphQL_errors [OF lookup_in_list_find, of "\<lambda>_. None" "''''" EmptyQuery] by simp

text \<open>
  The argument depth of a value is the starting depth plus its deepest nesting, through list
  and object children and through the default value of a variable.
\<close>

theorem measureValueDepth_nesting:
  "(\<exists>n. nests v n \<and> measureValueDepth (Some v) depth = depth + n) \<and>
   (\<forall>n. nests v n \<longrightarrow> depth + n \<le> measureValueDepth (Some v) depth)"
  using measure_attained(1) measure_upper(1) by blast

theorem measureValueDepth_nesting_witness:
  "1 + 2 \<le> measureValueDepth (Some (Value [None, Some (Value [Some (Value [] None)] None)] None)) 1"
proof -
  have "nests (Value [None, Some (Value [Some (Value [] None)] None)] None) (Suc (Suc 0))"
    by (auto intro!: nests.intros)
  then show ?thesis using measureValueDepth_nesting by fastforce
qed

text \<open>
  A fragment is walked only where it is spread first, so repeated spreads hide depth and
  fields: for every \<open>k\<close> there is a document of \<open>k + 1\<close> fragments in which the query selects a
  field \<open>k + 1\<close> levels down while the reported depth is 1 and the field count \<open>k + 1\<close>.
\<close>

theorem repeated_spreads_hide_depth:
  assumes "\<And>i. i \<le> k \<Longrightarrow> ForName (Fragments doc) (laugh_name i) = Some (laugh_fragment i)"
    and "Operations doc = [op]" and "op_SelectionSet op = [FragmentSpread (laugh_name k) []]"
    and "ParseQuery query = Some doc" and "query \<noteq> ''''"
  shows "\<exists>info. parseGraphQL ParseQuery ForName query = Some (Inr info) \<and>
    Depth info = 1 \<and> FieldCount info = k + 1 \<and>
    (\<exists>ns. selects (ForName (Fragments doc)) (op_SelectionSet op) ns \<and> length ns = k + 1)"
proof -
  let ?f = "ForName (Fragments doc)"
  have sel: "selects ?f (op_SelectionSet op) (replicate k ''a'' @ [''x''])"
    unfolding assms(3) using laugh_selects [of k ?f] assms(1)
    by (intro sel_spread [of _ _ "laugh_fragment k"]) (auto simp: laugh_fragment_def)
  have "\<exists>cur. analyse_operation ?f doc op = Some cur \<and> Depth cur = 1 \<and> FieldCount cur = k + 1"
    using laugh_walks [of k ?f "{laugh_name k}" "''''" 0] assms(1) [of k] assms(1)
    by (fastforce simp: analyse_operation_def assms(3) laugh_fragment_def record_spread_def zero_QueryInfo_def)
  then have "\<exists>info. parseGraphQL ParseQuery ForName query = Some (Inr info) \<and>
      Depth info = 1 \<and> FieldCount info = k + 1"
    using assms(2,4,5) by (auto simp: parseGraphQL_def)
  with sel show ?thesis by (metis length_append_singleton length_replicate Suc_eq_plus1)
qed

definition laugh_document :: query_document where
  "laugh_document =
     \<lparr>Operations = [\<lparr>op_Operation = ast_Query, op_Name = '''', op_VariableDefinitions = [],
                     op_Directives = [], op_SelectionSet = [FragmentSpread (laugh_name 2) []]\<rparr>],
      Fragments = [laugh_fragment 0, laugh_fragment 1, laugh_fragment 2]\<rparr>"

theorem repeated_spreads_hide_depth_witness:
  "\<exists>info. parseGraphQL (\<lambda>_. Some laugh_document) find_fragment ''q'' = Some (Inr info) \<and>
    Depth info = 1 \<and> FieldCount info = 3 \<and>
    (\<exists>ns. selects (find_fragment (Fragments laugh_document)) [FragmentSpread (laugh_name 2) []] ns \<and> length ns = 3)"
proof -
  have "find_fragment (Fragments laugh_document) (laugh_name i) = Some (laugh_fragment i)" if "i \<le> 2" for i
  proof -
    from that consider "i = 0" | "i = 1" | "i = 2" by linarith
    then show ?thesis
      by cases (auto simp: find_fragment_def laugh_document_def laugh_fragment_def)
  qed
  from repeated_spreads_hide_depth [where k = 2 and doc = laugh_document and ForName = find_fragment
      and ParseQuery = "\<lambda>_. Some laugh_document" and query = "''q''", OF this]
  show ?thesis by (simp add: laugh_document_def)
qed


text \<open>
  An alias hides the field behind it: replacing the name of every aliased field, in the
  selection set and in all fragments, by any other name leaves the whole result of the walk as it
  is, paths and counters.
\<close>

theorem alias_hides_field_name:
  assumes "walkSelections forName sels prefix depth info visited = Some r"
  shows "walkSelections (\<lambda>n. map_option (mask_fragment m) (forName n)) (mask_names m sels)
           prefix depth info visited = Some r"
  using walks_mask [OF walkSelections_walks [OF assms]] by (simp add: walkSelections_iff_walks [symmetric])

theorem alias_hides_field_name_witness:
  "walkSelections (\<lambda>n. None) [Field ''ssn'' ''name'' [] [] []] '''' 0 zero_QueryInfo {} =
   walkSelections (\<lambda>n. None) [Field ''name'' ''name'' [] [] []] '''' 0 zero_QueryInfo {}"
proof -
  have "walkSelections (\<lambda>n. None) [Field ''name'' ''name'' [] [] []] '''' 0 zero_QueryInfo {} =
      Some (record_field ''name'' ''name'' [] [] 1 zero_QueryInfo, {})"
    by (simp add: response_name_def join_path_def)
  from this alias_hides_field_name [OF this, of "''ssn''"] show ?thesis by simp
qed

text \<open>
  Named fragments are walked only once, so paths below a repeated spread are not recorded; but no
  response name goes unrecorded.
\<close>

fun field_names :: "selection list \<Rightarrow> string set" where
  "field_names [] = {}"
| "field_names (Field n al ds as ss # rest) = insert (response_name n al) (field_names ss \<union> field_names rest)"
| "field_names (InlineFragment tc ds ss # rest) = field_names ss \<union> field_names rest"
| "field_names (FragmentSpread n ds # rest) = field_names rest"

definition records_name :: "string list \<Rightarrow> string \<Rightarrow> bool" where
  "records_name paths x \<longleftrightarrow> (\<exists>prefix. join_path prefix x \<in> set paths)"

definition covered :: "fragment_lookup \<Rightarrow> QueryInfo \<Rightarrow> string set \<Rightarrow> string \<Rightarrow> bool" where
  "covered forName info visited n \<longleftrightarrow>
     (\<forall>f. forName n = Some f \<longrightarrow> spreads (frag_SelectionSet f) \<subseteq> visited \<and>
        (\<forall>x \<in> field_names (frag_SelectionSet f). records_name (FieldPaths info) x))"

lemma records_name_mono: "set ps \<subseteq> set qs \<Longrightarrow> records_name ps x \<Longrightarrow> records_name qs x"
  by (auto simp: records_name_def)

lemma covered_mono:
  "covered forName info V n \<Longrightarrow> set (FieldPaths info) \<subseteq> set (FieldPaths info') \<Longrightarrow> V \<subseteq> V' \<Longrightarrow> covered forName info' V' n"
  unfolding covered_def using records_name_mono by blast

definition visits :: "fragment_lookup \<Rightarrow> selection list \<Rightarrow> string set \<Rightarrow> QueryInfo \<Rightarrow> string set \<Rightarrow> bool" where
  "visits forName sels visited info' visited' \<longleftrightarrow>
     (\<forall>x \<in> field_names sels. records_name (FieldPaths info') x) \<and> spreads sels \<subseteq> visited' \<and>
     (\<forall>n \<in> visited' - visited. covered forName info' visited' n)"

lemma visits_then:
  assumes "visits forName ss V info1 V1" and w: "walks forName rest prefix depth info1 V1 info2 V2"
    and "visits forName rest V1 info2 V2"
  shows "(\<forall>x \<in> field_names ss \<union> field_names rest. records_name (FieldPaths info2) x) \<and>
    spreads ss \<union> spreads rest \<subseteq> V2 \<and> (\<forall>n \<in> V2 - V. covered forName info2 V2 n)"
  using assms(1,3) records_name_mono [OF walks_paths_mono [OF w]] walks_visited_mono [OF w]
    covered_mono [OF _ walks_paths_mono [OF w] walks_visited_mono [OF w]]
  unfolding visits_def by blast

lemma walks_names:
  "walks forName sels prefix depth info visited info' visited' \<Longrightarrow> visits forName sels visited info' visited'"
proof (induction rule: walks.induct)
  case (walks_Field ss prefix n al depth ds args info visited info1 visited1 rest info2 visited2)
  have "records_name (FieldPaths info2) (response_name n al)"
    using walks_paths_mono [OF walks_Field.hyps(1)] walks_paths_mono [OF walks_Field.hyps(2)]
    by (auto simp: records_name_def)
  with visits_then [OF walks_Field.IH(1) walks_Field.hyps(2) walks_Field.IH(2)] show ?case
    by (simp add: visits_def)
next
  case (walks_Inline ss prefix depth tc ds info visited info1 visited1 rest info2 visited2)
  from visits_then [OF walks_Inline.IH(1) walks_Inline.hyps(2) walks_Inline.IH(2)] show ?case
    by (simp add: visits_def)
next
  case (walks_Seen n visited rest prefix depth ds info info2 visited2)
  then show ?case using walks_visited_mono [OF walks_Seen.hyps(2)] by (auto simp: visits_def)
next
  case (walks_Unknown n visited rest prefix depth ds info info2 visited2)
  have "covered forName info2 visited2 n" using walks_Unknown.hyps(2) by (simp add: covered_def)
  with walks_Unknown.IH show ?case
    using walks_visited_mono [OF walks_Unknown.hyps(3)] by (auto simp: visits_def)
next
  case (walks_Spread n visited f prefix depth ds info info1 visited1 rest info2 visited2)
  note both = visits_then [OF walks_Spread.IH(1) walks_Spread.hyps(4) walks_Spread.IH(2)]
  then have "covered forName info2 visited2 n" using walks_Spread.hyps(2) by (auto simp: covered_def)
  moreover have "n \<in> visited2"
    using walks_visited_mono [OF walks_Spread.hyps(3)] walks_visited_mono [OF walks_Spread.hyps(4)] by blast
  ultimately show ?case using both unfolding visits_def by auto
qed (simp add: visits_def)

lemma selects_names:
  assumes "selects forName sels ns" and closed: "\<And>n. n \<in> V \<Longrightarrow> covered forName info V n"
  shows "spreads sels \<subseteq> V \<Longrightarrow> \<forall>x \<in> field_names sels. records_name (FieldPaths info) x \<Longrightarrow>
    x \<in> set ns \<Longrightarrow> records_name (FieldPaths info) x"
  using assms(1)
proof (induction arbitrary: x)
  case (sel_spread n f p ds rest)
  then have "covered forName info V n" using closed by simp
  with sel_spread show ?case by (auto simp: covered_def)
next
  case (sel_rest rest p s)
  then show ?case by (cases s) auto
qed auto

lemma analyse_operation_names:
  assumes "analyse_operation forName doc op = Some cur" and "selects forName (op_SelectionSet op) ns" and "x \<in> set ns"
  shows "records_name (FieldPaths cur) x"
  using assms(1)
proof (rule analyse_operation_walks)
  fix info0 info' visited'
  assume w: "walks forName (op_SelectionSet op) '''' 0 info0 {} info' visited'" and "FieldPaths cur = FieldPaths info'"
  with walks_names [OF w, unfolded visits_def] selects_names [OF assms(2), of visited' info'] assms(3) show ?thesis by simp
qed

lemma parseGraphQL_records_names:
  assumes "parseGraphQL ParseQuery ForName query = Some (Inr info)"
    and "ParseQuery query = Some doc" and "op \<in> set (Operations doc)"
    and "selects (ForName (Fragments doc)) (op_SelectionSet op) ns" and "x \<in> set ns"
  shows "\<exists>prefix. join_path prefix x \<in> set (FieldPaths info)"
  using assms(1)
proof (rule parseGraphQL_Inr)
  fix doc'
  assume "ParseQuery query = Some doc'"
    and *: "analyse_operations (ForName (Fragments doc')) doc' (Operations doc') (initial_info doc' query) = Some info"
  then have "doc' = doc" using assms(2) by simp
  with analyse_operations_worst_case [OF *] assms(3) obtain cur where
    cur: "analyse_operation (ForName (Fragments doc)) doc op = Some cur" "set (FieldPaths cur) \<subseteq> set (FieldPaths info)"
    by blast
  have "records_name (FieldPaths info) x"
    using records_name_mono [OF cur(2)] analyse_operation_names [OF cur(1) assms(4,5)] by blast
  then show ?thesis by (simp add: records_name_def)
qed

text \<open>
  C13: no field goes unrecorded, however the query is written: every response name on the way to a
  field that an operation selects, directly or through any chain of fragments, circular or repeated
  ones included, is the last segment of a recorded path. A policy that forbids response names cannot be evaded
  with fragments (an alias, though, is the response name of its field).
\<close>

theorem parseGraphQL_names_complete:
  assumes "parseGraphQL ParseQuery ForName query = Some (Inr info)"
    and "ParseQuery query = Some doc" and "op \<in> set (Operations doc)"
    and "selects (ForName (Fragments doc)) (op_SelectionSet op) ns" and "x \<in> set ns"
  shows "\<exists>prefix. join_path prefix x \<in> set (FieldPaths info)"
  by (rule parseGraphQL_records_names [OF assms])

lemma circular_parse:
  "\<exists>info. parseGraphQL (\<lambda>_. Some circular_document) find_fragment ''{...A}'' = Some (Inr info) \<and> FieldPaths info = [''x'']"
  by (simp add: parseGraphQL_def circular_document_def analyse_operation_def find_fragment_def
      response_name_def join_path_def record_field_def record_spread_def initial_info_def zero_QueryInfo_def aggregate_def)

theorem parseGraphQL_names_complete_witness:
  "\<exists>info prefix. parseGraphQL (\<lambda>_. Some circular_document) find_fragment ''{...A}'' = Some (Inr info) \<and>
     join_path prefix ''x'' \<in> set (FieldPaths info)"
proof -
  obtain info where p: "parseGraphQL (\<lambda>_. Some circular_document) find_fragment ''{...A}'' = Some (Inr info)"
    using circular_parse by blast
  let ?frag = "\<lparr>frag_Name = ''A'', frag_Directives = [], frag_SelectionSet = [Field ''x'' '''' [] [] [FragmentSpread ''A'' []]]\<rparr>"
  have a: "find_fragment (Fragments circular_document) ''A'' = Some ?frag" by (simp add: circular_document_def find_fragment_def)
  have "selects (find_fragment (Fragments circular_document)) [Field ''x'' '''' [] [] [FragmentSpread ''A'' []]] [''x'']"
    using sel_field [of _ "''x''" "''''"] by (simp add: response_name_def)
  with a have in_A: "selects (find_fragment (Fragments circular_document)) [FragmentSpread ''A'' []] [''x'']"
    by (auto intro: sel_spread)
  then have "selects (find_fragment (Fragments circular_document)) [Field ''x'' '''' [] [] [FragmentSpread ''A'' []]] [''x'', ''x'']"
    using sel_sub [OF in_A, of "''x''" "''''"] by (simp add: response_name_def)
  with a have "selects (find_fragment (Fragments circular_document)) [FragmentSpread ''A'' []] [''x'', ''x'']"
    by (auto intro: sel_spread)
  then have "selects (find_fragment (Fragments circular_document)) (op_SelectionSet (hd (Operations circular_document))) [''x'', ''x'']"
    by (simp add: circular_document_def)
  moreover have "hd (Operations circular_document) \<in> set (Operations circular_document)" by (simp add: circular_document_def)
  ultimately show ?thesis using parseGraphQL_names_complete [OF p refl] p by fastforce
qed

end
