(* ===== verification/Data_Store.thy ===== *)
theory Data_Store
  imports Go_Json "HOL-Library.Multiset"
begin

text \<open>
  \<open>internal/opa/store.go\<close>: the parameters and tenant configurations that the evaluator injects
  into the policy input. Every method runs under the store's lock, so it is one atomic step on the
  state. The maps handed to \<open>SetParams\<close> and \<open>SetTenant\<close> are stored by reference, but no code
  writes to such a map afterwards, so they are values here; a nil map is \<open>None\<close>.

  The locale \<open>keyed_store\<close> is the contract of a store with keys: what a lookup returns after
  each operation. What a whole history of operations leaves behind is proved once inside it.
\<close>

section \<open>The store\<close>

record DataStore =
  params :: "params option"
  tenants :: "(string, params option) go_map"

definition NewDataStore :: DataStore where
  "NewDataStore = \<lparr>params = Some [], tenants = []\<rparr>"

definition SetParams :: "params option \<Rightarrow> DataStore \<Rightarrow> DataStore" where
  "SetParams ps s = s\<lparr>params := ps\<rparr>"

text \<open>The copying loop; ranging over a nil map does nothing.\<close>

fun copy_loop :: "params \<Rightarrow> params \<Rightarrow> params" where
  "copy_loop [] cp = cp"
| "copy_loop ((k, v) # m) cp = copy_loop m (AList.update k v cp)"

definition GetParams :: "DataStore \<Rightarrow> params" where
  "GetParams s = (case params s of None \<Rightarrow> [] | Some m \<Rightarrow> copy_loop m [])"

definition SetTenant :: "string \<Rightarrow> params option \<Rightarrow> DataStore \<Rightarrow> DataStore" where
  "SetTenant tenantID cfg s = s\<lparr>tenants := AList.update tenantID cfg (tenants s)\<rparr>"

definition DeleteTenant :: "string \<Rightarrow> DataStore \<Rightarrow> DataStore" where
  "DeleteTenant tenantID s = s\<lparr>tenants := AList.delete tenantID (tenants s)\<rparr>"

definition GetTenant :: "DataStore \<Rightarrow> string \<Rightarrow> params option" where
  "GetTenant s tenantID = (case map_of (tenants s) tenantID of None \<Rightarrow> None | Some cfg \<Rightarrow> cfg)"

text \<open>The order in which Go ranges over a map is not determined; \<open>order\<close> is the choice made.\<close>

definition ListTenants :: "(string list \<Rightarrow> string list) \<Rightarrow> DataStore \<Rightarrow> string list" where
  "ListTenants order s = order (map fst (tenants s))"

definition CountTenants :: "DataStore \<Rightarrow> nat" where
  "CountTenants s = length (tenants s)"

text \<open>The result says whether there was an error.\<close>

definition LoadParamsFromJSON :: "string \<Rightarrow> DataStore \<Rightarrow> bool \<times> DataStore" where
  "LoadParamsFromJSON data s =
     (case unmarshal_map data of
        None \<Rightarrow> (True, s)
      | Some ps \<Rightarrow> (False, SetParams ps s))"

section \<open>The contract of a keyed store\<close>

datatype ('k, 'v) store_op = Put 'k 'v | Del 'k

fun last_write :: "('k, 'v) store_op list \<Rightarrow> 'k \<Rightarrow> 'v option option" where
  "last_write [] k = None"
| "last_write (op # ops) k =
     (case last_write ops k of
        Some w \<Rightarrow> Some w
      | None \<Rightarrow> (case op of Put k' v \<Rightarrow> if k' = k then Some (Some v) else None
                        | Del k' \<Rightarrow> if k' = k then Some None else None))"

fun run_ops :: "('k \<Rightarrow> 'v \<Rightarrow> 's \<Rightarrow> 's) \<Rightarrow> ('k \<Rightarrow> 's \<Rightarrow> 's) \<Rightarrow> ('k, 'v) store_op list \<Rightarrow> 's \<Rightarrow> 's" where
  "run_ops put del [] s = s"
| "run_ops put del (Put k v # ops) s = run_ops put del ops (put k v s)"
| "run_ops put del (Del k # ops) s = run_ops put del ops (del k s)"

locale keyed_store =
  fixes get :: "'s \<Rightarrow> 'k \<Rightarrow> 'v"
    and put :: "'k \<Rightarrow> 'v \<Rightarrow> 's \<Rightarrow> 's"
    and del :: "'k \<Rightarrow> 's \<Rightarrow> 's"
    and keys :: "'s \<Rightarrow> 'k set"
    and absent :: 'v
    and ok :: "'s \<Rightarrow> bool"
  assumes get_put: "ok s \<Longrightarrow> get (put k v s) k' = (if k' = k then v else get s k')"
    and get_del: "ok s \<Longrightarrow> get (del k s) k' = (if k' = k then absent else get s k')"
    and keys_put: "ok s \<Longrightarrow> keys (put k v s) = insert k (keys s)"
    and keys_del: "ok s \<Longrightarrow> keys (del k s) = keys s - {k}"
    and ok_put: "ok s \<Longrightarrow> ok (put k v s)"
    and ok_del: "ok s \<Longrightarrow> ok (del k s)"
begin

lemma run_ok: "ok s \<Longrightarrow> ok (run_ops put del ops s)"
proof (induction ops arbitrary: s)
  case (Cons op ops)
  then show ?case by (cases op) (auto simp: ok_put ok_del)
qed simp

text \<open>A lookup after any history sees the last operation on its key, or the initial state.\<close>

lemma get_run:
  "ok s \<Longrightarrow> get (run_ops put del ops s) k =
     (case last_write ops k of None \<Rightarrow> get s k | Some None \<Rightarrow> absent | Some (Some v) \<Rightarrow> v)"
proof (induction ops arbitrary: s)
  case (Cons op ops)
  then show ?case by (cases op) (auto simp: get_put get_del ok_put ok_del split: option.split)
qed simp

lemma keys_run:
  "ok s \<Longrightarrow> k \<in> keys (run_ops put del ops s) \<longleftrightarrow>
     (case last_write ops k of None \<Rightarrow> k \<in> keys s | Some w \<Rightarrow> w \<noteq> None)"
proof (induction ops arbitrary: s)
  case (Cons op ops)
  then show ?case by (cases op) (auto simp: keys_put keys_del ok_put ok_del split: option.split)
qed simp

text \<open>Writes to different keys may be reordered.\<close>

lemma put_commute:
  "ok s \<Longrightarrow> k \<noteq> k' \<Longrightarrow> get (put k v (put k' v' s)) = get (put k' v' (put k v s))"
  by (auto simp: fun_eq_iff get_put ok_put)

end

section \<open>The invariant and the tenants as a keyed store\<close>

definition wf_store :: "DataStore \<Rightarrow> bool" where
  "wf_store s \<longleftrightarrow> wf_map (tenants s) \<and> (case params s of None \<Rightarrow> True | Some m \<Rightarrow> wf_map m)"

lemmas store_defs = NewDataStore_def SetParams_def SetTenant_def DeleteTenant_def GetTenant_def
  CountTenants_def

lemma copy_loop_append: "distinct (map fst (cp @ m)) \<Longrightarrow> copy_loop m cp = cp @ m"
proof (induction m cp rule: copy_loop.induct)
  case (2 k v m cp)
  have "AList.update k v cp' = cp' @ [(k, v)]" if "k \<notin> fst ` set cp'" for cp'
    using that by (induction cp') auto
  with 2 show ?case by simp
qed simp

lemma GetParams_eq: "wf_store s \<Longrightarrow> GetParams s = (case params s of None \<Rightarrow> [] | Some m \<Rightarrow> m)"
  by (auto simp: GetParams_def wf_store_def wf_map_def copy_loop_append split: option.splits)

lemma wf_fold_update: "wf_map a \<Longrightarrow> wf_map (foldl (\<lambda>m (k, raw, v). AList.update k (f v) m) a ms)"
  by (induction ms arbitrary: a) auto

lemma json_to_map_wf: "json_to_map v = Some (Some m) \<Longrightarrow> wf_map m"
  by (cases v) (auto simp: json_to_map_def wf_fold_update split: if_splits)

lemma unmarshal_map_wf: "unmarshal_map s = Some (Some m) \<Longrightarrow> wf_map m"
  by (auto simp: unmarshal_map_def bind_eq_Some_conv dest: json_to_map_wf)

interpretation tenant_map: keyed_store GetTenant SetTenant DeleteTenant "\<lambda>s. dom (map_of (tenants s))" None wf_store
  by unfold_locales
    (auto simp: store_defs wf_store_def split: option.splits if_splits)

section \<open>Properties\<close>

lemma SetTenant_frame [frame_simps]: "params (SetTenant t c s) = params s"
  by (simp add: SetTenant_def)

lemma DeleteTenant_frame [frame_simps]: "params (DeleteTenant t s) = params s"
  by (simp add: DeleteTenant_def)

lemma run_ops_params: "params (run_ops SetTenant DeleteTenant ops s) = params s"
proof (induction ops arbitrary: s)
  case (Cons op ops)
  then show ?case by (cases op) (auto simp: frame_simps)
qed simp

lemma last_member: "map_of (foldl (\<lambda>m (k, raw, v). AList.update k (f v) m) a ms) k =
  (case map_of (rev ms) k of None \<Rightarrow> map_of a k | Some (raw, v) \<Rightarrow> Some (f v))"
  by (induction ms arbitrary: a) (auto simp: map_add_def split: option.splits)

text \<open>
  C34: whatever sequence of tenant updates and deletions runs, a tenant's configuration is the one
  of the last update since its last deletion (nil if it was deleted or never set), exactly the
  tenants whose last operation was an update are listed, each of them once and in whatever order
  the map is traversed, their number is what the store counts, and the global parameters are
  untouched.
\<close>

theorem tenant_history:
  assumes "wf_store s" and order: "\<And>ids. mset (order ids) = mset ids"
    and s': "s' = run_ops SetTenant DeleteTenant ops s"
  shows "GetTenant s' t =
      (case last_write ops t of None \<Rightarrow> GetTenant s t | Some None \<Rightarrow> None | Some (Some cfg) \<Rightarrow> cfg) \<and>
    (t \<in> set (ListTenants order s') \<longleftrightarrow>
      (case last_write ops t of None \<Rightarrow> t \<in> set (ListTenants order s) | Some w \<Rightarrow> w \<noteq> None)) \<and>
    distinct (ListTenants order s') \<and> CountTenants s' = length (ListTenants order s') \<and>
    GetParams s' = GetParams s"
proof (intro conjI)
  have listed: "set (ListTenants order r) = dom (map_of (tenants r))" for r
    using order [THEN mset_eq_setD] by (simp add: ListTenants_def dom_map_of_conv_image_fst)
  show "GetTenant s' t = (case last_write ops t of None \<Rightarrow> GetTenant s t | Some None \<Rightarrow> None | Some (Some cfg) \<Rightarrow> cfg)"
    unfolding s' using assms(1) by (rule tenant_map.get_run)
  show "t \<in> set (ListTenants order s') \<longleftrightarrow>
      (case last_write ops t of None \<Rightarrow> t \<in> set (ListTenants order s) | Some w \<Rightarrow> w \<noteq> None)"
    unfolding s' listed using assms(1) by (rule tenant_map.keys_run)
  have "wf_store s'" unfolding s' using assms(1) by (rule tenant_map.run_ok)
  then show "distinct (ListTenants order s')"
    using order [THEN mset_eq_imp_distinct_iff] by (simp add: ListTenants_def wf_store_def wf_map_def)
  show "CountTenants s' = length (ListTenants order s')"
    using order [THEN mset_eq_length] by (simp add: ListTenants_def CountTenants_def)
  show "GetParams s' = GetParams s"
    by (simp add: GetParams_def s' run_ops_params)
qed

theorem tenant_history_witness:
  "GetTenant (run_ops SetTenant DeleteTenant
      [Put ''a'' (Some []), Put ''b'' (Some [(''depth_limit'', GNum 3)]), Del ''a'', Put ''b'' None]
      NewDataStore) ''b'' = None \<and>
   ''a'' \<notin> set (ListTenants rev (run_ops SetTenant DeleteTenant
      [Put ''a'' (Some []), Put ''b'' (Some [(''depth_limit'', GNum 3)]), Del ''a'', Put ''b'' None]
      NewDataStore))"
  (is "GetTenant (run_ops _ _ ?ops _) _ = _ \<and> _")
proof -
  have wf: "wf_store NewDataStore" by (simp add: wf_store_def NewDataStore_def)
  show ?thesis
    using tenant_history [OF wf _ refl, of rev ?ops "''b''"] tenant_history [OF wf _ refl, of rev ?ops "''a''"]
    by (simp del: run_ops.simps)
qed

text \<open>
  Loading parameters from JSON: an object whose numbers fit is stored, and a lookup then gives
  for every key the value of its last occurrence; text that is no JSON value, has anything after
  the value, is neither object nor \<open>null\<close>, or has a number beyond \<open>float64\<close>, is an error and
  leaves the store as it was.
\<close>

theorem LoadParamsFromJSON_correct:
  assumes "wf_store s"
  shows "(\<forall>ms. json_whole data = Some (JObj ms) \<and> numbers_fit (JObj ms) \<longrightarrow>
       (\<exists>s'. LoadParamsFromJSON data s = (False, s') \<and> wf_store s' \<and> tenants s' = tenants s \<and>
         (\<forall>k. map_of (GetParams s') k = map_option (\<lambda>(raw, v). to_gval v) (map_of (rev ms) k)))) \<and>
    (\<forall>v. json_whole data = Some v \<and> v \<noteq> JNull \<and> ((\<nexists>ms. v = JObj ms) \<or> \<not> numbers_fit v) \<longrightarrow>
       LoadParamsFromJSON data s = (True, s)) \<and>
    (json_whole data = None \<longrightarrow> LoadParamsFromJSON data s = (True, s))"
proof (intro conjI allI impI)
  fix ms assume ms: "json_whole data = Some (JObj ms) \<and> numbers_fit (JObj ms)"
  let ?m = "foldl (\<lambda>m (k, raw, v). AList.update k (to_gval v) m) [] ms"
  have um: "unmarshal_map data = Some (Some ?m)"
    using ms by (simp add: unmarshal_map_def json_to_map_def)
  have wf: "wf_store (s\<lparr>params := Some ?m\<rparr>)"
    using assms by (auto simp: wf_store_def wf_fold_update split: option.splits)
  show "\<exists>s'. LoadParamsFromJSON data s = (False, s') \<and> wf_store s' \<and> tenants s' = tenants s \<and>
         (\<forall>k. map_of (GetParams s') k = map_option (\<lambda>(raw, v). to_gval v) (map_of (rev ms) k))"
    using wf by (intro exI [of _ "s\<lparr>params := Some ?m\<rparr>"])
      (auto simp: LoadParamsFromJSON_def um SetParams_def GetParams_eq last_member split: option.splits)
next
  fix v assume "json_whole data = Some v \<and> v \<noteq> JNull \<and> ((\<nexists>ms. v = JObj ms) \<or> \<not> numbers_fit v)"
  then show "LoadParamsFromJSON data s = (True, s)"
    by (cases v) (auto simp: LoadParamsFromJSON_def unmarshal_map_def json_to_map_def)
next
  assume "json_whole data = None"
  then show "LoadParamsFromJSON data s = (True, s)"
    by (simp add: LoadParamsFromJSON_def unmarshal_map_def)
qed

theorem LoadParamsFromJSON_correct_witness:
  "\<exists>s'. LoadParamsFromJSON ''{\"a\":true,\"a\":null}'' NewDataStore = (False, s') \<and>
     map_of (GetParams s') ''a'' = Some GNull"
proof -
  let ?ms = "[(''a'', ''true'', JBool True), (''a'', ''null'', JNull)]"
  have wf: "wf_store NewDataStore" by (simp add: wf_store_def NewDataStore_def)
  have "json_whole ''{\"a\":true,\"a\":null}'' = Some (JObj ?ms)" by code_simp
  with LoadParamsFromJSON_correct [OF wf, of "''{\"a\":true,\"a\":null}''"] show ?thesis by auto
qed

end
