(* ===== verification/Opa_Input.thy ===== *)
theory Opa_Input
  imports Data_Store Query_Ast
begin

text \<open>
  \<open>internal/opa/input.go\<close>: the document the policy sees. \<open>BuildInput\<close> copies the query
  analysis, decodes the request variables and adds the parameters and the configuration of the
  request's tenant. \<open>Input_json\<close> is the JSON object the struct tags turn it into, which is what
  both the sidecar call and the embedded evaluator hand to the policy: an \<open>omitempty\<close> member
  is left out when it has its zero value. The analysis starts from an empty slice of paths, never from
  nil (\<open>parse.go\<close>, \<open>FieldPaths: []string{}\<close>), so that \<open>field_paths\<close> is an array, possibly empty, and never null.
\<close>

record Input =
  in_OperationType :: string
  in_OperationName :: string
  in_Depth :: nat
  in_FieldCount :: nat
  in_FieldPaths :: "string list"
  in_TenantID :: string
  in_Directives :: nat
  in_BatchSize :: nat
  in_ArgumentDepth :: nat
  in_ListsRequested :: nat
  in_FragmentSpreadCount :: nat
  in_QueryHash :: string
  in_VariableCount :: nat
  in_HasDefaultVariables :: bool
  in_OperationDirectives :: nat
  in_InlineFragmentTypesCount :: nat
  in_FragmentCount :: nat
  in_RequestVariables :: "params option"
  in_RequirePersistedQueries :: bool
  in_FieldAllowlist :: "string list"
  in_Params :: "params option"
  in_TenantConfig :: "params option"

definition BuildInput :: "QueryInfo \<Rightarrow> DataStore option \<Rightarrow> Input" where
  "BuildInput info store =
     \<lparr>in_OperationType = OperationType info, in_OperationName = OperationName info,
      in_Depth = Depth info, in_FieldCount = FieldCount info, in_FieldPaths = FieldPaths info,
      in_TenantID = TenantID info, in_Directives = Directives info, in_BatchSize = BatchSize info,
      in_ArgumentDepth = ArgumentDepth info, in_ListsRequested = ListsRequested info,
      in_FragmentSpreadCount = FragmentSpreadCount info, in_QueryHash = QueryHash info,
      in_VariableCount = VariableCount info, in_HasDefaultVariables = HasDefaultVariables info,
      in_OperationDirectives = OperationDirectives info,
      in_InlineFragmentTypesCount = InlineFragmentTypesCount info, in_FragmentCount = FragmentCount info,
      in_RequestVariables =
        (if RequestVariables info \<noteq> []
         then (case unmarshal_map (RequestVariables info) of Some vars \<Rightarrow> vars | None \<Rightarrow> None)
         else None),
      in_RequirePersistedQueries = False, in_FieldAllowlist = [],
      in_Params = (case store of None \<Rightarrow> None | Some s \<Rightarrow> Some (GetParams s)),
      in_TenantConfig =
        (case store of None \<Rightarrow> None
         | Some s \<Rightarrow> if TenantID info \<noteq> [] then GetTenant s (TenantID info) else None)\<rparr>"

section \<open>As JSON\<close>

definition omit_str :: "string \<Rightarrow> string \<Rightarrow> params" where
  "omit_str k s = (if s = [] then [] else [(k, GStr s)])"

definition omit_int :: "string \<Rightarrow> nat \<Rightarrow> params" where
  "omit_int k n = (if n = 0 then [] else [(k, GNum (of_nat n))])"

definition omit_bool :: "string \<Rightarrow> bool \<Rightarrow> params" where
  "omit_bool k b = (if b then [(k, GBool True)] else [])"

definition omit_strs :: "string \<Rightarrow> string list \<Rightarrow> params" where
  "omit_strs k ss = (if ss = [] then [] else [(k, GArr (map GStr ss))])"

definition omit_map :: "string \<Rightarrow> params option \<Rightarrow> params" where
  "omit_map k m = (case m of None \<Rightarrow> [] | Some ps \<Rightarrow> if ps = [] then [] else [(k, GObj ps)])"

definition Input_members :: "Input \<Rightarrow> params" where
  "Input_members i =
     [(''operation_type'', GStr (in_OperationType i))] @ omit_str ''operation_name'' (in_OperationName i) @
     [(''depth'', GNum (of_nat (in_Depth i))), (''field_count'', GNum (of_nat (in_FieldCount i))),
      (''field_paths'', GArr (map GStr (in_FieldPaths i)))] @
     omit_str ''tenant_id'' (in_TenantID i) @ omit_int ''directives'' (in_Directives i) @
     omit_int ''batch_size'' (in_BatchSize i) @ omit_int ''argument_depth'' (in_ArgumentDepth i) @
     omit_int ''lists_requested'' (in_ListsRequested i) @
     omit_int ''fragment_spread_count'' (in_FragmentSpreadCount i) @
     omit_str ''query_hash'' (in_QueryHash i) @ omit_int ''variable_count'' (in_VariableCount i) @
     omit_bool ''has_default_variables'' (in_HasDefaultVariables i) @
     omit_int ''operation_directives'' (in_OperationDirectives i) @
     omit_int ''inline_fragment_types_count'' (in_InlineFragmentTypesCount i) @
     omit_int ''fragment_count'' (in_FragmentCount i) @
     omit_map ''request_variables'' (in_RequestVariables i) @
     omit_bool ''require_persisted_queries'' (in_RequirePersistedQueries i) @
     omit_strs ''field_allowlist'' (in_FieldAllowlist i) @ omit_map ''params'' (in_Params i) @
     omit_map ''tenant_config'' (in_TenantConfig i)"

definition Input_json :: "Input \<Rightarrow> gval" where
  "Input_json i = GObj (Input_members i)"

lemmas omit_defs = omit_str_def omit_int_def omit_bool_def omit_strs_def omit_map_def

section \<open>Properties\<close>

lemma map_of_append_single [simp]:
  "map_of (omit_str k s @ m) k' = (if k' = k \<and> s \<noteq> [] then Some (GStr s) else map_of m k')"
  "map_of (omit_int k n @ m) k' = (if k' = k \<and> n \<noteq> 0 then Some (GNum (of_nat n)) else map_of m k')"
  "map_of (omit_bool k b @ m) k' = (if k' = k \<and> b then Some (GBool True) else map_of m k')"
  "map_of (omit_strs k ss @ m) k' = (if k' = k \<and> ss \<noteq> [] then Some (GArr (map GStr ss)) else map_of m k')"
  "map_of (omit_map k ps @ m) k' =
     (if k' = k \<and> ps \<noteq> None \<and> ps \<noteq> Some [] then Some (GObj (the ps)) else map_of m k')"
  by (auto simp: omit_defs split: option.splits)

lemma map_of_omit_map [simp]:
  "map_of (omit_map k ps) k' =
     (if k' = k \<and> ps \<noteq> None \<and> ps \<noteq> Some [] then Some (GObj (the ps)) else None)"
  by (auto simp: omit_defs split: option.splits)

text \<open>
  C33: the policy sees the parameters of the store and the configuration of the request's own tenant
  only: whatever happens to the configurations of other tenants, the input of the request stays
  the same; a request without a tenant gets no tenant configuration at all.
\<close>

theorem BuildInput_tenant_isolation:
  assumes "wf_store s" and "last_write ops (TenantID info) = None"
  shows "BuildInput info (Some (run_ops SetTenant DeleteTenant ops s)) = BuildInput info (Some s) \<and>
    in_Params (BuildInput info (Some s)) = Some (case params s of None \<Rightarrow> [] | Some m \<Rightarrow> m) \<and>
    in_TenantConfig (BuildInput info (Some s)) =
      (if TenantID info = [] then None else GetTenant s (TenantID info))"
proof -
  have "GetTenant (run_ops SetTenant DeleteTenant ops s) (TenantID info) = GetTenant s (TenantID info)"
    using tenant_map.get_run [OF assms(1), of ops "TenantID info"] assms(2) by simp
  moreover have "GetParams (run_ops SetTenant DeleteTenant ops s) = GetParams s"
    by (simp add: GetParams_def run_ops_params)
  ultimately show ?thesis by (simp add: BuildInput_def GetParams_eq [OF assms(1)])
qed

definition tenant_info :: "string \<Rightarrow> QueryInfo" where
  "tenant_info t = zero_QueryInfo\<lparr>OperationType := ''query'', TenantID := t\<rparr>"

theorem BuildInput_tenant_isolation_witness:
  "BuildInput (tenant_info ''acme'')
     (Some (run_ops SetTenant DeleteTenant [Put ''other'' (Some []), Del ''other''] NewDataStore)) =
   BuildInput (tenant_info ''acme'') (Some NewDataStore)"
  using BuildInput_tenant_isolation
    [of NewDataStore "[Put ''other'' (Some []), Del ''other'']" "tenant_info ''acme''"]
  by (simp add: wf_store_def NewDataStore_def tenant_info_def)

text \<open>
  What the policy can tell apart: an empty operation name, an empty tenant, a zero count and
  an empty map of variables, parameters or tenant settings are not members of the JSON document
  at all, while type, depth, field count and paths always are; so no rule that compares
  \<open>input.operation_name\<close> with the empty string can ever apply.
\<close>

theorem Input_json_members:
  "map_of (Input_members i) ''operation_name'' =
     (if in_OperationName i = [] then None else Some (GStr (in_OperationName i))) \<and>
   map_of (Input_members i) ''operation_name'' \<noteq> Some (GStr []) \<and>
   map_of (Input_members i) ''operation_type'' = Some (GStr (in_OperationType i)) \<and>
   map_of (Input_members i) ''depth'' = Some (GNum (of_nat (in_Depth i))) \<and>
   map_of (Input_members i) ''field_count'' = Some (GNum (of_nat (in_FieldCount i))) \<and>
   map_of (Input_members i) ''field_paths'' = Some (GArr (map GStr (in_FieldPaths i))) \<and>
   map_of (Input_members i) ''tenant_id'' =
     (if in_TenantID i = [] then None else Some (GStr (in_TenantID i))) \<and>
   map_of (Input_members i) ''directives'' =
     (if in_Directives i = 0 then None else Some (GNum (of_nat (in_Directives i)))) \<and>
   map_of (Input_members i) ''params'' =
     (case in_Params i of None \<Rightarrow> None | Some ps \<Rightarrow> if ps = [] then None else Some (GObj ps)) \<and>
   map_of (Input_members i) ''tenant_config'' =
     (case in_TenantConfig i of None \<Rightarrow> None | Some ps \<Rightarrow> if ps = [] then None else Some (GObj ps))"
proof (intro conjI)
  show "map_of (Input_members i) ''params'' =
     (case in_Params i of None \<Rightarrow> None | Some ps \<Rightarrow> if ps = [] then None else Some (GObj ps))"
    by (cases "in_Params i") (simp_all add: Input_members_def del: map_of_append)
  show "map_of (Input_members i) ''tenant_config'' =
     (case in_TenantConfig i of None \<Rightarrow> None | Some ps \<Rightarrow> if ps = [] then None else Some (GObj ps))"
    by (cases "in_TenantConfig i") (simp_all add: Input_members_def del: map_of_append)
qed (simp_all add: Input_members_def del: map_of_append)

end
