(* ===== verification/Opa_Evaluators.thy ===== *)
theory Opa_Evaluators
  imports Opa_Input
begin

text \<open>
  The two implementations of \<open>opa.Evaluator\<close>: \<open>internal/opa/sidecar.go\<close>, which posts the input
  to an OPA server and reads the decision from the reply, and \<open>internal/opa/embed.go\<close>, which
  evaluates Rego in process. The HTTP client and the Rego engine are parameters: \<open>Post\<close> maps an
  endpoint and a JSON document to an error, to no response, or to a status and a body;
  \<open>Prepare\<close> compiles a policy for a query, and the prepared query maps an input to an error or
  to a result set (for each result the values of its expressions). Marshalling the input cannot
  fail: it consists of strings, numbers, booleans and values that came from JSON.

  The locale \<open>policy_evaluator\<close> is what a caller relies on: a returned result allows exactly what
  the policy grants. Both implementations interpret it.
\<close>

section \<open>Results and errors\<close>

record Result =
  Allowed :: bool
  Reason :: string

datatype opa_error =
    CallingOPA
  | NilResponse
  | OPAStatus nat
  | DecodingResponse
  | NotInitialized
  | EvaluationError

type_synonym http_post = "string \<Rightarrow> gval \<Rightarrow> (nat \<times> string) option option"
type_synonym prepared_query = "gval \<Rightarrow> gval list list option"
type_synonym rego_prepare = "string \<Rightarrow> string \<Rightarrow> prepared_query option"

section \<open>The sidecar client\<close>

record SidecarClient =
  endpoint :: string

definition NewSidecar :: "string \<Rightarrow> SidecarClient" where
  "NewSidecar e = \<lparr>endpoint = e\<rparr>"

definition sidecar_Configured :: "SidecarClient \<Rightarrow> bool" where
  "sidecar_Configured c \<longleftrightarrow> endpoint c \<noteq> []"

definition decode_result_member :: "string \<Rightarrow> string \<Rightarrow> json \<Rightarrow> Result \<Rightarrow> Result option" where
  "decode_result_member k raw v r =
     (if is_field ''allowed'' k then map_option (\<lambda>b. r\<lparr>Allowed := b\<rparr>) (decode_bool v (Allowed r))
      else if is_field ''reason'' k then map_option (\<lambda>s. r\<lparr>Reason := s\<rparr>) (decode_string v (Reason r))
      else Some r)"

definition decode_response_member :: "string \<Rightarrow> string \<Rightarrow> json \<Rightarrow> Result \<Rightarrow> Result option" where
  "decode_response_member k raw v r =
     (if is_field ''result'' k then decode_struct decode_result_member v r else Some r)"

definition decode_opaResp :: "string \<Rightarrow> Result option" where
  "decode_opaResp body =
     Option.bind (json_prefix body)
       (\<lambda>(v, rest). decode_struct decode_response_member v \<lparr>Allowed = False, Reason = []\<rparr>)"

definition sidecar_Evaluate :: "http_post \<Rightarrow> SidecarClient \<Rightarrow> Input \<Rightarrow> opa_error + Result" where
  "sidecar_Evaluate Post c input =
     (if endpoint c = [] then Inr \<lparr>Allowed = True, Reason = []\<rparr>
      else case Post (endpoint c) (GObj [(''input'', Input_json input)]) of
        None \<Rightarrow> Inl CallingOPA
      | Some None \<Rightarrow> Inl NilResponse
      | Some (Some (status, body)) \<Rightarrow>
          if status \<noteq> 200 then Inl (OPAStatus status)
          else (case decode_opaResp body of
                  None \<Rightarrow> Inl DecodingResponse
                | Some r \<Rightarrow> Inr \<lparr>Allowed = Allowed r, Reason = Reason r\<rparr>))"

section \<open>The embedded evaluator\<close>

text \<open>\<open>store\<close> is the address of the data store the evaluator shares with the admin API.\<close>

record EmbeddedEvaluator =
  prepared :: "prepared_query option"
  preparedDeny :: "prepared_query option"
  store :: nat
  policy :: string

record EmbedConfig =
  cfg_Policy :: string
  cfg_Store :: "nat option"

datatype embed_error = EmptyPolicy | CompilingPolicy

definition embed_compile :: "rego_prepare \<Rightarrow> EmbeddedEvaluator \<Rightarrow> EmbeddedEvaluator option" where
  "embed_compile Prepare e =
     (case Prepare ''data.graphql.allow'' (policy e) of
        None \<Rightarrow> None
      | Some q \<Rightarrow>
          (case Prepare ''data.graphql.deny'' (policy e) of
             None \<Rightarrow> None
           | Some d \<Rightarrow> Some (e\<lparr>prepared := Some q, preparedDeny := Some d\<rparr>)))"

text \<open>Without a store in the configuration a new one is allocated, at address \<open>fresh\<close>.\<close>

definition NewEmbedded ::
  "rego_prepare \<Rightarrow> nat \<Rightarrow> EmbedConfig \<Rightarrow> (nat \<Rightarrow> DataStore) \<Rightarrow> (embed_error + EmbeddedEvaluator) \<times> (nat \<Rightarrow> DataStore)"
  where
    "NewEmbedded Prepare fresh cfg heap =
       (if cfg_Policy cfg = [] then (Inl EmptyPolicy, heap)
        else
          let (addr, heap') = (case cfg_Store cfg of
                                 Some a \<Rightarrow> (a, heap)
                               | None \<Rightarrow> (fresh, heap(fresh := NewDataStore)));
              e = \<lparr>prepared = None, preparedDeny = None, store = addr, policy = cfg_Policy cfg\<rparr>
          in case embed_compile Prepare e of
               None \<Rightarrow> (Inl CompilingPolicy, heap')
             | Some e' \<Rightarrow> (Inr e', heap'))"

definition embedded_Configured :: "EmbeddedEvaluator \<Rightarrow> bool" where
  "embedded_Configured e = True"

definition first_expression :: "gval list list \<Rightarrow> gval option" where
  "first_expression rs = (case rs of (v # _) # _ \<Rightarrow> Some v | _ \<Rightarrow> None)"

definition first_denial :: "gval list list option \<Rightarrow> string" where
  "first_denial denyRs =
     (case denyRs of
        Some rs \<Rightarrow> (case first_expression rs of
                      Some (GArr (GStr reason # _)) \<Rightarrow> reason
                    | _ \<Rightarrow> ''blocked by OPA policy'')
      | None \<Rightarrow> ''blocked by OPA policy'')"

definition embedded_Evaluate :: "EmbeddedEvaluator \<Rightarrow> Input \<Rightarrow> opa_error + Result" where
  "embedded_Evaluate e input =
     (case (prepared e, preparedDeny e) of
        (Some allow, Some deny) \<Rightarrow>
          (case allow (Input_json input) of
             None \<Rightarrow> Inl EvaluationError
           | Some rs \<Rightarrow>
               (case first_expression rs of
                  None \<Rightarrow> Inr \<lparr>Allowed = False, Reason = ''OPA policy evaluation returned no result''\<rparr>
                | Some (GBool True) \<Rightarrow> Inr \<lparr>Allowed = True, Reason = []\<rparr>
                | Some (GBool False) \<Rightarrow>
                    Inr \<lparr>Allowed = False, Reason = first_denial (deny (Input_json input))\<rparr>
                | _ \<Rightarrow> Inr \<lparr>Allowed = False, Reason = ''OPA policy returned non-boolean result''\<rparr>))
      | _ \<Rightarrow> Inl NotInitialized)"

definition embedded_SetParams :: "params option \<Rightarrow> EmbeddedEvaluator \<Rightarrow> (nat \<Rightarrow> DataStore) \<Rightarrow> nat \<Rightarrow> DataStore" where
  "embedded_SetParams ps e heap = heap(store e := SetParams ps (heap (store e)))"

section \<open>The interface\<close>

text \<open>A value of the Go interface \<open>opa.Evaluator\<close> and the dispatch of its methods.\<close>

datatype opa_evaluator = Sidecar SidecarClient | Embedded EmbeddedEvaluator

fun opa_Evaluate :: "http_post \<Rightarrow> opa_evaluator \<Rightarrow> Input \<Rightarrow> opa_error + Result" where
  "opa_Evaluate Post (Sidecar c) input = sidecar_Evaluate Post c input"
| "opa_Evaluate Post (Embedded e) input = embedded_Evaluate e input"

fun opa_Configured :: "opa_evaluator \<Rightarrow> bool" where
  "opa_Configured (Sidecar c) = sidecar_Configured c"
| "opa_Configured (Embedded e) = embedded_Configured e"

locale policy_evaluator =
  fixes Evaluate :: "Input \<Rightarrow> opa_error + Result"
    and grants :: "Input \<Rightarrow> bool"
  assumes allowed_iff: "Evaluate i = Inr r \<Longrightarrow> Allowed r \<longleftrightarrow> grants i"
begin

definition enforced :: "bool \<Rightarrow> Input \<Rightarrow> bool" where
  "enforced failClosed i = (case Evaluate i of Inr r \<Rightarrow> Allowed r | Inl e \<Rightarrow> \<not> failClosed)"

text \<open>Fail-closed, only what the policy grants passes; fail-open, only a policy that answers can block.\<close>

lemma enforced_closed: "enforced True i \<Longrightarrow> grants i"
  by (auto simp: enforced_def allowed_iff split: sum.splits)

lemma enforced_open: "\<not> enforced False i \<Longrightarrow> \<not> grants i \<and> (\<exists>r. Evaluate i = Inr r)"
  by (auto simp: enforced_def allowed_iff split: sum.splits)

end

section \<open>What the sidecar's reply says\<close>

text \<open>A member of the reply, by the name of a field, whatever its case.\<close>

definition has_member :: "string \<Rightarrow> json \<Rightarrow> json \<Rightarrow> bool" where
  "has_member name v w \<longleftrightarrow> (\<exists>ms. v = JObj ms \<and> (\<exists>m \<in> set ms. is_field name (fst m) \<and> snd (snd m) = w))"

lemma is_field_names [simp]:
  "is_field ''allowed'' k \<Longrightarrow> \<not> is_field ''reason'' k"
  "is_field ''reason'' k \<Longrightarrow> \<not> is_field ''allowed'' k"
  by (auto simp: is_field_def)

lemma decode_result_allowed:
  "fold_members decode_result_member ms r = Some r' \<Longrightarrow> Allowed r' \<Longrightarrow>
   Allowed r \<or> (\<exists>m \<in> set ms. is_field ''allowed'' (fst m) \<and> snd (snd m) = JBool True)"
proof (induction decode_result_member ms r rule: fold_members.induct)
  case (2 k raw v ms r)
  then obtain r1 where r1: "decode_result_member k raw v r = Some r1"
    and "fold_members decode_result_member ms r1 = Some r'"
    by (auto simp: bind_eq_Some_conv)
  with 2 have "Allowed r1 \<or> (\<exists>m \<in> set ms. is_field ''allowed'' (fst m) \<and> snd (snd m) = JBool True)"
    by blast
  moreover have "Allowed r1 \<Longrightarrow> Allowed r \<or> (is_field ''allowed'' k \<and> v = JBool True)"
    using r1 by (auto simp: decode_result_member_def decode_bool_def decode_string_def split: if_splits json.splits)
  ultimately show ?case by auto
qed auto

lemma decode_response_allowed:
  "fold_members decode_response_member ms r = Some r' \<Longrightarrow> Allowed r' \<Longrightarrow>
   Allowed r \<or> (\<exists>m \<in> set ms. is_field ''result'' (fst m) \<and> has_member ''allowed'' (snd (snd m)) (JBool True))"
proof (induction decode_response_member ms r rule: fold_members.induct)
  case (2 k raw v ms r)
  then obtain r1 where r1: "decode_response_member k raw v r = Some r1"
    and "fold_members decode_response_member ms r1 = Some r'"
    by (auto simp: bind_eq_Some_conv)
  with 2 have "Allowed r1 \<or> (\<exists>m \<in> set ms. is_field ''result'' (fst m) \<and> has_member ''allowed'' (snd (snd m)) (JBool True))"
    by blast
  moreover have "Allowed r1 \<Longrightarrow> Allowed r \<or> (is_field ''result'' k \<and> has_member ''allowed'' v (JBool True))"
    using r1 decode_result_allowed
    by (fastforce simp: decode_response_member_def decode_struct_def has_member_def split: if_splits json.splits)
  ultimately show ?case by auto
qed auto

lemma decode_opaResp_allowed:
  assumes "decode_opaResp body = Some r" and "Allowed r"
  shows "\<exists>v rest w. json_prefix body = Some (v, rest) \<and> has_member ''result'' v w \<and>
           has_member ''allowed'' w (JBool True)"
proof -
  from assms(1) obtain v rest where v: "json_prefix body = Some (v, rest)"
    and d: "decode_struct decode_response_member v \<lparr>Allowed = False, Reason = []\<rparr> = Some r"
    by (auto simp: decode_opaResp_def bind_eq_Some_conv)
  from d assms(2) obtain ms where ms: "v = JObj ms"
    and "fold_members decode_response_member ms \<lparr>Allowed = False, Reason = []\<rparr> = Some r"
    by (auto simp: decode_struct_def split: json.splits)
  from decode_response_allowed [OF this(2) assms(2)] obtain m where "m \<in> set ms"
    and "is_field ''result'' (fst m)" and "has_member ''allowed'' (snd (snd m)) (JBool True)"
    by auto
  then have "has_member ''result'' v (snd (snd m))" by (auto simp: has_member_def ms)
  with v \<open>has_member ''allowed'' (snd (snd m)) (JBool True)\<close> show ?thesis by blast
qed

section \<open>The implementations meet the contract\<close>

definition sidecar_grants :: "http_post \<Rightarrow> SidecarClient \<Rightarrow> Input \<Rightarrow> bool" where
  "sidecar_grants Post c i \<longleftrightarrow> endpoint c = [] \<or>
     (\<exists>body r. Post (endpoint c) (GObj [(''input'', Input_json i)]) = Some (Some (200, body)) \<and>
        decode_opaResp body = Some r \<and> Allowed r)"

definition embedded_grants :: "EmbeddedEvaluator \<Rightarrow> Input \<Rightarrow> bool" where
  "embedded_grants e i \<longleftrightarrow>
     (\<exists>allow rs. prepared e = Some allow \<and> allow (Input_json i) = Some rs \<and>
        first_expression rs = Some (GBool True))"

fun opa_grants :: "http_post \<Rightarrow> opa_evaluator \<Rightarrow> Input \<Rightarrow> bool" where
  "opa_grants Post (Sidecar c) i = sidecar_grants Post c i"
| "opa_grants Post (Embedded e) i = embedded_grants e i"

interpretation sidecar: policy_evaluator "sidecar_Evaluate Post c" "sidecar_grants Post c"
  by unfold_locales
    (auto simp: sidecar_Evaluate_def sidecar_grants_def split: if_splits option.splits prod.splits)

interpretation embedded: policy_evaluator "embedded_Evaluate e" "embedded_grants e"
  by unfold_locales
    (auto simp: embedded_Evaluate_def embedded_grants_def split: if_splits option.splits gval.splits bool.splits)

interpretation opa: policy_evaluator "opa_Evaluate Post ev" "opa_grants Post ev"
  by unfold_locales (cases ev; simp add: sidecar.allowed_iff embedded.allowed_iff)

section \<open>Properties\<close>


definition demo_client :: SidecarClient where
  "demo_client = NewSidecar ''http://opa:8181/v1/data/graphql''"

definition reply_with :: "string \<Rightarrow> http_post" where
  "reply_with body = (\<lambda>_ _. Some (Some (200, body)))"

lemma demo_yes:
  "sidecar_Evaluate (reply_with ''{\"result\":{\"allowed\":true}}'') demo_client i =
     Inr \<lparr>Allowed = True, Reason = []\<rparr>"
proof -
  have "decode_opaResp ''{\"result\":{\"allowed\":true}}'' = Some \<lparr>Allowed = True, Reason = []\<rparr>"
    by code_simp
  then show ?thesis by (simp add: sidecar_Evaluate_def reply_with_def demo_client_def NewSidecar_def)
qed


text \<open>
  The reply that OPA gives for the whole package of the repository's own policy, which
  defines \<open>allow\<close> and \<open>deny\<close> but no \<open>allowed\<close>, is taken as a refusal without a reason,
  although it says that the query is allowed.
\<close>

theorem sidecar_refuses_package_reply:
  assumes "endpoint c \<noteq> []"
    and "Post (endpoint c) (GObj [(''input'', Input_json i)]) =
      Some (Some (200, ''{\"result\":{\"allow\":true,\"deny\":[]}}''))"
  shows "sidecar_Evaluate Post c i = Inr \<lparr>Allowed = False, Reason = []\<rparr>"
proof -
  have "decode_opaResp ''{\"result\":{\"allow\":true,\"deny\":[]}}'' = Some \<lparr>Allowed = False, Reason = []\<rparr>"
    by code_simp
  then show ?thesis using assms by (simp add: sidecar_Evaluate_def)
qed

theorem sidecar_refuses_package_reply_witness:
  "sidecar_Evaluate (reply_with ''{\"result\":{\"allow\":true,\"deny\":[]}}'') demo_client
     (BuildInput zero_QueryInfo None) = Inr \<lparr>Allowed = False, Reason = []\<rparr>"
  by (rule sidecar_refuses_package_reply) (simp_all add: demo_client_def NewSidecar_def reply_with_def)

text \<open>
  The embedded evaluator built by \<open>NewEmbedded\<close> always answers unless the engine fails: it
  allows a query exactly when the first value of \<open>data.graphql.allow\<close> is true, whatever the
  deny query does (it only supplies the reason), and every refusal has a reason when the denials
  that the policy gives are not empty strings.
\<close>

theorem embedded_decision:
  assumes new: "NewEmbedded Prepare fresh cfg heap = (Inr e, heap')"
    and "Prepare ''data.graphql.allow'' (cfg_Policy cfg) = Some allow"
    and "Prepare ''data.graphql.deny'' (cfg_Policy cfg) = Some deny"
    and "allow (Input_json i) = Some rs"
    and "\<And>ds. deny (Input_json i) = Some ds \<Longrightarrow>
           (\<nexists>rest. first_expression ds = Some (GArr (GStr [] # rest)))"
  shows "\<exists>r. embedded_Evaluate e i = Inr r \<and> (Allowed r \<longleftrightarrow> first_expression rs = Some (GBool True)) \<and>
    (Reason r = [] \<longleftrightarrow> Allowed r)"
proof -
  have e: "prepared e = Some allow" "preparedDeny e = Some deny"
    using new assms(2,3) by (auto simp: NewEmbedded_def embed_compile_def split: if_splits option.splits)
  have "first_denial (deny (Input_json i)) \<noteq> []"
    using assms(5) by (auto simp: first_denial_def split: option.split gval.split list.split)
  then show ?thesis
    using assms(4) e
    by (auto simp: embedded_Evaluate_def split: option.split gval.split bool.split)
qed

definition demo_rego :: rego_prepare where
  "demo_rego q p = (if q = ''data.graphql.allow'' then Some (\<lambda>_. Some [[GBool False]])
                    else Some (\<lambda>_. Some [[GArr [GStr ''too deep'']]]))"

definition demo_embedded :: EmbeddedEvaluator where
  "demo_embedded =
     \<lparr>prepared = Some (\<lambda>_. Some [[GBool False]]), preparedDeny = Some (\<lambda>_. Some [[GArr [GStr ''too deep'']]]),
      store = 0, policy = ''package graphql''\<rparr>"

theorem embedded_decision_witness:
  "\<exists>r. embedded_Evaluate demo_embedded (BuildInput zero_QueryInfo None) = Inr r \<and> \<not> Allowed r \<and> Reason r \<noteq> []"
  using embedded_decision [of demo_rego 1 "\<lparr>cfg_Policy = ''package graphql'', cfg_Store = Some 0\<rparr>"
      "\<lambda>_. NewDataStore" demo_embedded "\<lambda>_. NewDataStore" "\<lambda>_. Some [[GBool False]]"
      "\<lambda>_. Some [[GArr [GStr ''too deep'']]]" "BuildInput zero_QueryInfo None" "[[GBool False]]"]
  by (auto simp: NewEmbedded_def embed_compile_def demo_rego_def demo_embedded_def first_expression_def)

end
