(* ===== verification/Schema_Validation.thy ===== *)
theory Schema_Validation
  imports Query_Analysis
begin

text \<open>
  \<open>SchemaInfo\<close> of \<open>internal/parser/parser.go\<close>: loading a schema and checking a query's field
  paths against it. The schema types belong to \<open>gqlparser\<close>; they are given with the fields the
  source reads, and the package's \<open>ParseSchema\<close>, \<open>ValidateSchemaDocument\<close> and the field lookup
  \<open>FieldList.ForName\<close> are arguments.
\<close>

section \<open>Data\<close>

datatype ast_type = AstType (NamedType: string) (Elem: "ast_type option")

record field_definition =
  fd_Name :: string
  fd_Type :: "ast_type option"

record type_definition =
  td_Name :: string
  td_Fields :: "field_definition list"

record ast_schema =
  sch_Query :: "type_definition option"
  sch_Mutation :: "type_definition option"
  sch_Subscription :: "type_definition option"
  sch_Types :: "(string, type_definition) go_map"

type_synonym field_lookup = "field_definition list \<Rightarrow> string \<Rightarrow> field_definition option"

record SchemaInfo =
  Schema :: ast_schema
  TypeCount :: nat

datatype schema_error = ReadingSchema | ParsingSchema | ValidatingSchema

section \<open>Loading\<close>

definition LoadSchemaFromBytes ::
  "(string \<Rightarrow> 'd option) \<Rightarrow> ('d \<Rightarrow> ast_schema option) \<Rightarrow> go_bytes \<Rightarrow> schema_error + SchemaInfo" where
  "LoadSchemaFromBytes ParseSchema ValidateSchemaDocument bs =
     (case ParseSchema bs of
        None \<Rightarrow> Inl ParsingSchema
      | Some doc \<Rightarrow>
          (case ValidateSchemaDocument doc of
             None \<Rightarrow> Inl ValidatingSchema
           | Some schema \<Rightarrow> Inr \<lparr>Schema = schema, TypeCount = length (sch_Types schema)\<rparr>))"

definition LoadSchemaFromString ::
  "(string \<Rightarrow> 'd option) \<Rightarrow> ('d \<Rightarrow> ast_schema option) \<Rightarrow> string \<Rightarrow> schema_error + SchemaInfo" where
  "LoadSchemaFromString ParseSchema ValidateSchemaDocument schema =
     LoadSchemaFromBytes ParseSchema ValidateSchemaDocument schema"

text \<open>The file system is a map from paths to contents; a missing or unreadable file is \<open>None\<close>.\<close>

definition LoadSchema ::
  "(string \<Rightarrow> 'd option) \<Rightarrow> ('d \<Rightarrow> ast_schema option) \<Rightarrow> (string \<Rightarrow> go_bytes option) \<Rightarrow> string \<Rightarrow>
   schema_error + SchemaInfo" where
  "LoadSchema ParseSchema ValidateSchemaDocument ReadFile path =
     (case ReadFile path of
        None \<Rightarrow> Inl ReadingSchema
      | Some data \<Rightarrow> LoadSchemaFromBytes ParseSchema ValidateSchemaDocument data)"

section \<open>Validation\<close>

fun resolveNamedType :: "ast_type option \<Rightarrow> string" where
  "resolveNamedType None = ''''"
| "resolveNamedType (Some (AstType named elem)) =
     (if named \<noteq> '''' then named
      else (case elem of Some t \<Rightarrow> resolveNamedType (Some t) | None \<Rightarrow> ''''))"

definition msg_no_field :: "string \<Rightarrow> string \<Rightarrow> string" where
  "msg_no_field segment typeName =
     ''field '' @ fmt_q segment @ '' does not exist on type '' @ fmt_q typeName"

definition msg_no_type :: "string \<Rightarrow> string" where
  "msg_no_type segment = ''cannot resolve return type for field '' @ fmt_q segment"

definition msg_unknown_type :: "string \<Rightarrow> string" where
  "msg_unknown_type named = ''type '' @ fmt_q named @ '' not found in schema''"

text \<open>The inner loop over the segments of one path; \<open>None\<close> is falling out of the loop.\<close>

fun validate_segments ::
  "field_lookup \<Rightarrow> (string, type_definition) go_map \<Rightarrow> type_definition \<Rightarrow> string list \<Rightarrow> string option" where
  "validate_segments ForName types currentType [] = None"
| "validate_segments ForName types currentType (segment # rest) =
     (case ForName (td_Fields currentType) segment of
        None \<Rightarrow> Some (msg_no_field segment (td_Name currentType))
      | Some field \<Rightarrow>
          (if rest = [] then None
           else let namedType = resolveNamedType (fd_Type field) in
             if namedType = '''' then Some (msg_no_type segment)
             else (case map_of types namedType of
                     None \<Rightarrow> Some (msg_unknown_type namedType)
                   | Some nextType \<Rightarrow> validate_segments ForName types nextType rest)))"

definition root_type :: "ast_schema \<Rightarrow> string \<Rightarrow> type_definition option" where
  "root_type schema operationType =
     (if operationType = ''mutation'' then sch_Mutation schema
      else if operationType = ''subscription'' then sch_Subscription schema
      else sch_Query schema)"

fun validate_paths :: "field_lookup \<Rightarrow> ast_schema \<Rightarrow> string \<Rightarrow> string list \<Rightarrow> bool \<times> string" where
  "validate_paths ForName schema operationType [] = (True, '''')"
| "validate_paths ForName schema operationType (path # paths) =
     (let parts = splitPath path in
      if length parts = 0 then validate_paths ForName schema operationType paths
      else (case root_type schema operationType of
              None \<Rightarrow> validate_paths ForName schema operationType paths
            | Some currentType \<Rightarrow>
                (case validate_segments ForName (sch_Types schema) currentType parts of
                   Some msg \<Rightarrow> (False, msg)
                 | None \<Rightarrow> validate_paths ForName schema operationType paths)))"

definition Validate :: "field_lookup \<Rightarrow> SchemaInfo \<Rightarrow> QueryInfo \<Rightarrow> bool \<times> string" where
  "Validate ForName s info = validate_paths ForName (Schema s) (OperationType info) (FieldPaths info)"

section \<open>What a valid path is\<close>

text \<open>
  A path resolves on a type when its first segment names a field and, if more segments follow,
  the named type under the field's list and non-null wrappers is in the schema and the rest
  resolves on it.
\<close>

inductive resolves ::
  "field_lookup \<Rightarrow> (string, type_definition) go_map \<Rightarrow> type_definition \<Rightarrow> string list \<Rightarrow> bool"
  for ForName :: field_lookup and types :: "(string, type_definition) go_map"
  where
    resolves_leaf: "ForName (td_Fields t) s = Some f \<Longrightarrow> resolves ForName types t [s]"
  | resolves_step: "ForName (td_Fields t) s = Some f \<Longrightarrow> resolveNamedType (fd_Type f) \<noteq> '''' \<Longrightarrow>
      map_of types (resolveNamedType (fd_Type f)) = Some t' \<Longrightarrow> resolves ForName types t' (s' # rest) \<Longrightarrow>
      resolves ForName types t (s # s' # rest)"

inductive_cases resolves_leafE: "resolves ForName types t [s]"
inductive_cases resolves_stepE: "resolves ForName types t (s # s' # rest)"

lemma validate_segments_resolves:
  "segs \<noteq> [] \<Longrightarrow> validate_segments ForName types t segs = None \<longleftrightarrow> resolves ForName types t segs"
proof (induction ForName types t segs rule: validate_segments.induct)
  case (2 ForName types t s rest)
  show ?case
  proof (cases rest)
    case Nil
    then show ?thesis
      by (auto intro: resolves_leaf elim: resolves_leafE split: option.splits)
  next
    case (Cons s' r)
    with 2 show ?thesis
      by (auto simp: Let_def intro: resolves_step elim!: resolves_stepE split: option.splits if_splits)
  qed
qed simp

lemma msg_nonempty [simp]:
  "msg_no_field s t \<noteq> ''''" "msg_no_type s \<noteq> ''''" "msg_unknown_type n \<noteq> ''''"
  by (simp_all add: msg_no_field_def msg_no_type_def msg_unknown_type_def)

lemma validate_segments_msg: "validate_segments ForName types t segs = Some msg \<Longrightarrow> msg \<noteq> ''''"
  by (induction ForName types t segs rule: validate_segments.induct)
    (auto simp: Let_def split: option.splits if_splits)

lemma validate_paths_iff:
  "fst (validate_paths ForName schema op paths) \<longleftrightarrow>
   (\<forall>t. root_type schema op = Some t \<longrightarrow>
      (\<forall>p \<in> set paths. splitPath p = [] \<or> resolves ForName (sch_Types schema) t (splitPath p)))"
proof (induction paths)
  case (Cons p ps)
  show ?case
  proof (cases "splitPath p = [] \<or> root_type schema op = None")
    case True
    then show ?thesis using Cons by (auto simp: Let_def)
  next
    case False
    then obtain t where t: "root_type schema op = Some t" "splitPath p \<noteq> []" by auto
    show ?thesis
      using Cons t validate_segments_resolves [OF t(2), of ForName "sch_Types schema" t]
      by (cases "validate_segments ForName (sch_Types schema) t (splitPath p)") (auto simp: Let_def)
  qed
qed simp

lemma validate_paths_msg:
  "snd (validate_paths ForName schema op paths) = '''' \<longleftrightarrow> fst (validate_paths ForName schema op paths)"
  by (induction paths) (auto simp: Let_def dest: validate_segments_msg split: option.splits)

section \<open>Properties\<close>

text \<open>
  C20: schema validation accepts a query exactly when every recorded path resolves from the root
  type of its operation, following the named type under list and non-null wrappers; a refusal
  always carries a message, an acceptance never does. When the schema has no such root type the
  condition is empty and everything is accepted.
\<close>

theorem Validate_iff_resolves:
  "(fst (Validate ForName s info) \<longleftrightarrow>
    (\<forall>t. root_type (Schema s) (OperationType info) = Some t \<longrightarrow>
       (\<forall>p \<in> set (FieldPaths info).
          splitPath p = [] \<or> resolves ForName (sch_Types (Schema s)) t (splitPath p)))) \<and>
   (snd (Validate ForName s info) = '''' \<longleftrightarrow> fst (Validate ForName s info))"
  unfolding Validate_def by (simp only: validate_paths_iff validate_paths_msg simp_thms)

definition find_field :: field_lookup where
  "find_field fs n = find (\<lambda>f. fd_Name f = n) fs"

definition demo_schema :: SchemaInfo where
  "demo_schema =
     (let user = \<lparr>td_Name = ''User'', td_Fields = [\<lparr>fd_Name = ''name'', fd_Type = Some (AstType ''String'' None)\<rparr>,
                                          \<lparr>fd_Name = ''friends'', fd_Type = Some (AstType '''' (Some (AstType ''User'' None)))\<rparr>]\<rparr>;
          query = \<lparr>td_Name = ''Query'', td_Fields = [\<lparr>fd_Name = ''user'', fd_Type = Some (AstType ''User'' None)\<rparr>]\<rparr>
      in \<lparr>Schema = \<lparr>sch_Query = Some query, sch_Mutation = None, sch_Subscription = None,
                    sch_Types = [(''User'', user), (''Query'', query)]\<rparr>, TypeCount = 2\<rparr>)"

theorem Validate_iff_resolves_witness:
  "fst (Validate find_field demo_schema
      (zero_QueryInfo\<lparr>OperationType := ''query'', FieldPaths := [''user.friends.name'']\<rparr>)) \<and>
   resolves find_field (sch_Types (Schema demo_schema)) (the (sch_Query (Schema demo_schema)))
     [''user'', ''friends'', ''name'']"
proof -
  let ?info = "zero_QueryInfo\<lparr>OperationType := ''query'', FieldPaths := [''user.friends.name'']\<rparr>"
  have ok: "fst (Validate find_field demo_schema ?info)"
    by (simp add: Validate_def demo_schema_def Let_def find_field_def root_type_def splitPath_def)
  moreover have "splitPath ''user.friends.name'' = [''user'', ''friends'', ''name'']"
    by (simp add: splitPath_def)
  ultimately show ?thesis
    using Validate_iff_resolves [of find_field demo_schema ?info]
    by (auto simp: root_type_def demo_schema_def Let_def)
qed

end
