(* ===== verification/Metrics.thy ===== *)
theory Metrics
  imports Prelude
begin

text \<open>
  The Prometheus instrumentation of \<open>internal/metrics\<close>. A counter vector is a function from its
  label values to a count that \<open>Inc\<close> raises by one, the latency histogram the list of its
  observations per outcome, a gauge a number. The registry and its HTTP endpoint belong to the
  Prometheus client.
\<close>

record Metrics =
  RequestsTotal :: "string \<times> string \<Rightarrow> nat"
  RequestsBlocked :: "string \<Rightarrow> nat"
  RequestDuration :: "string \<Rightarrow> duration list"
  ActiveTenants :: nat
  RuleEvaluations :: "string \<Rightarrow> nat"
  ConfigReloads :: nat
  OPARequests :: "string \<Rightarrow> nat"
  OPAAuditBlocks :: "string \<Rightarrow> nat"

definition zero_Metrics :: Metrics where
  "zero_Metrics =
     \<lparr>RequestsTotal = (\<lambda>_. 0), RequestsBlocked = (\<lambda>_. 0), RequestDuration = (\<lambda>_. []), ActiveTenants = 0,
      RuleEvaluations = (\<lambda>_. 0), ConfigReloads = 0, OPARequests = (\<lambda>_. 0), OPAAuditBlocks = (\<lambda>_. 0)\<rparr>"

definition Inc :: "'a \<Rightarrow> ('a \<Rightarrow> nat) \<Rightarrow> 'a \<Rightarrow> nat" where
  "Inc l c = c(l := Suc (c l))"

definition RecordRequest :: "string \<Rightarrow> string \<Rightarrow> duration \<Rightarrow> Metrics \<Rightarrow> Metrics" where
  "RecordRequest outcome operationType d m =
     m\<lparr>RequestsTotal := Inc (outcome, operationType) (RequestsTotal m),
       RequestDuration := (RequestDuration m)(outcome := RequestDuration m outcome @ [d])\<rparr>"

definition RecordBlock :: "string \<Rightarrow> Metrics \<Rightarrow> Metrics" where
  "RecordBlock reason m = m\<lparr>RequestsBlocked := Inc reason (RequestsBlocked m)\<rparr>"

definition RecordRuleEval :: "string \<Rightarrow> Metrics \<Rightarrow> Metrics" where
  "RecordRuleEval rule m = m\<lparr>RuleEvaluations := Inc rule (RuleEvaluations m)\<rparr>"

definition RecordOPA :: "string \<Rightarrow> Metrics \<Rightarrow> Metrics" where
  "RecordOPA outcome m = m\<lparr>OPARequests := Inc outcome (OPARequests m)\<rparr>"

definition RecordOPAAuditBlock :: "string \<Rightarrow> Metrics \<Rightarrow> Metrics" where
  "RecordOPAAuditBlock reason m = m\<lparr>OPAAuditBlocks := Inc reason (OPAAuditBlocks m)\<rparr>"

definition IncConfigReloads :: "Metrics \<Rightarrow> Metrics" where
  "IncConfigReloads m = m\<lparr>ConfigReloads := Suc (ConfigReloads m)\<rparr>"

definition SetActiveTenants :: "nat \<Rightarrow> Metrics \<Rightarrow> Metrics" where
  "SetActiveTenants n m = m\<lparr>ActiveTenants := n\<rparr>"

lemma Inc_apply [simp]: "Inc l c l' = (if l' = l then Suc (c l') else c l')"
  by (simp add: Inc_def)

lemma Inc_commute: "Inc l (Inc l' c) = Inc l' (Inc l c)"
  by (auto simp: Inc_def fun_eq_iff)

text \<open>Which counters a recording leaves alone.\<close>

lemma RecordRequest_frame [frame_simps]:
  "RequestsBlocked (RecordRequest out ty d m) = RequestsBlocked m"
  "RuleEvaluations (RecordRequest out ty d m) = RuleEvaluations m"
  "ActiveTenants (RecordRequest out ty d m) = ActiveTenants m"
  "ConfigReloads (RecordRequest out ty d m) = ConfigReloads m"
  "OPARequests (RecordRequest out ty d m) = OPARequests m"
  "OPAAuditBlocks (RecordRequest out ty d m) = OPAAuditBlocks m"
  "RequestsTotal (RecordRequest out ty d m) = Inc (out, ty) (RequestsTotal m)"
  by (simp_all add: RecordRequest_def)

lemma RecordBlock_frame [frame_simps]:
  "RequestsBlocked (RecordBlock r m) = Inc r (RequestsBlocked m)"
  "RequestsTotal (RecordBlock r m) = RequestsTotal m"
  "RequestDuration (RecordBlock r m) = RequestDuration m"
  "OPARequests (RecordBlock r m) = OPARequests m"
  "OPAAuditBlocks (RecordBlock r m) = OPAAuditBlocks m"
  by (simp_all add: RecordBlock_def)

lemma RecordRuleEval_frame [frame_simps]:
  "RequestsBlocked (RecordRuleEval r m) = RequestsBlocked m"
  "RequestsTotal (RecordRuleEval r m) = RequestsTotal m"
  "RequestDuration (RecordRuleEval r m) = RequestDuration m"
  "OPARequests (RecordRuleEval r m) = OPARequests m"
  "OPAAuditBlocks (RecordRuleEval r m) = OPAAuditBlocks m"
  by (simp_all add: RecordRuleEval_def)

lemma RecordOPA_frame [frame_simps]:
  "RequestsBlocked (RecordOPA r m) = RequestsBlocked m"
  "RequestsTotal (RecordOPA r m) = RequestsTotal m"
  "RequestDuration (RecordOPA r m) = RequestDuration m"
  "OPARequests (RecordOPA r m) = Inc r (OPARequests m)"
  "OPAAuditBlocks (RecordOPA r m) = OPAAuditBlocks m"
  by (simp_all add: RecordOPA_def)

lemma RecordOPAAuditBlock_frame [frame_simps]:
  "RequestsBlocked (RecordOPAAuditBlock r m) = RequestsBlocked m"
  "RequestsTotal (RecordOPAAuditBlock r m) = RequestsTotal m"
  "RequestDuration (RecordOPAAuditBlock r m) = RequestDuration m"
  "OPARequests (RecordOPAAuditBlock r m) = OPARequests m"
  "OPAAuditBlocks (RecordOPAAuditBlock r m) = Inc r (OPAAuditBlocks m)"
  by (simp_all add: RecordOPAAuditBlock_def)

end
