(* ===== verification/Composite_Evaluator.thy ===== *)
theory Composite_Evaluator
  imports Opa_Evaluators Schema_Validation Metrics
begin

text \<open>
  The \<open>compositeEvaluator\<close> of \<open>cmd/server/main.go\<close>: schema validation, then the policy with a
  cache of its decisions. The two clock readings of \<open>Evaluate\<close> (the freshness check and the new
  expiry) are arguments, and so is the content of the data store when the input is built. A nil
  cache is \<open>None\<close>. \<open>Evaluate\<close> never returns an error, so its result is a plain \<open>Result\<close>.

  \<open>decide\<close> is what the evaluator promises for one query without any cache; the cache lemmas relate
  every answer of a run to such a decision.
\<close>

unbundle bit_operations_syntax

section \<open>Cache keys\<close>

definition fnv_step :: "64 word \<Rightarrow> char \<Rightarrow> 64 word" where
  "fnv_step h c = (h XOR of_nat (of_char c)) * 1099511628211"

definition simpleHash :: "string list \<Rightarrow> string" where
  "simpleHash parts = fmt_08x (foldl (foldl fnv_step) 14695981039346656037 parts)"

definition decisionCacheKey :: "QueryInfo \<Rightarrow> string" where
  "decisionCacheKey info =
     OperationType info @ ''|'' @ fmt_d (Depth info) @ ''|'' @ fmt_d (FieldCount info) @ ''|'' @
     simpleHash (FieldPaths info)"

section \<open>The evaluator\<close>

record cachedDecision =
  result :: Result
  expiry :: instant

record compositeEvaluator =
  opa :: opa_evaluator
  opaStore :: "nat option"
  schema :: "SchemaInfo option"
  cacheTTL :: duration
  cache :: "(string, cachedDecision) go_map option"
  opaFailClosed :: bool
  opaAuditOnly :: bool

definition allow_result :: Result where
  "allow_result = \<lparr>Allowed = True, Reason = []\<rparr>"

definition unavailable_result :: Result where
  "unavailable_result =
     \<lparr>Allowed = False,
      Reason = ''OPA unavailable '' @ [CHR 0xE2, CHR 0x80, CHR 0x94] @ '' request blocked for safety''\<rparr>"

definition cache_lookup :: "compositeEvaluator \<Rightarrow> string \<Rightarrow> instant \<Rightarrow> cachedDecision option" where
  "cache_lookup c key now =
     (if 0 < cacheTTL c then
        (case Option.bind (cache c) (\<lambda>m. map_of m key) of
           Some d \<Rightarrow> if now < expiry d then Some d else None
         | None \<Rightarrow> None)
      else None)"

definition cache_store :: "string \<Rightarrow> Result \<Rightarrow> instant \<Rightarrow> compositeEvaluator \<Rightarrow> compositeEvaluator" where
  "cache_store key r now c =
     (if 0 < cacheTTL c then
        c\<lparr>cache := Some (AList.update key \<lparr>result = r, expiry = now + cacheTTL c\<rparr>
                      (case cache c of None \<Rightarrow> [] | Some m \<Rightarrow> m))\<rparr>
      else c)"

text \<open>After a cache hit, and after an answer of the policy.\<close>

definition serve_cached :: "bool \<Rightarrow> Result \<Rightarrow> Metrics \<Rightarrow> Result \<times> Metrics" where
  "serve_cached auditOnly r m =
     (let m1 = RecordOPA ''cache_hit'' m in
      if auditOnly \<and> \<not> Allowed r then (allow_result, RecordOPAAuditBlock (Reason r) m1) else (r, m1))"

definition judge :: "bool \<Rightarrow> Result \<Rightarrow> Metrics \<Rightarrow> Result \<times> Metrics" where
  "judge auditOnly r m =
     (if Allowed r then (r, m)
      else if auditOnly then (allow_result, RecordOPAAuditBlock (Reason r) m)
      else (r, RecordBlock (Reason r) m))"

definition Evaluate_policy ::
  "http_post \<Rightarrow> DataStore option \<Rightarrow> instant \<Rightarrow> instant \<Rightarrow> QueryInfo \<Rightarrow> compositeEvaluator \<Rightarrow> Metrics \<Rightarrow>
     Result \<times> compositeEvaluator \<times> Metrics"
  where
    "Evaluate_policy Post st now1 now2 info c m =
       (let input = BuildInput info st; key = decisionCacheKey info in
        case cache_lookup c key now1 of
          Some d \<Rightarrow> (let (r, m') = serve_cached (opaAuditOnly c) (result d) m in (r, c, m'))
        | None \<Rightarrow>
            (case opa_Evaluate Post (opa c) input of
               Inl err \<Rightarrow>
                 (if opaFailClosed c then unavailable_result else allow_result, c, RecordOPA ''error'' m)
             | Inr r0 \<Rightarrow>
                 (let (r, m') = judge (opaAuditOnly c) r0 (RecordOPA ''evaluated'' m)
                  in (r, cache_store key r now2 c, m'))))"

definition Evaluate ::
  "field_lookup \<Rightarrow> http_post \<Rightarrow> DataStore option \<Rightarrow> instant \<Rightarrow> instant \<Rightarrow> QueryInfo \<Rightarrow>
     compositeEvaluator \<Rightarrow> Metrics \<Rightarrow> Result \<times> compositeEvaluator \<times> Metrics"
  where
    "Evaluate ForName Post st now1 now2 info c m =
       (case schema c of
          None \<Rightarrow> Evaluate_policy Post st now1 now2 info c m
        | Some s \<Rightarrow>
            (let (allowed, reason) = Validate ForName s info in
             if \<not> allowed then (\<lparr>Allowed = False, Reason = reason\<rparr>, c, RecordBlock reason m)
             else Evaluate_policy Post st now1 now2 info c m))"

section \<open>The promise, without the cache\<close>

definition schema_refusal :: "field_lookup \<Rightarrow> compositeEvaluator \<Rightarrow> QueryInfo \<Rightarrow> string option" where
  "schema_refusal ForName c info =
     (case schema c of
        None \<Rightarrow> None
      | Some s \<Rightarrow> if fst (Validate ForName s info) then None else Some (snd (Validate ForName s info)))"

definition effective :: "bool \<Rightarrow> Result \<Rightarrow> Result" where
  "effective auditOnly r = (if auditOnly \<and> \<not> Allowed r then allow_result else r)"

definition decide :: "field_lookup \<Rightarrow> http_post \<Rightarrow> DataStore option \<Rightarrow> compositeEvaluator \<Rightarrow> QueryInfo \<Rightarrow> Result" where
  "decide ForName Post st c info =
     (case schema_refusal ForName c info of
        Some reason \<Rightarrow> \<lparr>Allowed = False, Reason = reason\<rparr>
      | None \<Rightarrow>
          (case opa_Evaluate Post (opa c) (BuildInput info st) of
             Inl err \<Rightarrow> if opaFailClosed c then unavailable_result else allow_result
           | Inr r \<Rightarrow> effective (opaAuditOnly c) r))"

lemmas evaluate_defs = Evaluate_def Evaluate_policy_def serve_cached_def judge_def

lemma schema_refusal_None:
  "schema_refusal ForName c info = None \<Longrightarrow>
   Evaluate ForName Post st t1 t2 info c m = Evaluate_policy Post st t1 t2 info c m"
  by (auto simp: schema_refusal_def Evaluate_def split: option.splits prod.splits if_splits)

lemma schema_refusal_Some:
  "schema_refusal ForName c info = Some reason \<Longrightarrow>
   Evaluate ForName Post st t1 t2 info c m = (\<lparr>Allowed = False, Reason = reason\<rparr>, c, RecordBlock reason m)"
  by (auto simp: schema_refusal_def Evaluate_def split: option.splits prod.splits if_splits)

lemma fst_judge [simp]: "fst (judge a r m) = effective a r"
  by (simp add: judge_def effective_def)

lemma fst_serve_cached [simp]: "fst (serve_cached a r m) = effective a r"
  by (simp add: serve_cached_def effective_def Let_def)

lemma effective_idem [simp]: "effective a (effective a r) = effective a r"
  by (simp add: effective_def allow_result_def)

text \<open>The configuration never changes; only the cache does.\<close>

definition same_config :: "compositeEvaluator \<Rightarrow> compositeEvaluator \<Rightarrow> bool" where
  "same_config c c' \<longleftrightarrow>
     opa c' = opa c \<and> opaStore c' = opaStore c \<and> schema c' = schema c \<and> cacheTTL c' = cacheTTL c \<and>
     opaFailClosed c' = opaFailClosed c \<and> opaAuditOnly c' = opaAuditOnly c"

lemma same_config_trans: "same_config c c' \<Longrightarrow> same_config c' c'' \<Longrightarrow> same_config c c''"
  by (simp add: same_config_def)

lemma same_config_store [simp]: "same_config c (cache_store k r t c)"
  by (simp add: same_config_def cache_store_def)

lemma same_config_refl [simp]: "same_config c c"
  by (simp add: same_config_def)

lemma Evaluate_same_config: "same_config c (fst (snd (Evaluate ForName Post st t1 t2 info c m)))"
  by (auto simp: Evaluate_def Evaluate_policy_def Let_def split: option.split sum.split prod.split if_split)

section \<open>The contract of a cache with expiry\<close>

locale ttl_cache =
  fixes lookup :: "'s \<Rightarrow> 'k \<Rightarrow> instant \<Rightarrow> 'v option"
    and insert_at :: "'k \<Rightarrow> 'v \<Rightarrow> instant \<Rightarrow> 's \<Rightarrow> 's"
    and ttl :: "'s \<Rightarrow> duration"
  assumes lookup_insert: "0 < ttl s \<Longrightarrow> lookup (insert_at k v t s) k' now =
      (if k' = k then if now < t + ttl s then Some v else None else lookup s k' now)"
    and insert_disabled: "ttl s \<le> 0 \<Longrightarrow> insert_at k v t s = s"
    and lookup_disabled: "ttl s \<le> 0 \<Longrightarrow> lookup s k now = None"
    and ttl_insert: "ttl (insert_at k v t s) = ttl s"
begin

text \<open>Everything a lookup can return was inserted under that key and has not outlived its time.\<close>

definition filled_by :: "('k \<times> 'v \<times> instant) set \<Rightarrow> 's \<Rightarrow> bool" where
  "filled_by H s \<longleftrightarrow> (\<forall>k now v. lookup s k now = Some v \<longrightarrow> (\<exists>t. (k, v, t) \<in> H \<and> now < t + ttl s))"

lemma filled_by_insert: "filled_by H s \<Longrightarrow> filled_by (insert (k, v, t) H) (insert_at k v t s)"
  by (cases "0 < ttl s")
    (force simp: filled_by_def lookup_insert insert_disabled ttl_insert split: if_splits)+

lemma filled_by_mono: "filled_by H s \<Longrightarrow> H \<subseteq> H' \<Longrightarrow> filled_by H' s"
  unfolding filled_by_def by blast

lemma filled_byD: "filled_by H s \<Longrightarrow> lookup s k now = Some v \<Longrightarrow> \<exists>t. (k, v, t) \<in> H \<and> now < t + ttl s \<and> 0 < ttl s"
  by (cases "0 < ttl s") (auto simp: filled_by_def lookup_disabled not_less)

end

interpretation decisions: ttl_cache "\<lambda>c k now. map_option result (cache_lookup c k now)" cache_store cacheTTL
  by unfold_locales (auto simp: cache_lookup_def cache_store_def split: option.splits)

section \<open>Runs\<close>

text \<open>One call with what it meets: the data store, the sidecar and the two clock readings.\<close>

record eval_request =
  rq_info :: QueryInfo
  rq_store :: "DataStore option"
  rq_post :: http_post
  rq_t1 :: instant
  rq_t2 :: instant

fun run_evals ::
  "field_lookup \<Rightarrow> eval_request list \<Rightarrow> compositeEvaluator \<Rightarrow> Metrics \<Rightarrow> Result list \<times> compositeEvaluator \<times> Metrics"
  where
    "run_evals ForName [] c m = ([], c, m)"
  | "run_evals ForName (q # qs) c m =
       (let (r, c1, m1) = Evaluate ForName (rq_post q) (rq_store q) (rq_t1 q) (rq_t2 q) (rq_info q) c m;
            (rs, c2, m2) = run_evals ForName qs c1 m1
        in (r # rs, c2, m2))"

definition decides :: "field_lookup \<Rightarrow> compositeEvaluator \<Rightarrow> eval_request \<Rightarrow> Result" where
  "decides ForName c q = decide ForName (rq_post q) (rq_store q) c (rq_info q)"

definition answered :: "field_lookup \<Rightarrow> compositeEvaluator \<Rightarrow> eval_request \<Rightarrow> bool" where
  "answered ForName c q \<longleftrightarrow> schema_refusal ForName c (rq_info q) = None \<and>
     (\<exists>r. opa_Evaluate (rq_post q) (opa c) (BuildInput (rq_info q) (rq_store q)) = Inr r)"

text \<open>Request \<open>q\<close> may be served the decision made for \<open>p\<close>.\<close>

definition reuses :: "field_lookup \<Rightarrow> compositeEvaluator \<Rightarrow> eval_request \<Rightarrow> eval_request \<Rightarrow> bool" where
  "reuses ForName c p q \<longleftrightarrow> 0 < cacheTTL c \<and> answered ForName c p \<and>
     schema_refusal ForName c (rq_info q) = None \<and>
     decisionCacheKey (rq_info q) = decisionCacheKey (rq_info p) \<and> rq_t1 q < rq_t2 p + cacheTTL c"

definition made_by :: "field_lookup \<Rightarrow> compositeEvaluator \<Rightarrow> eval_request set \<Rightarrow> (string \<times> Result \<times> instant) set" where
  "made_by ForName c P =
     (\<lambda>p. (decisionCacheKey (rq_info p), decides ForName c p, rq_t2 p)) ` {p \<in> P. answered ForName c p}"

lemma same_config_spec:
  assumes "same_config c c'"
  shows "decides ForName c' q = decides ForName c q" and "answered ForName c' q = answered ForName c q"
    and "reuses ForName c' p q = reuses ForName c p q" and "made_by ForName c' P = made_by ForName c P"
proof -
  have s: "schema_refusal ForName c' i = schema_refusal ForName c i" for i
    using assms by (simp add: schema_refusal_def same_config_def)
  show d: "decides ForName c' q = decides ForName c q" for q
    using assms by (simp add: decides_def decide_def s same_config_def cong: option.case_cong sum.case_cong)
  show a: "answered ForName c' q = answered ForName c q" for q
    using assms by (simp add: answered_def s same_config_def)
  show "reuses ForName c' p q = reuses ForName c p q"
    using assms by (simp add: reuses_def s a same_config_def)
  show "made_by ForName c' P = made_by ForName c P"
    by (simp add: made_by_def d a)
qed

text \<open>The three ways of \<open>Evaluate_policy\<close>.\<close>

lemma Evaluate_policy_hit:
  "cache_lookup c (decisionCacheKey info) t1 = Some d \<Longrightarrow>
   Evaluate_policy Post st t1 t2 info c m =
     (effective (opaAuditOnly c) (result d), c, snd (serve_cached (opaAuditOnly c) (result d) m))"
  by (simp add: Evaluate_policy_def Let_def case_prod_beta)

lemma Evaluate_policy_error:
  "cache_lookup c (decisionCacheKey info) t1 = None \<Longrightarrow>
   opa_Evaluate Post (opa c) (BuildInput info st) = Inl err \<Longrightarrow>
   Evaluate_policy Post st t1 t2 info c m =
     (if opaFailClosed c then unavailable_result else allow_result, c, RecordOPA ''error'' m)"
  by (simp add: Evaluate_policy_def Let_def)

lemma Evaluate_policy_answer:
  "cache_lookup c (decisionCacheKey info) t1 = None \<Longrightarrow>
   opa_Evaluate Post (opa c) (BuildInput info st) = Inr r \<Longrightarrow>
   Evaluate_policy Post st t1 t2 info c m =
     (effective (opaAuditOnly c) r, cache_store (decisionCacheKey info) (effective (opaAuditOnly c) r) t2 c,
      snd (judge (opaAuditOnly c) r (RecordOPA ''evaluated'' m)))"
  by (simp add: Evaluate_policy_def Let_def case_prod_beta)

lemma cached_effective: "r = decides ForName c p \<Longrightarrow> answered ForName c p \<Longrightarrow> effective (opaAuditOnly c) r = r"
  by (auto simp: decides_def decide_def answered_def)

lemma Evaluate_step:
  fixes ForName c q m
  defines "e \<equiv> Evaluate ForName (rq_post q) (rq_store q) (rq_t1 q) (rq_t2 q) (rq_info q) c m"
  assumes filled: "decisions.filled_by (made_by ForName c P) c"
  shows "fst e = decides ForName c q \<or> (\<exists>p \<in> P. reuses ForName c p q \<and> fst e = decides ForName c p)"
    and "decisions.filled_by (made_by ForName c (insert q P)) (fst (snd e))"
proof -
  have mono: "made_by ForName c P \<subseteq> made_by ForName c (insert q P)" by (auto simp: made_by_def)
  note keep = decisions.filled_by_mono [OF filled mono]
  have "(fst e = decides ForName c q \<or> (\<exists>p \<in> P. reuses ForName c p q \<and> fst e = decides ForName c p)) \<and>
        decisions.filled_by (made_by ForName c (insert q P)) (fst (snd e))"
  proof (cases "schema_refusal ForName c (rq_info q)")
    case (Some reason)
    then show ?thesis using keep by (simp add: e_def schema_refusal_Some decides_def decide_def)
  next
    case None
    then have e: "e = Evaluate_policy (rq_post q) (rq_store q) (rq_t1 q) (rq_t2 q) (rq_info q) c m"
      by (simp add: e_def schema_refusal_None)
    show ?thesis
    proof (cases "cache_lookup c (decisionCacheKey (rq_info q)) (rq_t1 q)")
      case (Some d)
      then obtain p where "p \<in> P" "answered ForName c p" "decisionCacheKey (rq_info q) = decisionCacheKey (rq_info p)"
        "result d = decides ForName c p" "rq_t1 q < rq_t2 p + cacheTTL c" "0 < cacheTTL c"
        using decisions.filled_byD [OF filled, of "decisionCacheKey (rq_info q)" "rq_t1 q"] by (auto simp: made_by_def)
      with Some None keep show ?thesis
        using cached_effective [of "result d" ForName c p] by (auto simp: e Evaluate_policy_hit reuses_def)
    next
      case miss: None
      show ?thesis
      proof (cases "opa_Evaluate (rq_post q) (opa c) (BuildInput (rq_info q) (rq_store q))")
        case (Inl err)
        with miss None keep show ?thesis by (simp add: e Evaluate_policy_error decides_def decide_def)
      next
        case (Inr r)
        then have a: "answered ForName c q" and d: "decides ForName c q = effective (opaAuditOnly c) r"
          using None by (auto simp: answered_def decides_def decide_def)
        have "decisions.filled_by (insert (decisionCacheKey (rq_info q), decides ForName c q, rq_t2 q) (made_by ForName c P))
          (cache_store (decisionCacheKey (rq_info q)) (decides ForName c q) (rq_t2 q) c)"
          by (rule decisions.filled_by_insert [OF filled])
        moreover have "made_by ForName c (insert q P) =
            insert (decisionCacheKey (rq_info q), decides ForName c q, rq_t2 q) (made_by ForName c P)"
          using a by (auto simp: made_by_def)
        ultimately show ?thesis
          using miss Inr d by (simp add: e Evaluate_policy_answer)
      qed
    qed
  qed
  then show "fst e = decides ForName c q \<or> (\<exists>p \<in> P. reuses ForName c p q \<and> fst e = decides ForName c p)"
    and "decisions.filled_by (made_by ForName c (insert q P)) (fst (snd e))" by auto
qed

lemma run_evals_Cons:
  "run_evals ForName (q # qs) c m =
     (let e = Evaluate ForName (rq_post q) (rq_store q) (rq_t1 q) (rq_t2 q) (rq_info q) c m;
          rest = run_evals ForName qs (fst (snd e)) (snd (snd e))
      in (fst e # fst rest, snd rest))"
  by (simp add: Let_def case_prod_beta)

declare run_evals.simps(2) [simp del]

lemma length_run_evals [simp]: "length (fst (run_evals ForName qs c m)) = length qs"
  by (induction qs arbitrary: c m) (simp_all add: run_evals_Cons Let_def)

lemma run_justified:
  assumes "decisions.filled_by (made_by ForName c P) c" and "i < length qs"
  shows "fst (run_evals ForName qs c m) ! i = decides ForName c (qs ! i) \<or>
    (\<exists>p \<in> P \<union> set (take i qs). reuses ForName c p (qs ! i) \<and> fst (run_evals ForName qs c m) ! i = decides ForName c p)"
  using assms
proof (induction qs arbitrary: c m P i)
  case (Cons q qs)
  let ?e = "Evaluate ForName (rq_post q) (rq_store q) (rq_t1 q) (rq_t2 q) (rq_info q) c m"
  note step = Evaluate_step [OF Cons.prems(1), of q m]
  have "same_config c (fst (snd ?e))" by (rule Evaluate_same_config)
  note sc = same_config_spec [OF this]
  show ?case
  proof (cases i)
    case 0
    then show ?thesis using step(1) by (simp add: run_evals_Cons Let_def)
  next
    case (Suc j)
    have "decisions.filled_by (made_by ForName (fst (snd ?e)) (insert q P)) (fst (snd ?e))"
      using step(2) by (simp add: sc)
    from Cons.IH [OF this, of j "snd (snd ?e)"] Cons.prems(2) Suc show ?thesis
      by (simp add: run_evals_Cons Let_def sc)
  qed
qed simp

lemma filled_empty: "cache c = None \<Longrightarrow> decisions.filled_by H c"
  unfolding decisions.filled_by_def by (simp add: cache_lookup_def)

lemma run_justified_index:
  assumes "cache c = None" and "i < length qs"
  shows "fst (run_evals ForName qs c m) ! i = decides ForName c (qs ! i) \<or>
    (\<exists>j < i. reuses ForName c (qs ! j) (qs ! i) \<and>
       fst (run_evals ForName qs c m) ! i = decides ForName c (qs ! j))"
proof -
  have "\<exists>j < i. p = qs ! j" if "p \<in> set (take i qs)" for p
    using that assms(2) by (auto simp: in_set_conv_nth)
  with run_justified [OF filled_empty [OF assms(1), of "made_by ForName c {}"] assms(2), of m] show ?thesis
    by blast
qed

section \<open>Keys\<close>

lemma fmt_d_no_bar: "CHR ''|'' \<notin> set (fmt_d n)"
proof
  assume "CHR ''|'' \<in> set (fmt_d n)"
  then obtain d where "d < 10" and d: "CHR ''|'' = digit_char d"
    using set_to_base [of 10] by (auto simp: fmt_d_def)
  then have "(of_char (CHR ''|'') :: nat) \<le> 102" using digit_char_range [of d] by simp
  then show False by simp
qed

lemma key_split:
  assumes "CHR ''|'' \<notin> set t1" and "CHR ''|'' \<notin> set t2"
    and "t1 @ ''|'' @ fmt_d d1 @ ''|'' @ fmt_d n1 @ ''|'' @ h1 = t2 @ ''|'' @ fmt_d d2 @ ''|'' @ fmt_d n2 @ ''|'' @ h2"
  shows "t1 = t2 \<and> d1 = d2 \<and> n1 = n2 \<and> h1 = h2"
proof -
  from append_eq_sep [of t1 "CHR ''|''" _ t2] assms have t: "t1 = t2"
    and rest: "fmt_d d1 @ ''|'' @ fmt_d n1 @ ''|'' @ h1 = fmt_d d2 @ ''|'' @ fmt_d n2 @ ''|'' @ h2" by simp_all
  from append_eq_sep [of "fmt_d d1" "CHR ''|''" _ "fmt_d d2"] rest have d: "fmt_d d1 = fmt_d d2"
    and rest': "fmt_d n1 @ ''|'' @ h1 = fmt_d n2 @ ''|'' @ h2" by (simp_all add: fmt_d_no_bar)
  from append_eq_sep [of "fmt_d n1" "CHR ''|''" _ "fmt_d n2"] rest' have "fmt_d n1 = fmt_d n2"
    and "h1 = h2" by (simp_all add: fmt_d_no_bar)
  with t d show ?thesis by (simp add: fmt_d_inj)
qed

lemma foldl_foldl_concat: "foldl (foldl f) a xss = foldl f a (concat xss)"
  by (induction xss arbitrary: a) auto

lemma simpleHash_concat: "concat ps = concat qs \<Longrightarrow> simpleHash ps = simpleHash qs"
  by (simp add: simpleHash_def foldl_foldl_concat)

lemma Evaluate_is_decide:
  assumes "cacheTTL c \<le> 0"
  shows "fst (Evaluate ForName Post st t1 t2 info c m) = decide ForName Post st c info \<and>
    fst (snd (Evaluate ForName Post st t1 t2 info c m)) = c"
proof (cases "schema_refusal ForName c info")
  case (Some reason)
  then show ?thesis by (simp add: schema_refusal_Some decide_def)
next
  case None
  have miss: "cache_lookup c (decisionCacheKey info) t1 = None" using assms by (simp add: cache_lookup_def)
  show ?thesis
    by (cases "opa_Evaluate Post (opa c) (BuildInput info st)")
      (use assms None miss in \<open>simp_all add: schema_refusal_None decide_def Evaluate_policy_error
         Evaluate_policy_answer cache_store_def\<close>)
qed

text \<open>Enforcing, the decision is what the evaluator's contract calls enforced.\<close>

lemma decide_enforced:
  "schema_refusal ForName c info = None \<Longrightarrow> \<not> opaAuditOnly c \<Longrightarrow>
   Allowed (decide ForName Post st c info) \<longleftrightarrow> opa.enforced Post (opa c) (opaFailClosed c) (BuildInput info st)"
  unfolding opa.enforced_def
  by (auto simp: decide_def effective_def unavailable_result_def allow_result_def split: sum.splits)

lemma decide_granted:
  assumes "Allowed (decide ForName Post st c info)" and "opaFailClosed c" and "\<not> opaAuditOnly c"
  shows "schema_refusal ForName c info = None \<and> opa_grants Post (opa c) (BuildInput info st)"
proof -
  have none: "schema_refusal ForName c info = None"
    using assms(1) by (auto simp: decide_def split: option.splits)
  with assms have "opa.enforced Post (opa c) True (BuildInput info st)" by (simp add: decide_enforced)
  with none show ?thesis by (simp add: opa.enforced_closed)
qed

section \<open>A concrete policy\<close>

text \<open>It refuses tenant \<open>b\<close> and grants everything else.\<close>

definition tenant_policy :: prepared_query where
  "tenant_policy g = (case g of
     GObj ms \<Rightarrow> Some [[GBool (map_of ms ''tenant_id'' \<noteq> Some (GStr ''b''))]]
   | _ \<Rightarrow> None)"

definition demo_composite :: "duration \<Rightarrow> bool \<Rightarrow> compositeEvaluator" where
  "demo_composite ttl auditOnly =
     \<lparr>opa = Embedded \<lparr>prepared = Some tenant_policy, preparedDeny = Some (\<lambda>_. Some [[GArr [GStr ''tenant blocked'']]]),
                     store = 0, policy = ''package graphql''\<rparr>,
      opaStore = Some 0, schema = None, cacheTTL = ttl, cache = None, opaFailClosed = True, opaAuditOnly = auditOnly\<rparr>"

definition no_post :: http_post where
  "no_post = (\<lambda>_ _. None)"

definition demo_request :: "string \<Rightarrow> instant \<Rightarrow> eval_request" where
  "demo_request t now = \<lparr>rq_info = tenant_info t, rq_store = None, rq_post = no_post, rq_t1 = now, rq_t2 = now\<rparr>"

lemma tenant_policy_input:
  "tenant_policy (Input_json i) = Some [[GBool (in_TenantID i \<noteq> ''b'')]]"
  by (simp add: tenant_policy_def Input_json_def Input_members_def del: map_of_append)

lemma demo_composite_opa:
  "opa_Evaluate Post (opa (demo_composite ttl auditOnly)) i =
     Inr (if in_TenantID i = ''b'' then \<lparr>Allowed = False, Reason = ''tenant blocked''\<rparr> else allow_result)"
  by (simp add: demo_composite_def embedded_Evaluate_def tenant_policy_input first_expression_def
      first_denial_def allow_result_def split: bool.split)

lemma demo_composite_fields [simp]:
  "cacheTTL (demo_composite ttl a) = ttl" "cache (demo_composite ttl a) = None"
  "opaFailClosed (demo_composite ttl a)" "opaAuditOnly (demo_composite ttl a) = a"
  "schema (demo_composite ttl a) = None"
  by (simp_all add: demo_composite_def)

lemma demo_lookup [simp]: "cache_lookup (demo_composite ttl a) k now = None"
  by (simp add: cache_lookup_def)

lemma demo_refusal [simp]: "schema_refusal ForName (demo_composite ttl a) i = None"
  by (simp add: schema_refusal_def)

lemma demo_decides:
  "decides ForName (demo_composite ttl a) (demo_request t now) =
     effective a (if t = ''b'' then \<lparr>Allowed = False, Reason = ''tenant blocked''\<rparr> else allow_result)"
  by (simp add: decides_def decide_def demo_composite_opa demo_request_def BuildInput_def tenant_info_def)

section \<open>Properties\<close>

text \<open>
  Every answer of the evaluator is accounted for, whatever sequence of requests it gets and
  however store, policy and clock behave in between: it is the decision for the very request
  (schema refusal, policy answer with audit mode applied, or the fail-open or fail-closed default),
  or the decision that the policy gave to an earlier request with the same cache key less than the
  time-to-live ago. Errors and refusals by the schema are never cached, and an expired entry
  is never served.
\<close>

theorem cached_answers_justified:
  assumes "cache c = None" and "i < length qs"
  shows "fst (run_evals ForName qs c m) ! i = decides ForName c (qs ! i) \<or>
    (\<exists>j < i. reuses ForName c (qs ! j) (qs ! i) \<and>
       fst (run_evals ForName qs c m) ! i = decides ForName c (qs ! j))"
  using assms by (rule run_justified_index)

theorem cached_answers_justified_witness:
  "Allowed (fst (run_evals find_field [demo_request ''a'' 0, demo_request ''b'' 100] (demo_composite 60 False) zero_Metrics) ! 1)
   = False"
  using cached_answers_justified [of "demo_composite 60 False" 1 "[demo_request ''a'' 0, demo_request ''b'' 100]"
      find_field zero_Metrics]
    demo_decides [of find_field 60 False "''b''" 100]
  by (auto simp: effective_def reuses_def demo_request_def)

text \<open>
  With the cache switched off (a time-to-live of zero or less) the evaluator is exactly its
  specification: the answer is \<open>decide\<close> and nothing is remembered.
\<close>

theorem Evaluate_uncached:
  assumes "cacheTTL c \<le> 0"
  shows "fst (Evaluate ForName Post st t1 t2 info c m) = decide ForName Post st c info \<and>
    fst (snd (Evaluate ForName Post st t1 t2 info c m)) = c"
  using assms by (rule Evaluate_is_decide)

theorem Evaluate_uncached_witness:
  "fst (Evaluate find_field no_post None 0 0 (tenant_info ''b'') (demo_composite 0 False) zero_Metrics) =
     \<lparr>Allowed = False, Reason = ''tenant blocked''\<rparr>"
  using Evaluate_uncached [of "demo_composite 0 False" find_field no_post None 0 0 "tenant_info ''b''" zero_Metrics]
  by (simp add: decide_def demo_composite_opa BuildInput_def tenant_info_def effective_def)

text \<open>
  Fail-closed and enforcing, nothing passes that the policy did not grant: whenever an answer of
  a run allows a query, the query conforms to the schema and the policy granted it, or granted an
  earlier query with the same cache key within the time-to-live.
\<close>

theorem allowed_was_granted:
  assumes "cache c = None" and "opaFailClosed c" and "\<not> opaAuditOnly c" and "i < length qs"
    and "Allowed (fst (run_evals ForName qs c m) ! i)"
  shows "schema_refusal ForName c (rq_info (qs ! i)) = None \<and>
    (\<exists>j \<le> i. decisionCacheKey (rq_info (qs ! i)) = decisionCacheKey (rq_info (qs ! j)) \<and>
       (j = i \<or> rq_t1 (qs ! i) < rq_t2 (qs ! j) + cacheTTL c) \<and>
       opa_grants (rq_post (qs ! j)) (opa c) (BuildInput (rq_info (qs ! j)) (rq_store (qs ! j))))"
proof -
  have granted: "schema_refusal ForName c (rq_info q) = None \<and>
      opa_grants (rq_post q) (opa c) (BuildInput (rq_info q) (rq_store q))"
    if "Allowed (decides ForName c q)" for q
    using that assms(2,3) unfolding decides_def by (rule decide_granted)
  from run_justified_index [OF assms(1,4), of ForName m] show ?thesis
  proof
    assume "fst (run_evals ForName qs c m) ! i = decides ForName c (qs ! i)"
    with granted [of "qs ! i"] assms(5) show ?thesis by auto
  next
    assume "\<exists>j < i. reuses ForName c (qs ! j) (qs ! i) \<and>
       fst (run_evals ForName qs c m) ! i = decides ForName c (qs ! j)"
    then obtain j where "j < i" "reuses ForName c (qs ! j) (qs ! i)" "Allowed (decides ForName c (qs ! j))"
      using assms(5) by auto
    with granted [of "qs ! j"] show ?thesis by (auto simp: reuses_def intro!: exI [of _ j])
  qed
qed

theorem allowed_was_granted_witness:
  "opa_grants no_post (opa (demo_composite 0 False)) (BuildInput (tenant_info ''a'') None)"
proof -
  have "Allowed (fst (run_evals find_field [demo_request ''a'' 0] (demo_composite 0 False) zero_Metrics) ! 0)"
    by (simp add: run_evals_Cons Let_def schema_refusal_None Evaluate_policy_answer demo_composite_opa
        demo_request_def BuildInput_def tenant_info_def effective_def allow_result_def)
  from allowed_was_granted [OF _ _ _ _ this] show ?thesis by (simp add: demo_request_def)
qed

text \<open>
  C36: in audit-only mode the policy never blocks: a refusal comes from the schema, or from an
  unavailable policy in fail-closed mode.
\<close>

theorem audit_only_blocks:
  assumes "opaAuditOnly c" and "\<not> Allowed (fst (Evaluate ForName Post st t1 t2 info c m))"
  shows "schema_refusal ForName c info \<noteq> None \<or>
    (opaFailClosed c \<and> (\<exists>err. opa_Evaluate Post (opa c) (BuildInput info st) = Inl err))"
proof (rule ccontr)
  assume "\<not> ?thesis"
  then have none: "schema_refusal ForName c info = None"
    and avail: "opaFailClosed c \<Longrightarrow> \<nexists>err. opa_Evaluate Post (opa c) (BuildInput info st) = Inl err" by auto
  have eff: "Allowed (effective True r)" for r by (simp add: effective_def allow_result_def)
  show False
  proof (cases "cache_lookup c (decisionCacheKey info) t1")
    case (Some d)
    then show False using assms none eff by (simp add: schema_refusal_None Evaluate_policy_hit)
  next
    case None
    then show False
      using assms none eff avail
      by (cases "opa_Evaluate Post (opa c) (BuildInput info st)")
        (auto simp: schema_refusal_None Evaluate_policy_error Evaluate_policy_answer allow_result_def split: if_splits)
  qed
qed

theorem audit_only_blocks_witness:
  "\<exists>err. opa_Evaluate no_post (Sidecar demo_client) (BuildInput (tenant_info ''b'') None) = Inl err"
proof -
  let ?c = "(demo_composite 60 True)\<lparr>opa := Sidecar demo_client\<rparr>"
  have "cache_lookup ?c k 0 = None" and s: "schema_refusal find_field ?c i = None" for k i
    by (simp_all add: cache_lookup_def schema_refusal_def)
  then have "\<not> Allowed (fst (Evaluate find_field no_post None 0 0 (tenant_info ''b'') ?c zero_Metrics))"
    by (simp add: schema_refusal_None Evaluate_policy_error [where err = CallingOPA] sidecar_Evaluate_def no_post_def
        demo_client_def NewSidecar_def unavailable_result_def)
  from audit_only_blocks [OF _ this] s show ?thesis by simp
qed

text \<open>
  The cache key tells two queries apart by operation type, depth, field count and the 64-bit
  FNV hash of their concatenated paths, and by nothing else.
\<close>

theorem decisionCacheKey_iff:
  assumes "CHR ''|'' \<notin> set (OperationType i)" and "CHR ''|'' \<notin> set (OperationType j)"
  shows "decisionCacheKey i = decisionCacheKey j \<longleftrightarrow>
    OperationType i = OperationType j \<and> Depth i = Depth j \<and> FieldCount i = FieldCount j \<and>
    foldl fnv_step 14695981039346656037 (concat (FieldPaths i)) =
    foldl fnv_step 14695981039346656037 (concat (FieldPaths j))"
    (is "?key \<longleftrightarrow> ?same")
proof
  assume ?key
  from key_split [OF assms this [unfolded decisionCacheKey_def]] show ?same
    by (simp add: simpleHash_def foldl_foldl_concat fmt_08x_inj)
qed (simp add: decisionCacheKey_def simpleHash_def foldl_foldl_concat)

theorem decisionCacheKey_iff_witness:
  "decisionCacheKey (tenant_info ''a'') = decisionCacheKey (tenant_info ''b'') \<and>
   decisionCacheKey (tenant_info ''a'') \<noteq> decisionCacheKey ((tenant_info ''a'')\<lparr>Depth := 7\<rparr>)"
  using decisionCacheKey_iff [of "tenant_info ''a''" "tenant_info ''b''"]
    decisionCacheKey_iff [of "tenant_info ''a''" "(tenant_info ''a'')\<lparr>Depth := 7\<rparr>"]
  by (simp add: tenant_info_def zero_QueryInfo_def)

text \<open>
  The paths are hashed without a separator, so a harmless query and one that asks for the schema can share a key.
\<close>

lemma introspection_shares_key:
  "decisionCacheKey (i\<lparr>FieldPaths := [''a_'', ''_schema'']\<rparr>) = decisionCacheKey (i\<lparr>FieldPaths := [''a'', ''__schema'']\<rparr>)"
  using simpleHash_concat [of "[''a_'', ''_schema'']" "[''a'', ''__schema'']"] by (simp add: decisionCacheKey_def)

text \<open>
  C39: a decision made for one tenant is served to another: once the policy has answered a query, a
  query of the same operation type, depth, field count and concatenated paths gets that answer
  until the entry expires, without the policy being asked, whatever its tenant, its variables,
  its arguments, its directives and its operation name are, whatever the data store holds by
  then, and whatever the policy would say.
\<close>

theorem cached_decision_crosses_tenants:
  assumes "0 < cacheTTL c" and "schema c = None"
    and "cache_lookup c (decisionCacheKey i) t1 = None"
    and "opa_Evaluate Post (opa c) (BuildInput i st) = Inr r"
    and "Evaluate ForName Post st t1 t2 i c m = (r', c', m')"
    and "OperationType j = OperationType i" and "Depth j = Depth i" and "FieldCount j = FieldCount i"
    and "concat (FieldPaths j) = concat (FieldPaths i)" and "t3 < t2 + cacheTTL c"
  shows "fst (Evaluate ForName Post' st' t3 t4 j c' m') = effective (opaAuditOnly c) r \<and>
    OPARequests (snd (snd (Evaluate ForName Post' st' t3 t4 j c' m'))) = Inc ''cache_hit'' (OPARequests m')"
proof -
  have key: "decisionCacheKey j = decisionCacheKey i"
    using assms simpleHash_concat [of "FieldPaths j" "FieldPaths i"] by (simp add: decisionCacheKey_def)
  have none: "schema_refusal ForName c k = None" for k using assms(2) by (simp add: schema_refusal_def)
  let ?e = "effective (opaAuditOnly c) r"
  have c': "c' = cache_store (decisionCacheKey i) ?e t2 c"
    using assms(3,4,5) none by (auto simp: schema_refusal_None Evaluate_policy_answer)
  then have "cache_lookup c' (decisionCacheKey j) t3 = Some \<lparr>result = ?e, expiry = t2 + cacheTTL c\<rparr>"
    and "schema_refusal ForName c' j = None" and "opaAuditOnly c' = opaAuditOnly c"
    using assms(1,10) key none by (simp_all add: cache_lookup_def cache_store_def schema_refusal_def)
  then show ?thesis
    by (simp add: schema_refusal_None Evaluate_policy_hit serve_cached_def Let_def frame_simps)
qed

theorem cached_decision_crosses_tenants_witness:
  "\<not> Allowed (decide find_field no_post None (demo_composite 60 False) (tenant_info ''b'')) \<and>
   (\<exists>r c m. Evaluate find_field no_post None 0 0 (tenant_info ''a'') (demo_composite 60 False) zero_Metrics = (r, c, m) \<and>
      Allowed (fst (Evaluate find_field no_post None 5 5 (tenant_info ''b'') c m)))"
proof -
  obtain r c m where e: "Evaluate find_field no_post None 0 0 (tenant_info ''a'') (demo_composite 60 False) zero_Metrics = (r, c, m)"
    by (metis prod_cases3)
  have "Allowed (fst (Evaluate find_field no_post None 5 5 (tenant_info ''b'') c m))"
    using cached_decision_crosses_tenants [OF _ _ _ demo_composite_opa e, of "tenant_info ''b''" 5 no_post None 5]
    by (simp add: tenant_info_def zero_QueryInfo_def BuildInput_def effective_def allow_result_def)
  moreover have "\<not> Allowed (decide find_field no_post None (demo_composite 60 False) (tenant_info ''b''))"
    by (simp add: decide_def demo_composite_opa BuildInput_def tenant_info_def effective_def)
  ultimately show ?thesis using e by blast
qed

end
