(* ===== verification/Proxy_Handler.thy ===== *)
theory Proxy_Handler
  imports Go_Http Go_Json Query_Analysis Composite_Evaluator
begin

text \<open>
  \<open>internal/proxy/proxy.go\<close>: the handler that inspects GraphQL requests. The evaluator behind the
  Go interface \<open>proxy.Evaluator\<close> is an argument \<open>eval\<close> that maps a query to a reply and
  updates its own state and the metrics; it may return a result or an error, or panic. What else
  a request meets is in an environment: the query parser (\<open>parser.Parse\<close> on top of
  \<open>gqlparser\<close>), the queries on which it panics, whether the parse timer fires first, and the time
  the request took.

  A handler returns its outcome, or \<open>None\<close> for a panic of its own goroutine, which \<open>ServeHTTP\<close> turns
  into a response. The parser runs in another goroutine, out of reach of that recovery: its panic is the outcome
  \<open>Crash\<close>, the end of the process.
\<close>

section \<open>Messages\<close>

definition sanitizeError :: "string \<Rightarrow> string" where
  "sanitizeError context =
     (if context = ''body'' then ''invalid request body''
      else if context = ''json'' then ''invalid JSON in request''
      else if context = ''query'' then ''invalid GraphQL query''
      else if context = ''eval'' then ''rule evaluation error''
      else ''request processing error'')"

definition sanitizeReason :: "string \<Rightarrow> string" where
  "sanitizeReason reason = concat (map encode_rune (filter (\<lambda>r. 32 \<le> r \<and> r \<le> 126) (runes reason)))"

definition error_body :: "string \<Rightarrow> string" where
  "error_body msg = ''{\"error\": '' @ fmt_q msg @ ''}''"

definition blocked_body :: "string \<Rightarrow> string" where
  "blocked_body reason = ''{\"error\": \"request blocked\", \"reason\": '' @ fmt_q reason @ ''}''"

definition setSecurityHeaders :: "header_map \<Rightarrow> header_map" where
  "setSecurityHeaders h = Header_Set ''X-Frame-Options'' ''DENY'' (Header_Set ''X-Content-Type-Options'' ''nosniff'' h)"

section \<open>Request bodies\<close>

record graphQLBody =
  Query :: string
  gb_OperationName :: string
  Variables :: string
  Extensions :: string

definition zero_graphQLBody :: graphQLBody where
  "zero_graphQLBody = \<lparr>Query = [], gb_OperationName = [], Variables = [], Extensions = []\<rparr>"

text \<open>\<open>strict\<close> is \<open>DisallowUnknownFields\<close>; a raw message takes the text of its value.\<close>

definition decode_body_member :: "bool \<Rightarrow> string \<Rightarrow> string \<Rightarrow> json \<Rightarrow> graphQLBody \<Rightarrow> graphQLBody option" where
  "decode_body_member strict k raw v b =
     (if is_field ''query'' k then map_option (\<lambda>s. b\<lparr>Query := s\<rparr>) (decode_string v (Query b))
      else if is_field ''operationName'' k then
        map_option (\<lambda>s. b\<lparr>gb_OperationName := s\<rparr>) (decode_string v (gb_OperationName b))
      else if is_field ''variables'' k then Some (b\<lparr>Variables := raw\<rparr>)
      else if is_field ''extensions'' k then Some (b\<lparr>Extensions := raw\<rparr>)
      else if strict then None else Some b)"

definition decode_body :: "bool \<Rightarrow> json \<Rightarrow> graphQLBody option" where
  "decode_body strict v = decode_struct (decode_body_member strict) v zero_graphQLBody"

fun decode_batch_items :: "json list \<Rightarrow> graphQLBody list option" where
  "decode_batch_items [] = Some []"
| "decode_batch_items (v # vs) =
     Option.bind (decode_body False v) (\<lambda>b. map_option ((#) b) (decode_batch_items vs))"

definition unmarshal_batch :: "string \<Rightarrow> graphQLBody list option" where
  "unmarshal_batch s =
     Option.bind (json_whole s) (\<lambda>v. case v of JArr vs \<Rightarrow> decode_batch_items vs | JNull \<Rightarrow> Some [] | _ \<Rightarrow> None)"

text \<open>\<open>json.Marshal\<close> of a body; invalid raw text is an error, and the caller then goes on with no bytes.\<close>

definition marshal_body :: "graphQLBody \<Rightarrow> string option" where
  "marshal_body b =
     (let raw = (\<lambda>k s. if s = [] then Some [] else map_option (\<lambda>t. '','' @ json_string k @ '':'' @ t) (json_compact s)) in
      Option.bind (raw ''variables'' (Variables b)) (\<lambda>vs.
      Option.bind (raw ''extensions'' (Extensions b)) (\<lambda>es.
        Some (''{'' @ json_string ''query'' @ '':'' @ json_string (Query b) @
              (if gb_OperationName b = [] then []
               else '','' @ json_string ''operationName'' @ '':'' @ json_string (gb_OperationName b)) @
              vs @ es @ ''}''))))"

section \<open>The handler\<close>

record Handler =
  upstream :: url
  MaxBodyBytes :: int
  ParseTimeout :: duration
  disablePanicRecovery :: bool

datatype eval_reply = Returned Result | EvalFailed | EvalPanics

type_synonym 's evaluator = "QueryInfo \<Rightarrow> 's \<times> Metrics \<Rightarrow> eval_reply \<times> 's \<times> Metrics"

record environment =
  parse_query :: "string \<Rightarrow> (parse_error + QueryInfo) option"
  parse_panics :: "string \<Rightarrow> bool"
  parse_late :: "string \<Rightarrow> duration \<Rightarrow> bool"
  elapsed :: duration

definition DefaultMaxBodyBytes :: int where
  "DefaultMaxBodyBytes = 1 * 1024 * 1024"

definition DefaultParseTimeout :: duration where
  "DefaultParseTimeout = 5 * 1000000000"

datatype new_error = UrlParse | NoSchemeOrHost | BadScheme string

definition New :: "(string \<Rightarrow> url option) \<Rightarrow> string \<Rightarrow> new_error + Handler" where
  "New parse_url upstreamURL =
     (case parse_url upstreamURL of
        None \<Rightarrow> Inl UrlParse
      | Some u \<Rightarrow>
          if Scheme u = [] \<or> url_Host u = [] then Inl NoSchemeOrHost
          else if Scheme u \<noteq> ''http'' \<and> Scheme u \<noteq> ''https'' then Inl (BadScheme (Scheme u))
          else Inr \<lparr>upstream = u, MaxBodyBytes = DefaultMaxBodyBytes, ParseTimeout = DefaultParseTimeout,
                    disablePanicRecovery = False\<rparr>)"

text \<open>\<open>None\<close> is the panic.\<close>

definition MustNew :: "(string \<Rightarrow> url option) \<Rightarrow> string \<Rightarrow> Handler option" where
  "MustNew parse_url upstreamURL = (case New parse_url upstreamURL of Inl e \<Rightarrow> None | Inr h \<Rightarrow> Some h)"

definition host_fixed_director :: "url \<Rightarrow> http_request \<Rightarrow> http_request" where
  "host_fixed_director target r =
     (let r' = single_host_director target r in r'\<lparr>Host := url_Host (URL r')\<rparr>)"

definition forward :: "Handler \<Rightarrow> header_map \<Rightarrow> http_request \<Rightarrow> outcome" where
  "forward h hdrs r = Forward hdrs (host_fixed_director (upstream h) r)"

definition isGraphQLPath :: "string \<Rightarrow> bool" where
  "isGraphQLPath path \<longleftrightarrow> HasSuffix (ToLower path) ''/graphql''"

definition hasJSONContentType :: "header_map \<Rightarrow> bool" where
  "hasJSONContentType h =
     (let ct = Header_Get h ''Content-Type'' in
      if \<not> HasPrefix ct ''application/json'' then False
      else if length ''application/json'' < length ct then
        (let next = ct ! length ''application/json'' in next = CHR '';'' \<or> next = CHR '' '')
      else True)"

text \<open>\<open>range len(s)\<close> over the bytes.\<close>

fun hasLeadingContent :: "string \<Rightarrow> bool" where
  "hasLeadingContent [] = False"
| "hasLeadingContent (c # cs) = (if c \<noteq> CHR ''_'' \<and> c \<noteq> CHR '' '' then True else hasLeadingContent cs)"

text \<open>The loop runs \<open>i\<close> down from the end; the argument is \<open>i + 1\<close>.\<close>

fun extractTenantID_loop :: "string \<Rightarrow> nat \<Rightarrow> string" where
  "extractTenantID_loop apiKey 0 = apiKey"
| "extractTenantID_loop apiKey (Suc i) =
     (if apiKey ! i = CHR ''_'' \<and> hasLeadingContent (take i apiKey) \<and> i < length apiKey - 1 then take i apiKey
      else extractTenantID_loop apiKey i)"

definition extractTenantID :: "string \<Rightarrow> string" where
  "extractTenantID apiKey = (if apiKey = [] then [] else extractTenantID_loop apiKey (length apiKey))"

text \<open>
  The parser's channel against the timer; a parse that does not return leaves only the timer. A panic of the
  parser ends the process, at once or, when the timer has fired first, after the caller has gone on.
\<close>

datatype parse_reply = Parsed QueryInfo | Unparsed | ParserPanics

definition parseQueryWithTimeout :: "environment \<Rightarrow> string \<Rightarrow> duration \<Rightarrow> parse_reply" where
  "parseQueryWithTimeout env query timeout =
     (if parse_panics env query then (if parse_late env query timeout then Unparsed else ParserPanics)
      else case parse_query env query of
        None \<Rightarrow> Unparsed
      | Some res \<Rightarrow>
          if parse_late env query timeout then Unparsed
          else (case res of Inl e \<Rightarrow> Unparsed | Inr info \<Rightarrow> Parsed info))"

type_synonym 's handled = "outcome option \<times> 's \<times> Metrics"

text \<open>An error response together with its entry in the metrics.\<close>

definition fail_with :: "environment \<Rightarrow> string \<Rightarrow> string \<Rightarrow> nat \<Rightarrow> 's \<times> Metrics \<Rightarrow> 's handled" where
  "fail_with env msg opType code sm =
     (Some (Respond (http_Error [] msg code)), fst sm, RecordRequest ''error'' opType (elapsed env) (snd sm))"

definition block_with :: "environment \<Rightarrow> string \<Rightarrow> string \<Rightarrow> 's \<times> Metrics \<Rightarrow> 's handled" where
  "block_with env opType reason sm =
     (Some (Respond \<lparr>Status = 403,
              resp_Header = setSecurityHeaders (Header_Set ''Content-Type'' ''application/json'' []),
              resp_Body = blocked_body (sanitizeReason reason)\<rparr>),
      fst sm, RecordRequest ''blocked'' opType (elapsed env) (RecordBlock reason (snd sm)))"

definition pass_with :: "environment \<Rightarrow> Handler \<Rightarrow> string \<Rightarrow> http_request \<Rightarrow> string \<Rightarrow> 's \<times> Metrics \<Rightarrow> 's handled" where
  "pass_with env h opType r bodyBytes sm =
     (Some (forward h (setSecurityHeaders []) (r\<lparr>Body := bodyBytes, BodyFails := False\<rparr>)),
      fst sm, RecordRequest ''allowed'' opType (elapsed env) (snd sm))"

definition evaluateAndForward ::
  "'s evaluator \<Rightarrow> environment \<Rightarrow> Handler \<Rightarrow> http_request \<Rightarrow> string \<Rightarrow> QueryInfo \<Rightarrow> 's \<times> Metrics \<Rightarrow> 's handled"
  where
    "evaluateAndForward eval env h r bodyBytes queryInfo sm =
       (let apiKey = Header_Get (Header r) ''X-API-Key'';
            info = (if apiKey \<noteq> [] then queryInfo\<lparr>TenantID := extractTenantID apiKey\<rparr> else queryInfo);
            sm1 = (fst sm, RecordRuleEval (''op_'' @ OperationType info) (snd sm))
        in case eval info sm1 of
             (EvalPanics, sm2) \<Rightarrow> (None, sm2)
           | (EvalFailed, sm2) \<Rightarrow> fail_with env (error_body (sanitizeError ''eval'')) (OperationType info) 500 sm2
           | (Returned res, sm2) \<Rightarrow>
               if \<not> Allowed res then block_with env (OperationType info) (Reason res) sm2
               else pass_with env h (OperationType info) r bodyBytes sm2)"

fun batch_loop ::
  "'s evaluator \<Rightarrow> environment \<Rightarrow> Handler \<Rightarrow> http_request \<Rightarrow> string \<Rightarrow> nat \<Rightarrow> string \<Rightarrow> graphQLBody list \<Rightarrow>
     's \<times> Metrics \<Rightarrow> 's handled"
  where
    "batch_loop eval env h r bodyBytes i firstOpType [] sm = pass_with env h firstOpType r bodyBytes sm"
  | "batch_loop eval env h r bodyBytes i firstOpType (req # reqs) sm =
       (if Query req = [] then
          fail_with env (''{\"error\": \"batch item '' @ fmt_d i @ '' has empty query\"}'') ''unknown'' 400 sm
        else case parseQueryWithTimeout env (Query req) (ParseTimeout h) of
          ParserPanics \<Rightarrow> (Some Crash, sm)
        | Unparsed \<Rightarrow>
            fail_with env (''{\"error\": \"invalid GraphQL query at batch index '' @ fmt_d i @ ''\"}'') ''unknown'' 400 sm
        | Parsed parsed \<Rightarrow>
            (let queryInfo = (if Variables req \<noteq> [] then parsed\<lparr>RequestVariables := Variables req\<rparr> else parsed);
                 first = (if i = 0 then OperationType queryInfo else firstOpType)
             in case eval queryInfo sm of
                  (EvalPanics, sm1) \<Rightarrow> (None, sm1)
                | (EvalFailed, sm1) \<Rightarrow>
                    fail_with env (error_body (sanitizeError ''eval'')) (OperationType queryInfo) 500 sm1
                | (Returned res, sm1) \<Rightarrow>
                    if \<not> Allowed res then block_with env (OperationType queryInfo) (Reason res) sm1
                    else batch_loop eval env h r bodyBytes (Suc i) first reqs sm1))"

definition handleGraphQLBatch ::
  "'s evaluator \<Rightarrow> environment \<Rightarrow> Handler \<Rightarrow> http_request \<Rightarrow> string \<Rightarrow> 's \<times> Metrics \<Rightarrow> 's handled"
  where
    "handleGraphQLBatch eval env h r bodyBytes sm =
       (case unmarshal_batch bodyBytes of
          None \<Rightarrow> fail_with env (error_body (sanitizeError ''json'')) ''unknown'' 400 sm
        | Some batch \<Rightarrow>
            if batch = [] then fail_with env (error_body (sanitizeError ''query'')) ''unknown'' 400 sm
            else batch_loop eval env h r bodyBytes 0 ''unknown'' batch sm)"

definition handleGraphQLSingle ::
  "'s evaluator \<Rightarrow> environment \<Rightarrow> Handler \<Rightarrow> http_request \<Rightarrow> string \<Rightarrow> 's \<times> Metrics \<Rightarrow> 's handled"
  where
    "handleGraphQLSingle eval env h r bodyBytes sm =
       (case Option.bind (json_prefix bodyBytes) (\<lambda>(v, rest). map_option (\<lambda>b. (b, rest)) (decode_body True v)) of
          None \<Rightarrow> fail_with env (error_body (sanitizeError ''json'')) ''unknown'' 400 sm
        | Some (gqlReq, rest) \<Rightarrow>
            if decoder_More rest then fail_with env (error_body (sanitizeError ''json'')) ''unknown'' 400 sm
            else if Query gqlReq = [] then fail_with env (error_body (sanitizeError ''query'')) ''unknown'' 400 sm
            else (case parseQueryWithTimeout env (Query gqlReq) (ParseTimeout h) of
                    ParserPanics \<Rightarrow> (Some Crash, sm)
                  | Unparsed \<Rightarrow> fail_with env (error_body (sanitizeError ''query'')) ''unknown'' 400 sm
                  | Parsed parsed \<Rightarrow>
                      evaluateAndForward eval env h r bodyBytes
                        (if Variables gqlReq \<noteq> [] then parsed\<lparr>RequestVariables := Variables gqlReq\<rparr> else parsed) sm))"

definition is_batch :: "string \<Rightarrow> bool" where
  "is_batch bodyBytes =
     (case TrimLeft bodyBytes [CHR '' '', CHR 0x09, CHR 0x0D, CHR 0x0A] of [] \<Rightarrow> False | c # _ \<Rightarrow> c = CHR ''['')"

definition handleGraphQL ::
  "'s evaluator \<Rightarrow> environment \<Rightarrow> Handler \<Rightarrow> http_request \<Rightarrow> 's \<times> Metrics \<Rightarrow> 's handled"
  where
    "handleGraphQL eval env h r sm =
       (case read_limited (MaxBodyBytes h) r of
          Inl TooLarge \<Rightarrow> fail_with env (error_body (sanitizeError ''body'')) ''unknown'' 413 sm
        | Inl ReadFailed \<Rightarrow> fail_with env (error_body (sanitizeError ''body'')) ''unknown'' 400 sm
        | Inr bodyBytes \<Rightarrow>
            if is_batch bodyBytes then handleGraphQLBatch eval env h r bodyBytes sm
            else handleGraphQLSingle eval env h r bodyBytes sm)"

definition handleGraphQLGet ::
  "'s evaluator \<Rightarrow> environment \<Rightarrow> Handler \<Rightarrow> http_request \<Rightarrow> 's \<times> Metrics \<Rightarrow> 's handled"
  where
    "handleGraphQLGet eval env h r sm =
       (let query = Values_Get (URL_Query (URL r)) ''query'' in
        if query = [] then fail_with env (error_body (sanitizeError ''query'')) ''unknown'' 400 sm
        else case parseQueryWithTimeout env query (ParseTimeout h) of
          ParserPanics \<Rightarrow> (Some Crash, sm)
        | Unparsed \<Rightarrow> fail_with env (error_body (sanitizeError ''query'')) ''unknown'' 400 sm
        | Parsed parsed \<Rightarrow>
            (let varsParam = Values_Get (URL_Query (URL r)) ''variables'';
                 info = (if varsParam \<noteq> [] then parsed\<lparr>RequestVariables := varsParam\<rparr> else parsed);
                 forwardBody = (case marshal_body \<lparr>Query = query,
                                       gb_OperationName = Values_Get (URL_Query (URL r)) ''operationName'',
                                       Variables = RequestVariables info, Extensions = []\<rparr> of
                                  None \<Rightarrow> [] | Some bs \<Rightarrow> bs)
             in evaluateAndForward eval env h r forwardBody info sm))"

definition recoverPanic :: "Metrics \<Rightarrow> response \<times> Metrics" where
  "recoverPanic m =
     (http_Error [] ''{\"error\": \"internal server error\"}'' 500, RecordRequest ''error'' ''unknown'' 0 m)"

definition serve :: "'s evaluator \<Rightarrow> environment \<Rightarrow> Handler \<Rightarrow> http_request \<Rightarrow> 's \<times> Metrics \<Rightarrow> 's handled" where
  "serve eval env h r sm =
     (if isGraphQLPath (Path (URL r)) then
        (if Method r = ''POST'' then
           (if \<not> hasJSONContentType (Header r)
            then (Some (Respond (http_Error [] ''{\"error\": \"Content-Type must be application/json\"}'' 415)), sm)
            else handleGraphQL eval env h r sm)
         else if Method r = ''GET'' then handleGraphQLGet eval env h r sm
         else (Some (Respond (http_Error (Header_Set ''Allow'' ''GET, POST'' [])
                 ''{\"error\": \"method not allowed on GraphQL endpoint\"}'' 405)), sm))
      else (Some (forward h [] r), sm))"

definition ServeHTTP :: "'s evaluator \<Rightarrow> environment \<Rightarrow> Handler \<Rightarrow> http_request \<Rightarrow> 's \<times> Metrics \<Rightarrow> 's handled" where
  "ServeHTTP eval env h r sm =
     (case serve eval env h r sm of
        (Some out, sm1) \<Rightarrow> (Some out, sm1)
      | (None, (s, m)) \<Rightarrow>
          if disablePanicRecovery h then (None, (s, m))
          else (let (resp, m') = recoverPanic m in (Some (Respond resp), (s, m'))))"

end
