(* ===== verification/Handler_Messages.thy ===== *)
theory Handler_Messages
  imports Proxy_Handler
begin

text \<open>
  The texts the handler makes: messages that are quoted into JSON cannot break out of their string,
  whatever bytes a policy gives as its reason, and the tenant that is cut out of an API key.
\<close>

section \<open>Messages are safe to embed\<close>

definition printable :: "char \<Rightarrow> bool" where
  "printable c \<longleftrightarrow> 32 \<le> (of_char c :: nat) \<and> of_char c \<le> (126::nat)"

lemma encode_rune_ascii: "r \<le> 126 \<Longrightarrow> encode_rune r = [char_of r]"
  by (simp add: encode_rune_def encode_valid_def valid_rune_def is_surrogate_def)

lemma sanitizeReason_filter: "sanitizeReason s = filter printable s"
proof -
  have "concat (map encode_rune (filter (\<lambda>r. 32 \<le> r \<and> r \<le> 126) rs)) = map char_of (filter (\<lambda>r. 32 \<le> r \<and> r \<le> 126) rs)" for rs
    by (induction rs) (auto simp: encode_rune_ascii)
  then show ?thesis
    using filter_runes_ascii [of 126 32 s] by (simp add: sanitizeReason_def printable_def [abs_def])
qed

lemma q_escape_printable:
  "printable c \<Longrightarrow> q_escape c = (if c = CHR 0x22 \<or> c = CHR 0x5C then [CHR 0x5C, c] else [c])"
  by (simp add: q_escape_def printable_def Let_def)

lemma scan_str_quoted:
  "list_all printable s \<Longrightarrow> scan_str (concat (map q_escape s) @ CHR 0x22 # rest) = Some (concat (map q_escape s), rest)"
proof (induction s)
  case (Cons c s)
  then show ?case by (auto simp: q_escape_printable simple_escape_def printable_def)
qed simp

lemma unquote_quoted: "list_all printable s \<Longrightarrow> unquote (concat (map q_escape s)) = s"
proof (induction s)
  case (Cons c s)
  then show ?case
    by (auto simp: q_escape_printable printable_def unquote.simps(2) escape_value_def)
qed simp

lemma json_value_quoted:
  "list_all printable s \<Longrightarrow> json_value (Suc n) d (fmt_q s @ rest) = Some (JStr s, rest)"
  by (simp add: fmt_q_def scan_str_quoted unquote_quoted)

lemma fmt_q_Cons: "fmt_q s @ rest = CHR 0x22 # concat (map q_escape s) @ CHR 0x22 # rest"
  by (simp add: fmt_q_def)

lemma skip_ws_fmt_q [simp]: "skip_ws (fmt_q s @ rest) = fmt_q s @ rest"
  by (simp add: fmt_q_def skip_ws_def is_ws_def)

lemma json_members_last:
  assumes "list_all printable k" and "list_all printable s"
  shows "json_members (Suc (Suc n)) d (fmt_q k @ '': '' @ fmt_q s @ ''}'' @ rest) = Some ([(k, fmt_q s, JStr s)], rest)"
proof -
  have "expect (CHR 0x22) (fmt_q k @ '': '' @ fmt_q s @ ''}'' @ rest) = Some (concat (map q_escape k) @ CHR 0x22 # '': '' @ fmt_q s @ ''}'' @ rest)"
    by (simp add: fmt_q_def expect_def)
  moreover have "consumed (fmt_q s @ CHR ''}'' # rest) (CHR ''}'' # rest) = fmt_q s" by simp
  ultimately show ?thesis
    using assms by (simp add: scan_str_quoted unquote_quoted expect_def is_ws_def json_value_quoted Let_def del: json_value.simps)
qed

lemma json_members_more:
  assumes "list_all printable k" and "list_all printable s"
    and "json_members (Suc n) d (fmt_q k' @ tl') = Some (ms, rest)"
  shows "json_members (Suc (Suc n)) d (fmt_q k @ '': '' @ fmt_q s @ '', '' @ fmt_q k' @ tl') =
    Some ((k, fmt_q s, JStr s) # ms, rest)"
proof -
  have "expect (CHR 0x22) (fmt_q k @ '': '' @ fmt_q s @ '', '' @ fmt_q k' @ tl') =
      Some (concat (map q_escape k) @ CHR 0x22 # '': '' @ fmt_q s @ '', '' @ fmt_q k' @ tl')"
    by (simp add: fmt_q_def expect_def)
  moreover have "consumed (fmt_q s @ CHR '','' # CHR '' '' # fmt_q k' @ tl') (CHR '','' # CHR '' '' # fmt_q k' @ tl') = fmt_q s" by simp
  ultimately show ?thesis
    using assms
    by (simp add: scan_str_quoted unquote_quoted expect_def is_ws_def json_value_quoted Let_def
        json_members.simps(2) [of "Suc n"] del: json_value.simps json_members.simps)
qed

lemma blocked_body_parses:
  assumes "list_all printable s"
  shows "json_prefix (blocked_body s) =
    Some (JObj [(''error'', fmt_q ''request blocked'', JStr ''request blocked''), (''reason'', fmt_q s, JStr s)], [])"
proof -
  let ?b = "blocked_body s"
  let ?n = "2 * length ?b"
  have b: "?b = CHR 0x7B # fmt_q ''error'' @ '': '' @ fmt_q ''request blocked'' @ '', '' @ fmt_q ''reason'' @ '': '' @ fmt_q s @ ''}'' @ []"
    unfolding blocked_body_def by (simp add: fmt_q_def [of "''error''"] fmt_q_def [of "''request blocked''"]
        fmt_q_def [of "''reason''"] q_escape_def)
  have "json_members (Suc (Suc (Suc ?n))) 1
      (fmt_q ''error'' @ '': '' @ fmt_q ''request blocked'' @ '', '' @ fmt_q ''reason'' @ '': '' @ fmt_q s @ ''}'' @ []) =
      Some ([(''error'', fmt_q ''request blocked'', JStr ''request blocked''), (''reason'', fmt_q s, JStr s)], [])"
    by (intro json_members_more json_members_last) (simp_all add: printable_def assms)
  then have "json_value (Suc (Suc (Suc (Suc ?n)))) 0 (skip_ws ?b) =
    Some (JObj [(''error'', fmt_q ''request blocked'', JStr ''request blocked''), (''reason'', fmt_q s, JStr s)], [])"
    unfolding b by (simp add: is_ws_def max_nesting_def expect_def fmt_q_Cons del: json_members.simps append_assoc)
  with json_fuel_enough [of ?b "Suc (Suc (Suc (Suc ?n)))"] show ?thesis by simp
qed

section \<open>Tenants\<close>

definition tenant_cut :: "string \<Rightarrow> nat \<Rightarrow> bool" where
  "tenant_cut apiKey i \<longleftrightarrow> i < length apiKey - 1 \<and> apiKey ! i = CHR ''_'' \<and> hasLeadingContent (take i apiKey)"

lemma extract_loop:
  "n \<le> length apiKey \<Longrightarrow>
   (\<exists>i < n. tenant_cut apiKey i \<and> (\<forall>j < n. tenant_cut apiKey j \<longrightarrow> j \<le> i) \<and> extractTenantID_loop apiKey n = take i apiKey) \<or>
   ((\<forall>i < n. \<not> tenant_cut apiKey i) \<and> extractTenantID_loop apiKey n = apiKey)"
proof (induction n)
  case (Suc n)
  show ?case
  proof (cases "tenant_cut apiKey n")
    case True
    then show ?thesis by (intro disjI1 exI [of _ n]) (auto simp: tenant_cut_def)
  next
    case False
    then have "extractTenantID_loop apiKey (Suc n) = extractTenantID_loop apiKey n" by (auto simp: tenant_cut_def)
    with Suc False show ?thesis by (auto simp: less_Suc_eq)
  qed
qed simp

lemma hasLeadingContent_iff: "hasLeadingContent s \<longleftrightarrow> (\<exists>c \<in> set s. c \<noteq> CHR ''_'' \<and> c \<noteq> CHR '' '')"
  by (induction s) auto

text \<open>
  C29: the body of a refusal is always the JSON object with the two strings \<open>error\<close> and
  \<open>reason\<close>, and decoding it gives back exactly the reason with everything but printable ASCII
  removed: no reason a policy produces can break out of the string or add a header or line.
\<close>

theorem blocked_body_roundtrip:
  "json_whole (blocked_body (sanitizeReason reason)) =
     Some (JObj [(''error'', fmt_q ''request blocked'', JStr ''request blocked''),
                 (''reason'', fmt_q (sanitizeReason reason), JStr (sanitizeReason reason))]) \<and>
   sanitizeReason reason = filter (\<lambda>c. 32 \<le> (of_char c :: nat) \<and> of_char c \<le> (126::nat)) reason"
proof -
  have "sanitizeReason reason = filter printable reason" by (rule sanitizeReason_filter)
  moreover from this have "list_all printable (sanitizeReason reason)" by (simp add: list_all_iff)
  ultimately show ?thesis
    by (simp add: json_whole_def blocked_body_parses printable_def [abs_def])
qed

text \<open>
  C30: the tenant of an API key is what precedes the last underscore that has something after it and
  something other than underscores and spaces before it; a key without such an underscore is the
  tenant itself. So \<open>tenant_secret\<close> belongs to \<open>tenant\<close>, and no key yields an empty tenant.
\<close>

theorem extractTenantID_spec:
  "(\<forall>i. tenant_cut apiKey i \<and> (\<forall>j. tenant_cut apiKey j \<longrightarrow> j \<le> i) \<longrightarrow> extractTenantID apiKey = take i apiKey) \<and>
   ((\<nexists>i. tenant_cut apiKey i) \<longrightarrow> extractTenantID apiKey = apiKey) \<and>
   (apiKey \<noteq> [] \<longrightarrow> extractTenantID apiKey \<noteq> []) \<and>
   (hasLeadingContent tenant \<and> secret \<noteq> [] \<and> CHR ''_'' \<notin> set secret \<longrightarrow>
      extractTenantID (tenant @ ''_'' @ secret) = tenant)"
proof -
  have cut: "(\<exists>i. tenant_cut k i \<and> (\<forall>j. tenant_cut k j \<longrightarrow> j \<le> i) \<and> extractTenantID k = take i k) \<or>
      ((\<nexists>i. tenant_cut k i) \<and> extractTenantID k = k)" if "k \<noteq> []" for k
  proof -
    have "i < length k" if "tenant_cut k i" for i using that by (auto simp: tenant_cut_def)
    with extract_loop [of "length k" k] that show ?thesis unfolding extractTenantID_def by auto
  qed
  have empty: "\<not> tenant_cut [] i" for i by (simp add: tenant_cut_def)
  have "extractTenantID (tenant @ ''_'' @ secret) = tenant"
    if *: "hasLeadingContent tenant" "secret \<noteq> []" "CHR ''_'' \<notin> set secret"
  proof -
    let ?k = "tenant @ ''_'' @ secret"
    have c: "tenant_cut ?k (length tenant)" using * by (simp add: tenant_cut_def)
    have upper: "j \<le> length tenant" if "tenant_cut ?k j" for j
    proof (rule ccontr)
      assume "\<not> j \<le> length tenant"
      then obtain i where j: "j = Suc (length tenant + i)" by (metis less_iff_Suc_add not_le)
      with that have "i < length secret" and "secret ! i = CHR ''_''" by (auto simp: tenant_cut_def nth_append)
      with * show False by (metis nth_mem)
    qed
    from cut [of ?k] c obtain i where i: "tenant_cut ?k i" "\<forall>j. tenant_cut ?k j \<longrightarrow> j \<le> i"
      "extractTenantID ?k = take i ?k" by auto
    with upper [of i] c have "i = length tenant" by (meson le_antisym)
    with i(3) show ?thesis by simp
  qed
  moreover have "extractTenantID k \<noteq> []" if "k \<noteq> []" for k
    using cut [OF that] that by (auto simp: tenant_cut_def hasLeadingContent_iff)
  moreover have "extractTenantID apiKey = take i apiKey"
    if "tenant_cut apiKey i \<and> (\<forall>j. tenant_cut apiKey j \<longrightarrow> j \<le> i)" for i
    using cut [of apiKey] that empty by (metis le_antisym)
  moreover have "(\<nexists>i. tenant_cut apiKey i) \<longrightarrow> extractTenantID apiKey = apiKey"
    using cut [of apiKey] by (cases "apiKey = []") (auto simp: extractTenantID_def)
  ultimately show ?thesis by blast
qed

theorem extractTenantID_spec_witness: "extractTenantID ''acme_eu_s3cret'' = ''acme_eu''"
  using extractTenantID_spec [of "''acme_eu_s3cret''" "''acme_eu''" "''s3cret''"] by simp

end
