(* ===== verification/Handler_Forwarding.thy ===== *)
theory Handler_Forwarding
  imports Handler_Messages
begin

text \<open>
  When the handler forwards: the queries a request carries (\<open>inspected\<close>), the approval of an
  evaluator for one query after the other (\<open>approved\<close>), and that these decide, for every evaluator.
\<close>

section \<open>What has to be inspected\<close>

text \<open>The queries of a request, by transport: every one of them must pass before it is forwarded.\<close>

definition item_query :: "environment \<Rightarrow> Handler \<Rightarrow> graphQLBody \<Rightarrow> QueryInfo option" where
  "item_query env h b =
     (if Query b = [] then None
      else case parseQueryWithTimeout env (Query b) (ParseTimeout h) of
        Parsed q \<Rightarrow> Some (if Variables b \<noteq> [] then q\<lparr>RequestVariables := Variables b\<rparr> else q)
      | _ \<Rightarrow> None)"

fun all_queries :: "environment \<Rightarrow> Handler \<Rightarrow> graphQLBody list \<Rightarrow> QueryInfo list option" where
  "all_queries env h [] = Some []"
| "all_queries env h (b # bs) = Option.bind (item_query env h b) (\<lambda>q. map_option ((#) q) (all_queries env h bs))"

definition with_tenant :: "http_request \<Rightarrow> QueryInfo \<Rightarrow> QueryInfo" where
  "with_tenant r q =
     (if Header_Get (Header r) ''X-API-Key'' \<noteq> []
      then q\<lparr>TenantID := extractTenantID (Header_Get (Header r) ''X-API-Key'')\<rparr> else q)"

definition single_body :: "string \<Rightarrow> graphQLBody option" where
  "single_body b =
     Option.bind (json_prefix b) (\<lambda>(v, rest).
       Option.bind (decode_body True v) (\<lambda>g. if decoder_More rest then None else Some g))"

definition url_body :: "url \<Rightarrow> graphQLBody" where
  "url_body u =
     \<lparr>Query = Values_Get (URL_Query u) ''query'', gb_OperationName = Values_Get (URL_Query u) ''operationName'',
      Variables = Values_Get (URL_Query u) ''variables'', Extensions = []\<rparr>"

definition batched :: "http_request \<Rightarrow> bool" where
  "batched r \<longleftrightarrow> Method r = ''POST'' \<and> is_batch (Body r)"

definition inspected :: "environment \<Rightarrow> Handler \<Rightarrow> http_request \<Rightarrow> QueryInfo list option" where
  "inspected env h r =
     (if Method r = ''POST'' then
        (if \<not> hasJSONContentType (Header r) then None
         else case read_limited (MaxBodyBytes h) r of
           Inl e \<Rightarrow> None
         | Inr b \<Rightarrow>
             if is_batch b
             then Option.bind (unmarshal_batch b) (\<lambda>bs. if bs = [] then None else all_queries env h bs)
             else Option.bind (single_body b) (\<lambda>g. map_option (\<lambda>q. [with_tenant r q]) (item_query env h g)))
      else if Method r = ''GET'' then map_option (\<lambda>q. [with_tenant r q]) (item_query env h (url_body (URL r)))
      else None)"

text \<open>The bodies a request carries, by transport, before any query is parsed.\<close>

definition carried :: "Handler \<Rightarrow> http_request \<Rightarrow> graphQLBody list option" where
  "carried h r =
     (if Method r = ''POST'' then
        (if \<not> hasJSONContentType (Header r) then None
         else case read_limited (MaxBodyBytes h) r of
           Inl e \<Rightarrow> None
         | Inr b \<Rightarrow> if is_batch b then unmarshal_batch b else map_option (\<lambda>g. [g]) (single_body b))
      else if Method r = ''GET'' then Some [url_body (URL r)]
      else None)"

text \<open>A query as the evaluator gets it: the items of a batch carry no tenant.\<close>

definition judged :: "http_request \<Rightarrow> QueryInfo \<Rightarrow> QueryInfo" where
  "judged r q = (if batched r then q else with_tenant r q)"

text \<open>The evaluator asked about one query after the other, as long as it allows them.\<close>

fun approved :: "'s evaluator \<Rightarrow> QueryInfo list \<Rightarrow> 's \<times> Metrics \<Rightarrow> bool" where
  "approved eval [] sm = True"
| "approved eval (q # qs) sm =
     (case eval q sm of (Returned res, sm') \<Rightarrow> Allowed res \<and> approved eval qs sm' | _ \<Rightarrow> False)"

definition rule_recorded :: "http_request \<Rightarrow> QueryInfo list \<Rightarrow> Metrics \<Rightarrow> Metrics" where
  "rule_recorded r qs m = (if batched r then m else RecordRuleEval (''op_'' @ OperationType (hd qs)) m)"

lemma all_queries_length: "all_queries env h bs = Some qs \<Longrightarrow> length qs = length bs"
  by (induction bs arbitrary: qs) (auto simp: bind_eq_Some_conv)

lemma inspected_nonempty: "inspected env h r = Some qs \<Longrightarrow> qs \<noteq> []"
  by (auto simp: inspected_def bind_eq_Some_conv split: if_splits sum.splits dest: all_queries_length)

lemma item_query_Some:
  assumes "item_query env h b = Some q"
  obtains p where "Query b \<noteq> []" and "parseQueryWithTimeout env (Query b) (ParseTimeout h) = Parsed p"
    and "(if Variables b \<noteq> [] then p\<lparr>RequestVariables := Variables b\<rparr> else p) = q"
proof -
  have nonempty: "Query b \<noteq> []" using assms by (auto simp: item_query_def)
  then obtain p where parsed: "parseQueryWithTimeout env (Query b) (ParseTimeout h) = Parsed p"
    using assms by (cases "parseQueryWithTimeout env (Query b) (ParseTimeout h)") (simp_all add: item_query_def)
  have "(if Variables b \<noteq> [] then p\<lparr>RequestVariables := Variables b\<rparr> else p) = q"
    using assms nonempty parsed by (simp add: item_query_def)
  with nonempty parsed that show ?thesis by blast
qed

section \<open>Forwarding\<close>

definition forwards :: "'s handled \<Rightarrow> http_request \<Rightarrow> bool" where
  "forwards res out \<longleftrightarrow> (\<exists>hdrs. fst res = Some (Forward hdrs out))"

lemma forwards_simps [simp]:
  "\<not> forwards (fail_with env msg ty code sm) out"
  "\<not> forwards (block_with env ty reason sm) out"
  "forwards (pass_with env h ty r b sm) out \<longleftrightarrow>
     out = host_fixed_director (upstream h) (r\<lparr>Body := b, BodyFails := False\<rparr>)"
  "\<not> forwards (None, sm) out"
  "\<not> forwards (Some (Respond resp), sm) out" "\<not> forwards (Some Crash, sm) out"
  "forwards (Some (forward h hdrs r), sm) out \<longleftrightarrow> out = host_fixed_director (upstream h) r"
  by (auto simp: forwards_def fail_with_def block_with_def pass_with_def forward_def)

lemma evaluateAndForward_forwards:
  "forwards (evaluateAndForward eval env h r b q (s, m)) out \<longleftrightarrow>
     approved eval [with_tenant r q] (s, RecordRuleEval (''op_'' @ OperationType (with_tenant r q)) m) \<and>
     out = host_fixed_director (upstream h) (r\<lparr>Body := b, BodyFails := False\<rparr>)"
  by (auto simp: evaluateAndForward_def with_tenant_def Let_def split: prod.split eval_reply.split if_split)

lemma batch_loop_None:
  "item_query env h req = None \<Longrightarrow> \<not> forwards (batch_loop eval env h r b i first (req # reqs) sm) out"
  by (simp add: item_query_def split: if_splits parse_reply.splits)

lemma batch_loop_Some:
  assumes "item_query env h req = Some q"
  shows "batch_loop eval env h r b i first (req # reqs) sm =
    (case eval q sm of
       (EvalPanics, sm1) \<Rightarrow> (None, sm1)
     | (EvalFailed, sm1) \<Rightarrow> fail_with env (error_body (sanitizeError ''eval'')) (OperationType q) 500 sm1
     | (Returned res, sm1) \<Rightarrow>
         if \<not> Allowed res then block_with env (OperationType q) (Reason res) sm1
         else batch_loop eval env h r b (Suc i) (if i = 0 then OperationType q else first) reqs sm1)"
proof -
  from assms obtain p where p: "Query req \<noteq> []" "parseQueryWithTimeout env (Query req) (ParseTimeout h) = Parsed p"
    and q: "(if Variables req \<noteq> [] then p\<lparr>RequestVariables := Variables req\<rparr> else p) = q"
    by (rule item_query_Some)
  show ?thesis
    by (subst batch_loop.simps(2)) (simp only: p q Let_def if_False parse_reply.case not_False_eq_True)
qed

lemma batch_loop_forwards:
  "forwards (batch_loop eval env h r b i first reqs sm) out \<longleftrightarrow>
     (\<exists>qs. all_queries env h reqs = Some qs \<and> approved eval qs sm) \<and>
     out = host_fixed_director (upstream h) (r\<lparr>Body := b, BodyFails := False\<rparr>)"
proof (induction reqs arbitrary: i first sm)
  case (Cons req reqs)
  show ?case
  proof (cases "item_query env h req")
    case None
    then show ?thesis by (simp add: batch_loop_None del: batch_loop.simps)
  next
    case (Some q)
    obtain reply sm1 where e: "eval q sm = (reply, sm1)" by (cases "eval q sm")
    show ?thesis
      unfolding batch_loop_Some [OF Some] e
      by (cases reply) (auto simp: Some e Cons)
  qed
qed simp

lemma single_evaluates:
  assumes "single_body b = Some g" and "item_query env h g = Some q"
  shows "handleGraphQLSingle eval env h r b sm = evaluateAndForward eval env h r b q sm"
proof -
  obtain v rest where g: "json_prefix b = Some (v, rest)" "decode_body True v = Some g" "\<not> decoder_More rest"
    using assms(1) by (auto simp: single_body_def bind_eq_Some_conv split: if_splits)
  obtain p where "Query g \<noteq> []" "parseQueryWithTimeout env (Query g) (ParseTimeout h) = Parsed p"
    using assms(2) by (rule item_query_Some)
  with assms(2) show ?thesis by (simp add: handleGraphQLSingle_def g item_query_def)
qed

lemma single_forwards:
  "forwards (handleGraphQLSingle eval env h r b (s, m)) out \<longleftrightarrow>
     (\<exists>g q. single_body b = Some g \<and> item_query env h g = Some q \<and>
        approved eval [with_tenant r q] (s, RecordRuleEval (''op_'' @ OperationType (with_tenant r q)) m)) \<and>
     out = host_fixed_director (upstream h) (r\<lparr>Body := b, BodyFails := False\<rparr>)"
proof (cases "single_body b")
  case None
  then show ?thesis
    by (auto simp: handleGraphQLSingle_def single_body_def split: bind_splits option.splits if_splits)
next
  case (Some g)
  then obtain v rest where g: "json_prefix b = Some (v, rest)" "decode_body True v = Some g" "\<not> decoder_More rest"
    by (auto simp: single_body_def bind_eq_Some_conv split: if_splits)
  show ?thesis
  proof (cases "item_query env h g")
    case None
    then show ?thesis by (simp add: handleGraphQLSingle_def g Some item_query_def split: if_splits parse_reply.splits)
  next
    case q: (Some q)
    show ?thesis by (simp add: single_evaluates [OF Some q] Some q evaluateAndForward_forwards)
  qed
qed

lemma batch_forwards:
  "forwards (handleGraphQLBatch eval env h r b sm) out \<longleftrightarrow>
     (\<exists>bs qs. unmarshal_batch b = Some bs \<and> bs \<noteq> [] \<and> all_queries env h bs = Some qs \<and> approved eval qs sm) \<and>
     out = host_fixed_director (upstream h) (r\<lparr>Body := b, BodyFails := False\<rparr>)"
  by (cases "unmarshal_batch b") (auto simp: handleGraphQLBatch_def batch_loop_forwards)

lemma get_evaluates:
  assumes "item_query env h (url_body (URL r)) = Some q"
  shows "\<exists>b. handleGraphQLGet eval env h r sm = evaluateAndForward eval env h r b q sm"
proof -
  have nonempty: "Values_Get (URL_Query (URL r)) ''query'' \<noteq> []"
    using assms by (auto simp: item_query_def url_body_def)
  then obtain p where p: "parseQueryWithTimeout env (Values_Get (URL_Query (URL r)) ''query'') (ParseTimeout h) = Parsed p"
    using assms by (cases "parseQueryWithTimeout env (Values_Get (URL_Query (URL r)) ''query'') (ParseTimeout h)")
      (simp_all add: item_query_def url_body_def)
  have q: "(if Values_Get (URL_Query (URL r)) ''variables'' \<noteq> []
      then p\<lparr>RequestVariables := Values_Get (URL_Query (URL r)) ''variables''\<rparr> else p) = q"
    using nonempty p assms by (simp add: item_query_def url_body_def cong: if_cong)
  show ?thesis using nonempty unfolding handleGraphQLGet_def Let_def p parse_reply.case q by (auto intro: exI)
qed

lemma get_forwards:
  "(\<exists>out. forwards (handleGraphQLGet eval env h r (s, m)) out) \<longleftrightarrow>
     (\<exists>q. item_query env h (url_body (URL r)) = Some q \<and>
        approved eval [with_tenant r q] (s, RecordRuleEval (''op_'' @ OperationType (with_tenant r q)) m))"
proof (cases "item_query env h (url_body (URL r))")
  case None
  then show ?thesis
    by (simp add: handleGraphQLGet_def Let_def item_query_def url_body_def split: if_splits parse_reply.splits)
next
  case (Some q)
  then show ?thesis using get_evaluates [OF Some, of eval "(s, m)"] by (auto simp: evaluateAndForward_forwards)
qed

lemma post_forwards:
  "forwards (handleGraphQL eval env h r (s, m)) out \<longleftrightarrow>
     (\<exists>b. read_limited (MaxBodyBytes h) r = Inr b \<and>
        (if is_batch b then forwards (handleGraphQLBatch eval env h r b (s, m)) out
         else forwards (handleGraphQLSingle eval env h r b (s, m)) out))"
  by (auto simp: handleGraphQL_def split: sum.split body_error.split)

lemma read_limited_Inr: "read_limited n r = Inr b \<Longrightarrow> b = Body r \<and> \<not> BodyFails r"
  by (auto simp: read_limited_def split: if_splits)

lemma inspected_carried_iff:
  "inspected env h r =
     (case carried h r of
        None \<Rightarrow> None
      | Some bs \<Rightarrow> if bs = [] then None else map_option (map (judged r)) (all_queries env h bs))"
proof -
  have 1: "map_option (\<lambda>q. [with_tenant r q]) (item_query env h g) = map_option (map (judged r)) (all_queries env h [g])"
    if "\<not> batched r" for g
    using that by (cases "item_query env h g") (simp_all add: judged_def)
  have 2: "judged r = id" if "batched r" using that by (simp add: judged_def fun_eq_iff)
  show ?thesis
  proof (cases "Method r = ''POST'' \<and> hasJSONContentType (Header r)")
    case True
    show ?thesis
    proof (cases "read_limited (MaxBodyBytes h) r")
      case (Inr b)
      then have "b = Body r" by (simp add: read_limited_Inr)
      then have "batched r \<longleftrightarrow> is_batch b" using True by (simp add: batched_def)
      with True Inr 1 2 show ?thesis
        by (cases "is_batch b"; cases "unmarshal_batch b"; cases "single_body b")
          (simp_all add: inspected_def carried_def option.map_id list.map_id)
    qed (simp add: inspected_def carried_def True)
  next
    case False
    then show ?thesis using 1 by (auto simp: inspected_def carried_def batched_def)
  qed
qed

lemma ServeHTTP_forwards: "forwards (ServeHTTP eval env h r sm) out \<longleftrightarrow> forwards (serve eval env h r sm) out"
  by (auto simp: ServeHTTP_def recoverPanic_def Let_def split: prod.split option.split)

lemma serve_forwards:
  assumes "isGraphQLPath (Path (URL r))"
  shows "(\<exists>out. forwards (serve eval env h r (s, m)) out) \<longleftrightarrow>
    (\<exists>qs. inspected env h r = Some qs \<and> approved eval qs (s, rule_recorded r qs m))"
proof (cases "Method r = ''POST''")
  case True
  show ?thesis
  proof (cases "read_limited (MaxBodyBytes h) r")
    case (Inl e)
    then show ?thesis using True assms by (auto simp: serve_def inspected_def post_forwards)
  next
    case (Inr b)
    then have "b = Body r" by (simp add: read_limited_Inr)
    show ?thesis
    proof (cases "is_batch b")
      case batch: True
      then have "batched r" using True \<open>b = Body r\<close> by (simp add: batched_def)
      then show ?thesis
        using batch True Inr assms
        by (auto simp: serve_def inspected_def post_forwards batch_forwards rule_recorded_def bind_eq_Some_conv
            simp del: approved.simps split: if_splits)
    next
      case single: False
      then have "\<not> batched r" using True \<open>b = Body r\<close> by (simp add: batched_def)
      then show ?thesis
        using single True Inr assms
        by (auto simp: serve_def inspected_def post_forwards single_forwards rule_recorded_def bind_eq_Some_conv
            simp del: approved.simps split: if_splits)
    qed
  qed
next
  case False
  then have "\<not> batched r" by (simp add: batched_def)
  with False assms get_forwards [of eval env h r s m] show ?thesis
    by (auto simp: serve_def inspected_def rule_recorded_def simp del: approved.simps split: if_splits)
qed

section \<open>The end of the process\<close>

lemma ParserPanicsD: "parseQueryWithTimeout env q t = ParserPanics \<Longrightarrow> parse_panics env q"
  by (auto simp: parseQueryWithTimeout_def split: if_splits option.splits sum.splits)

lemma crash_simps [simp]:
  "fst (fail_with env msg ty code sm) \<noteq> Some Crash" "fst (block_with env ty reason sm) \<noteq> Some Crash"
  "fst (pass_with env h ty r b sm) \<noteq> Some Crash" "fst (evaluateAndForward eval env h r b q sm) \<noteq> Some Crash"
  by (auto simp: fail_with_def block_with_def pass_with_def forward_def evaluateAndForward_def Let_def
      split: prod.split eval_reply.split)

lemma batch_loop_crash:
  "fst (batch_loop eval env h r b i first reqs sm) = Some Crash \<Longrightarrow> \<exists>g \<in> set reqs. parse_panics env (Query g)"
proof (induction reqs arbitrary: i first sm)
  case (Cons req reqs)
  show ?case
  proof (cases "item_query env h req")
    case None
    then show ?thesis
      using Cons.prems by (auto simp: item_query_def split: if_splits parse_reply.splits dest: ParserPanicsD)
  next
    case (Some q)
    show ?thesis
      using Cons.prems Cons.IH unfolding batch_loop_Some [OF Some] by (auto split: prod.splits eval_reply.splits if_splits)
  qed
qed simp

lemma serve_crash:
  assumes "fst (serve eval env h r sm) = Some Crash"
  shows "\<exists>bs. carried h r = Some bs \<and> (\<exists>b \<in> set bs. parse_panics env (Query b))"
proof -
  have single: "\<exists>g. single_body b = Some g \<and> parse_panics env (Query g)"
    if "fst (handleGraphQLSingle eval env h r b sm) = Some Crash" for b
    using that by (auto simp: handleGraphQLSingle_def single_body_def bind_eq_Some_conv
        split: option.splits if_splits parse_reply.splits dest: ParserPanicsD)
  have batch: "\<exists>bs. unmarshal_batch b = Some bs \<and> (\<exists>g \<in> set bs. parse_panics env (Query g))"
    if "fst (handleGraphQLBatch eval env h r b sm) = Some Crash" for b
    using that by (auto simp: handleGraphQLBatch_def split: option.splits if_splits dest: batch_loop_crash)
  have get: "parse_panics env (Query (url_body (URL r)))" if "fst (handleGraphQLGet eval env h r sm) = Some Crash"
    using that by (auto simp: handleGraphQLGet_def url_body_def Let_def split: if_splits parse_reply.splits dest: ParserPanicsD)
  from assms show ?thesis
    using single batch get
    by (fastforce simp: serve_def handleGraphQL_def carried_def forward_def split: if_splits sum.splits body_error.splits)
qed

lemma ServeHTTP_crash: "fst (ServeHTTP eval env h r sm) = Some Crash \<Longrightarrow> fst (serve eval env h r sm) = Some Crash"
  by (auto simp: ServeHTTP_def recoverPanic_def Let_def split: prod.splits option.splits if_splits)

end
