(* ===== verification/Handler_Contracts.thy ===== *)
theory Handler_Contracts
  imports Handler_Forwarding
begin

text \<open>
  What the handler needs of its evaluator, as locales, and what it then guarantees: requests are
  counted once, every request is answered, what the evaluator keeps is kept. The composite evaluator
  meets the contracts; without a cache its approval is the grant of the policy.
\<close>

section \<open>Counting requests\<close>

definition label :: "outcome \<Rightarrow> string" where
  "label out = (case out of Forward hdrs r \<Rightarrow> ''allowed''
                | Respond resp \<Rightarrow> if Status resp = 403 then ''blocked'' else ''error'' | Crash \<Rightarrow> ''none'')"

text \<open>A finished request was counted once under the label of its outcome, a panicking one not yet, and one that ends the process never.\<close>

definition counted :: "Metrics \<Rightarrow> 's handled \<Rightarrow> bool" where
  "counted m res \<longleftrightarrow>
     (case fst res of
        None \<Rightarrow> RequestsTotal (snd (snd res)) = RequestsTotal m
      | Some Crash \<Rightarrow> RequestsTotal (snd (snd res)) = RequestsTotal m
      | Some out \<Rightarrow> \<exists>ty. RequestsTotal (snd (snd res)) = Inc (label out, ty) (RequestsTotal m))"

lemma counted_simps:
  "RequestsTotal (snd sm) = RequestsTotal m \<Longrightarrow> code \<noteq> 403 \<Longrightarrow> counted m (fail_with env msg ty code sm)"
  "RequestsTotal (snd sm) = RequestsTotal m \<Longrightarrow> counted m (block_with env ty reason sm)"
  "RequestsTotal (snd sm) = RequestsTotal m \<Longrightarrow> counted m (pass_with env h ty r b sm)"
  "RequestsTotal (snd sm) = RequestsTotal m \<Longrightarrow> counted m (None, sm)"
  "RequestsTotal (snd sm) = RequestsTotal m \<Longrightarrow> counted m (Some Crash, sm)"
  by (auto simp: counted_def label_def fail_with_def block_with_def pass_with_def forward_def http_Error_def frame_simps)

locale counting_evaluator =
  fixes eval :: "'s evaluator"
  assumes keeps_requests: "RequestsTotal (snd (snd (eval i sm))) = RequestsTotal (snd sm)"
begin

lemma kept: "eval i sm = (reply, sm') \<Longrightarrow> RequestsTotal (snd sm) = RequestsTotal m \<Longrightarrow> RequestsTotal (snd sm') = RequestsTotal m"
  using keeps_requests [of i sm] by simp

lemma evaluateAndForward_counted: "counted (snd sm) (evaluateAndForward eval env h r b q sm)"
  unfolding evaluateAndForward_def Let_def
  by (auto split: prod.split eval_reply.split intro!: counted_simps dest!: kept [where m = "snd sm"] simp: frame_simps)

lemma batch_loop_counted:
  "RequestsTotal (snd sm) = RequestsTotal m \<Longrightarrow> counted m (batch_loop eval env h r b i first reqs sm)"
proof (induction reqs arbitrary: i first sm)
  case (Cons req reqs)
  show ?case
  proof (cases "item_query env h req")
    case None
    then show ?thesis
      using Cons.prems by (auto simp: item_query_def split: if_splits parse_reply.splits intro!: counted_simps)
  next
    case (Some q)
    obtain reply sm1 where e: "eval q sm = (reply, sm1)" by (cases "eval q sm")
    then have "RequestsTotal (snd sm1) = RequestsTotal m" using Cons.prems by (rule kept)
    with Cons.IH show ?thesis
      unfolding batch_loop_Some [OF Some] e by (cases reply) (auto intro!: counted_simps)
  qed
qed (simp add: counted_simps)

lemma handlers_counted:
  "counted (snd sm) (handleGraphQL eval env h r sm)" "counted (snd sm) (handleGraphQLGet eval env h r sm)"
proof -
  have "counted (snd sm) (handleGraphQLBatch eval env h r b sm)" for b
    by (auto simp: handleGraphQLBatch_def batch_loop_counted intro!: counted_simps split: option.split parse_reply.split)
  moreover have "counted (snd sm) (handleGraphQLSingle eval env h r b sm)" for b
    by (auto simp: handleGraphQLSingle_def evaluateAndForward_counted intro!: counted_simps split: option.split parse_reply.split)
  ultimately show "counted (snd sm) (handleGraphQL eval env h r sm)"
    by (auto simp: handleGraphQL_def intro!: counted_simps split: sum.split body_error.split)
  show "counted (snd sm) (handleGraphQLGet eval env h r sm)"
    by (auto simp: handleGraphQLGet_def Let_def evaluateAndForward_counted intro!: counted_simps split: option.split parse_reply.split)
qed

lemma ServeHTTP_counted:
  assumes "isGraphQLPath (Path (URL r))"
    and "Method r = ''GET'' \<or> Method r = ''POST'' \<and> hasJSONContentType (Header r)"
    and "\<not> disablePanicRecovery h"
  shows "\<exists>out ty. fst (ServeHTTP eval env h r sm) = Some out \<and>
    (out \<noteq> Crash \<longrightarrow> RequestsTotal (snd (snd (ServeHTTP eval env h r sm))) = Inc (label out, ty) (RequestsTotal (snd sm)))"
proof -
  have "counted (snd sm) (serve eval env h r sm)"
    using assms(1,2) handlers_counted by (auto simp: serve_def)
  moreover obtain o1 s1 m1 where "serve eval env h r sm = (o1, s1, m1)" by (cases "serve eval env h r sm") auto
  ultimately show ?thesis
    using assms(3)
    by (cases o1) (auto simp: counted_def ServeHTTP_def recoverPanic_def label_def http_Error_def frame_simps split: outcome.splits)
qed

end

locale total_evaluator = counting_evaluator +
  assumes returns: "\<exists>r. fst (eval i sm) = Returned r"
begin

lemma not_failed: "eval i sm \<noteq> (EvalFailed, sm')" "eval i sm \<noteq> (EvalPanics, sm')"
  using returns [of i sm] by auto

text \<open>
  What an answer to the bodies \<open>bs\<close> of a request tells: a 400 that one of them cannot be inspected, a 403 that the
  evaluator refused one of them, with its reason in the response, and the end of the process that the parser
  panicked on one of them.
\<close>

definition refused_one :: "environment \<Rightarrow> Handler \<Rightarrow> http_request \<Rightarrow> graphQLBody list \<Rightarrow> string \<Rightarrow> bool" where
  "refused_one env h r bs body \<longleftrightarrow>
     (\<exists>b \<in> set bs. \<exists>q sm reply. item_query env h b = Some q \<and> fst (eval (judged r q) sm) = Returned reply \<and>
        \<not> Allowed reply \<and> body = blocked_body (sanitizeReason (Reason reply)))"

definition told :: "environment \<Rightarrow> Handler \<Rightarrow> http_request \<Rightarrow> graphQLBody list \<Rightarrow> 's handled \<Rightarrow> bool" where
  "told env h r bs res \<longleftrightarrow>
     (case fst res of
        None \<Rightarrow> False
      | Some (Forward hdrs out) \<Rightarrow> True
      | Some Crash \<Rightarrow> \<exists>b \<in> set bs. parse_panics env (Query b)
      | Some (Respond resp) \<Rightarrow>
          Status resp = 400 \<and> all_queries env h bs = None \<or>
          Status resp = 403 \<and> refused_one env h r bs (resp_Body resp))"

lemma told_fail: "all_queries env h bs = None \<Longrightarrow> told env h r bs (fail_with env msg ty 400 sm)"
  by (simp add: told_def fail_with_def http_Error_def)

lemma refused_oneI:
  "b \<in> set bs \<Longrightarrow> item_query env h b = Some q \<Longrightarrow> fst (eval (judged r q) sm) = Returned reply \<Longrightarrow> \<not> Allowed reply \<Longrightarrow>
   refused_one env h r bs (blocked_body (sanitizeReason (Reason reply)))"
  unfolding refused_one_def by blast

lemma refused_one_Cons: "refused_one env h r bs body \<Longrightarrow> refused_one env h r (b # bs) body"
  unfolding refused_one_def by (meson list.set_intros(2))

lemma told_block:
  "b \<in> set bs \<Longrightarrow> item_query env h b = Some q \<Longrightarrow> fst (eval (judged r q) sm) = Returned reply \<Longrightarrow> \<not> Allowed reply \<Longrightarrow>
   told env h r bs (block_with env ty (Reason reply) sm')"
  using refused_oneI by (simp add: told_def block_with_def)

lemma told_simps [simp]:
  "told env h r bs (pass_with env h ty r' b sm)" "told env h r bs (Some Crash, sm) \<longleftrightarrow> (\<exists>b \<in> set bs. parse_panics env (Query b))"
  by (simp_all add: told_def pass_with_def forward_def)

lemma told_Cons: "item_query env h b = Some q \<Longrightarrow> told env h r bs res \<Longrightarrow> told env h r (b # bs) res"
  by (auto simp: told_def refused_one_Cons split: option.splits outcome.splits)

lemma batch_loop_told:
  assumes "batched r"
  shows "told env h r reqs (batch_loop eval env h r b i first reqs sm)"
proof (induction reqs arbitrary: i first sm)
  case (Cons req reqs)
  show ?case
  proof (cases "item_query env h req")
    case None
    then show ?thesis
      by (auto simp: item_query_def split: if_splits parse_reply.splits intro!: told_fail dest: ParserPanicsD)
  next
    case (Some q)
    obtain reply sm1 where e: "eval q sm = (Returned reply, sm1)"
      using returns [of q sm] by (cases "eval q sm") auto
    have "told env h r (req # reqs) (block_with env (OperationType q) (Reason reply) sm1)" if "\<not> Allowed reply"
      using Some e that assms by (intro told_block [of req _ env h q r sm]) (simp_all add: judged_def)
    with told_Cons [OF Some Cons.IH] show ?thesis unfolding batch_loop_Some [OF Some] e by simp
  qed
qed simp

lemma evaluateAndForward_told:
  assumes "\<not> batched r" and "item_query env h g = Some q"
  shows "told env h r [g] (evaluateAndForward eval env h r b q sm)"
proof -
  let ?sm = "(fst sm, RecordRuleEval (''op_'' @ OperationType (with_tenant r q)) (snd sm))"
  obtain reply sm1 where e: "eval (with_tenant r q) ?sm = (Returned reply, sm1)"
    using returns [of "with_tenant r q" ?sm] by (cases "eval (with_tenant r q) ?sm") auto
  have "told env h r [g] (block_with env ty (Reason reply) sm1)" if "\<not> Allowed reply" for ty
    using assms e that by (intro told_block [of g _ env h q r ?sm]) (simp_all add: judged_def)
  moreover have "evaluateAndForward eval env h r b q sm =
      (if \<not> Allowed reply then block_with env (OperationType (with_tenant r q)) (Reason reply) sm1
       else pass_with env h (OperationType (with_tenant r q)) r b sm1)"
    using e by (simp add: evaluateAndForward_def with_tenant_def [symmetric] Let_def)
  ultimately show ?thesis by simp
qed

lemma single_told:
  assumes "\<not> batched r" and "single_body b = Some g"
  shows "told env h r [g] (handleGraphQLSingle eval env h r b sm)"
proof (cases "item_query env h g")
  case None
  obtain v rest where "json_prefix b = Some (v, rest)" "decode_body True v = Some g" "\<not> decoder_More rest"
    using assms(2) by (auto simp: single_body_def bind_eq_Some_conv split: if_splits)
  with None show ?thesis
    by (auto simp: handleGraphQLSingle_def item_query_def split: if_splits parse_reply.splits intro!: told_fail dest: ParserPanicsD)
next
  case (Some q)
  show ?thesis unfolding single_evaluates [OF assms(2) Some] by (rule evaluateAndForward_told [OF assms(1) Some])
qed

lemma get_told:
  assumes "\<not> batched r"
  shows "told env h r [url_body (URL r)] (handleGraphQLGet eval env h r sm)"
proof (cases "item_query env h (url_body (URL r))")
  case None
  then show ?thesis
    by (auto simp: handleGraphQLGet_def Let_def item_query_def url_body_def split: if_splits parse_reply.splits
        intro!: told_fail dest: ParserPanicsD)
next
  case (Some q)
  then obtain b where "handleGraphQLGet eval env h r sm = evaluateAndForward eval env h r b q sm"
    using get_evaluates by blast
  with evaluateAndForward_told [OF assms Some] show ?thesis by simp
qed

lemma serve_told:
  assumes "isGraphQLPath (Path (URL r))"
  shows "(\<exists>resp. fst (serve eval env h r sm) = Some (Respond resp) \<and>
      (Status resp = 405 \<and> Method r \<notin> {''GET'', ''POST''} \<or>
       Status resp = 415 \<and> Method r = ''POST'' \<and> \<not> hasJSONContentType (Header r) \<or>
       Status resp = 413 \<and> Method r = ''POST'' \<and> read_limited (MaxBodyBytes h) r = Inl TooLarge \<or>
       Status resp = 400 \<and> carried h r \<in> {None, Some []})) \<or>
    (\<exists>bs. carried h r = Some bs \<and> bs \<noteq> [] \<and> told env h r bs (serve eval env h r sm))"
proof -
  consider (get) "Method r = ''GET''" | (type) "Method r = ''POST''" "\<not> hasJSONContentType (Header r)"
    | (post) "Method r = ''POST''" "hasJSONContentType (Header r)" | (other) "Method r \<notin> {''GET'', ''POST''}" by blast
  then show ?thesis
  proof cases
    case get
    then have "\<not> batched r" by (simp add: batched_def)
    with get assms get_told [of r env h sm] show ?thesis by (simp add: serve_def carried_def)
  next
    case post
    show ?thesis
    proof (cases "read_limited (MaxBodyBytes h) r")
      case (Inl e)
      with post assms show ?thesis
        by (cases e) (simp_all add: serve_def handleGraphQL_def carried_def fail_with_def http_Error_def)
    next
      case (Inr b)
      then have b: "b = Body r" by (simp add: read_limited_Inr)
      have s: "serve eval env h r sm =
          (if is_batch b then handleGraphQLBatch eval env h r b sm else handleGraphQLSingle eval env h r b sm)"
        using post assms Inr by (simp add: serve_def handleGraphQL_def)
      show ?thesis
      proof (cases "is_batch b")
        case True
        then have "batched r" using post b by (simp add: batched_def)
        with batch_loop_told [OF this] True post Inr show ?thesis
          by (cases "unmarshal_batch b") (auto simp: s handleGraphQLBatch_def carried_def fail_with_def http_Error_def simp del: batch_loop.simps)
      next
        case False
        then have "\<not> batched r" using b by (simp add: batched_def)
        show ?thesis
        proof (cases "single_body b")
          case None
          then have "\<exists>ty. handleGraphQLSingle eval env h r b sm = fail_with env (error_body (sanitizeError ''json'')) ty 400 sm"
            by (auto simp: handleGraphQLSingle_def single_body_def split: bind_splits option.splits if_splits)
          with None False post Inr show ?thesis by (auto simp: s carried_def fail_with_def http_Error_def)
        next
          case (Some g)
          with single_told [OF \<open>\<not> batched r\<close> Some] False post Inr show ?thesis by (simp add: s carried_def)
        qed
      qed
    qed
  qed (use assms in \<open>simp_all add: serve_def http_Error_def\<close>)
qed

lemma serve_settles: "fst (serve eval env h r sm) \<noteq> None"
proof (cases "isGraphQLPath (Path (URL r))")
  case True
  from serve_told [OF this, of env h sm] show ?thesis by (auto simp: told_def split: option.splits)
qed (simp add: serve_def)

end

text \<open>What every call of the evaluator preserves, every request preserves.\<close>

locale stable_evaluator =
  fixes eval :: "'s evaluator"
    and P :: "'s \<Rightarrow> bool"
  assumes keeps: "P (fst sm) \<Longrightarrow> P (fst (snd (eval i sm)))"
begin

lemma kept_by: "eval i sm = (reply, sm') \<Longrightarrow> P (fst sm) \<Longrightarrow> P (fst sm')"
  using keeps [of sm i] by simp

lemma results_stable:
  "P (fst (snd (fail_with env msg ty code sm))) \<longleftrightarrow> P (fst sm)"
  "P (fst (snd (block_with env ty reason sm))) \<longleftrightarrow> P (fst sm)"
  "P (fst (snd (pass_with env h ty r b sm))) \<longleftrightarrow> P (fst sm)"
  by (simp_all add: fail_with_def block_with_def pass_with_def)

lemma evaluateAndForward_stable: "P (fst sm) \<Longrightarrow> P (fst (snd (evaluateAndForward eval env h r b q sm)))"
  unfolding evaluateAndForward_def Let_def
  by (auto split: prod.split eval_reply.split simp: results_stable dest!: kept_by)

lemma batch_loop_stable: "P (fst sm) \<Longrightarrow> P (fst (snd (batch_loop eval env h r b i first reqs sm)))"
proof (induction reqs arbitrary: i first sm)
  case (Cons req reqs)
  show ?case
  proof (cases "item_query env h req")
    case None
    then show ?thesis using Cons.prems
      by (auto simp: item_query_def results_stable split: if_splits parse_reply.splits)
  next
    case (Some q)
    obtain reply sm1 where e: "eval q sm = (reply, sm1)" by (cases "eval q sm")
    then have "P (fst sm1)" using Cons.prems by (rule kept_by)
    with Cons.IH show ?thesis
      unfolding batch_loop_Some [OF Some] e by (cases reply) (auto simp: results_stable)
  qed
qed (simp add: results_stable)

lemma ServeHTTP_stable: "P (fst sm) \<Longrightarrow> P (fst (snd (ServeHTTP eval env h r sm)))"
proof -
  assume P: "P (fst sm)"
  have "P (fst (snd (handleGraphQLBatch eval env h r b sm)))" for b
    using P by (auto simp: handleGraphQLBatch_def batch_loop_stable results_stable split: option.split parse_reply.split)
  moreover have "P (fst (snd (handleGraphQLSingle eval env h r b sm)))" for b
    using P by (auto simp: handleGraphQLSingle_def evaluateAndForward_stable results_stable split: option.split parse_reply.split)
  ultimately have "P (fst (snd (handleGraphQL eval env h r sm)))"
    using P by (auto simp: handleGraphQL_def results_stable split: sum.split body_error.split)
  moreover have "P (fst (snd (handleGraphQLGet eval env h r sm)))"
    using P by (auto simp: handleGraphQLGet_def Let_def evaluateAndForward_stable results_stable split: option.split parse_reply.split)
  ultimately have "P (fst (snd (serve eval env h r sm)))" using P by (simp add: serve_def)
  then show ?thesis
    by (auto simp: ServeHTTP_def recoverPanic_def Let_def split: prod.splits option.splits)
qed

end

section \<open>The composite evaluator behind the handler\<close>

text \<open>The evaluator, the data stores by address, and a clock that every reading advances.\<close>

record world =
  w_eval :: compositeEvaluator
  w_heap :: "nat \<Rightarrow> DataStore"
  w_clock :: "nat \<Rightarrow> instant"
  w_tick :: nat

definition composite_eval :: "field_lookup \<Rightarrow> http_post \<Rightarrow> world evaluator" where
  "composite_eval ForName Post info wm =
     (let (w, m) = wm;
          (r, c, m') = Evaluate ForName Post (map_option (w_heap w) (opaStore (w_eval w)))
                         (w_clock w (w_tick w)) (w_clock w (Suc (w_tick w))) info (w_eval w) m
      in (Returned r, w\<lparr>w_eval := c, w_tick := w_tick w + 2\<rparr>, m'))"

lemma Evaluate_keeps_requests: "RequestsTotal (snd (snd (Evaluate ForName Post st t1 t2 info c m))) = RequestsTotal m"
  by (auto simp: Evaluate_def Evaluate_policy_def serve_cached_def judge_def Let_def frame_simps
      split: option.split sum.split prod.split if_split)

interpretation composite: total_evaluator "composite_eval ForName Post"
  by unfold_locales
    (auto simp: composite_eval_def Let_def case_prod_beta Evaluate_keeps_requests)

text \<open>Handling requests never changes the configuration nor the data stores.\<close>

interpretation config: stable_evaluator "composite_eval ForName Post" "\<lambda>w. same_config c (w_eval w) \<and> w_heap w = heap"
proof unfold_locales
  fix sm :: "world \<times> Metrics" and i
  assume P: "same_config c (w_eval (fst sm)) \<and> w_heap (fst sm) = heap"
  let ?e = "Evaluate ForName Post (map_option (w_heap (fst sm)) (opaStore (w_eval (fst sm))))
    (w_clock (fst sm) (w_tick (fst sm))) (w_clock (fst sm) (Suc (w_tick (fst sm)))) i (w_eval (fst sm)) (snd sm)"
  have "same_config c (fst (snd ?e))"
    using P Evaluate_same_config same_config_trans by blast
  with P show "same_config c (w_eval (fst (snd (composite_eval ForName Post i sm)))) \<and>
      w_heap (fst (snd (composite_eval ForName Post i sm))) = heap"
    by (simp add: composite_eval_def Let_def case_prod_beta)
qed

section \<open>Uncached enforcement\<close>

lemma approved_granted:
  assumes "approved (composite_eval ForName Post) qs (w, m)" and "cacheTTL (w_eval w) \<le> 0"
    and "opaFailClosed (w_eval w)" and "\<not> opaAuditOnly (w_eval w)" and "q \<in> set qs"
  shows "schema_refusal ForName (w_eval w) q = None \<and>
    opa_grants Post (opa (w_eval w)) (BuildInput q (map_option (w_heap w) (opaStore (w_eval w))))"
  using assms
proof (induction qs arbitrary: w m)
  case (Cons p qs)
  let ?st = "map_option (w_heap w) (opaStore (w_eval w))"
  let ?e = "Evaluate ForName Post ?st (w_clock w (w_tick w)) (w_clock w (Suc (w_tick w))) p (w_eval w) m"
  have u: "fst ?e = decide ForName Post ?st (w_eval w) p" "fst (snd ?e) = w_eval w"
    using Evaluate_is_decide [OF Cons.prems(2)] by auto
  have c: "composite_eval ForName Post p (w, m) = (Returned (fst ?e), w\<lparr>w_tick := w_tick w + 2\<rparr>, snd (snd ?e))"
    by (simp add: composite_eval_def Let_def case_prod_beta u)
  from Cons.prems(1) c have allowed: "Allowed (decide ForName Post ?st (w_eval w) p)"
    and rest: "approved (composite_eval ForName Post) qs (w\<lparr>w_tick := w_tick w + 2\<rparr>, snd (snd ?e))"
    by (auto simp: u)
  show ?case
  proof (cases "q = p")
    case True
    with decide_granted [OF allowed Cons.prems(3,4)] show ?thesis by simp
  next
    case False
    with Cons.IH [OF rest] Cons.prems show ?thesis by simp
  qed
qed simp

end
