(* ===== verification/Handler_Properties.thy ===== *)
theory Handler_Properties
  imports Handler_Contracts
begin

text \<open>
  Concrete requests, and the properties of the handler with an arbitrary evaluator and with the composite
  evaluator behind it.
\<close>

section \<open>Concrete requests\<close>

definition demo_env :: environment where
  "demo_env = \<lparr>parse_query = Parse (\<lambda>_. Some demo_document) find_fragment, parse_panics = (\<lambda>_. False), parse_late = (\<lambda>_ _. False), elapsed = 7\<rparr>"

definition demo_target :: url where
  "demo_target = \<lparr>Scheme = ''http'', url_Host = ''backend:8080'', Path = [], RawQuery = []\<rparr>"

definition demo_handler :: Handler where
  "demo_handler = \<lparr>upstream = demo_target, MaxBodyBytes = DefaultMaxBodyBytes, ParseTimeout = DefaultParseTimeout,
     disablePanicRecovery = False\<rparr>"

definition post_request :: "string \<Rightarrow> string \<Rightarrow> http_request" where
  "post_request apiKey body =
     \<lparr>Method = ''POST'', URL = \<lparr>Scheme = [], url_Host = [], Path = ''/graphql'', RawQuery = []\<rparr>,
      Header = [(''Content-Type'', ''application/json''), (''X-Api-Key'', apiKey)], Host = ''evil.example'',
      RemoteAddr = ''10.0.0.1:999'', Body = body, BodyFails = False\<rparr>"

definition demo_world :: "duration \<Rightarrow> world" where
  "demo_world ttl = \<lparr>w_eval = demo_composite ttl False, w_heap = (\<lambda>_. NewDataStore), w_clock = int, w_tick = 0\<rparr>"

lemma demo_parse_any:
  "q \<noteq> [] \<Longrightarrow> Parse (\<lambda>_. Some demo_document) find_fragment q = Some (Inr (demo_info q))"
  by (simp add: Parse_def parseGraphQL_def demo_document_def demo_operation_def demo_info_def analyse_operation_def
      operation_type_name_def response_name_def join_path_def record_field_def looks_plural_def
      aggregate_def initial_info_def zero_QueryInfo_def)

lemma demo_item_query:
  "Query b \<noteq> [] \<Longrightarrow> item_query demo_env h b =
     Some (if Variables b \<noteq> [] then (demo_info (Query b))\<lparr>RequestVariables := Variables b\<rparr> else demo_info (Query b))"
  by (simp add: item_query_def parseQueryWithTimeout_def demo_env_def demo_parse_any)

lemma post_request_simps:
  "isGraphQLPath (Path (URL (post_request k b)))" "hasJSONContentType (Header (post_request k b))"
  "Header_Get (Header (post_request k b)) ''X-API-Key'' = k" "Method (post_request k b) = ''POST''"
  "Body (post_request k b) = b" "\<not> BodyFails (post_request k b)"
proof -
  show "isGraphQLPath (Path (URL (post_request k b)))" unfolding post_request_def by code_simp
  have "CanonicalKey ''X-API-Key'' = ''X-Api-Key''" and ct: "CanonicalKey ''Content-Type'' = ''Content-Type''"
    by code_simp+
  then show "Header_Get (Header (post_request k b)) ''X-API-Key'' = k"
    by (simp add: post_request_def Header_Get_def)
  show "hasJSONContentType (Header (post_request k b))"
    by (simp add: post_request_def hasJSONContentType_def Header_Get_def ct HasPrefix_def)
qed (simp_all add: post_request_def)

definition demo_body :: string where
  "demo_body = ''{\"query\":\"{a}\"}''"

lemma demo_body_facts:
  "single_body demo_body = Some (zero_graphQLBody\<lparr>Query := ''{a}''\<rparr>)" "\<not> is_batch demo_body"
  "length demo_body = 15"
  by code_simp+

lemma demo_read: "length b \<le> 1048576 \<Longrightarrow>
   read_limited (MaxBodyBytes demo_handler) (post_request k b) = Inr b"
  by (simp add: read_limited_def demo_handler_def post_request_def DefaultMaxBodyBytes_def)

lemma post_inspected:
  "single_body b = Some g \<Longrightarrow> \<not> is_batch b \<Longrightarrow> length b \<le> 1048576 \<Longrightarrow>
   inspected demo_env demo_handler (post_request k b) =
     map_option (\<lambda>q. [with_tenant (post_request k b) q]) (item_query demo_env demo_handler g)"
  by (simp add: inspected_def post_request_simps demo_read)

lemma demo_inspected:
  "inspected demo_env demo_handler (post_request k demo_body) =
     Some [with_tenant (post_request k demo_body) (demo_info ''{a}'')]"
  by (simp add: post_inspected [OF demo_body_facts(1,2)] demo_body_facts(3) demo_item_query zero_graphQLBody_def)

lemma ServeHTTP_forwardsD:
  "forwards (serve eval env h r sm) out \<Longrightarrow> \<exists>hdrs. fst (ServeHTTP eval env h r sm) = Some (Forward hdrs out)"
  using ServeHTTP_forwards [of eval env h r sm out] by (simp add: forwards_def)

lemma demo_approved:
  "extractTenantID k \<noteq> ''b'' \<Longrightarrow> k \<noteq> [] \<Longrightarrow>
   approved (composite_eval find_field no_post) [with_tenant (post_request k b) q] (demo_world ttl, m)"
  by (simp add: with_tenant_def post_request_simps composite_eval_def demo_world_def case_prod_beta Let_def
      Evaluate_def Evaluate_policy_def demo_composite_opa BuildInput_def judge_def allow_result_def)

lemma demo_forwarded:
  "\<exists>hdrs out. fst (ServeHTTP (composite_eval find_field no_post) demo_env demo_handler
     (post_request ''a'' demo_body) (demo_world 0, zero_Metrics)) = Some (Forward hdrs out)"
proof -
  have "extractTenantID ''a'' = ''a''" by code_simp
  then have "\<exists>out. forwards (serve (composite_eval find_field no_post) demo_env demo_handler
     (post_request ''a'' demo_body) (demo_world 0, zero_Metrics)) out"
    unfolding serve_forwards [OF post_request_simps(1)]
    by (simp only: demo_inspected option.inject simp_thms ex_simps) (rule demo_approved, simp_all)
  then show ?thesis using ServeHTTP_forwardsD by blast
qed

section \<open>What is forwarded\<close>

text \<open>The body that a GET request is turned into; variables of the URL win over those of the analysis.\<close>

definition get_body :: "url \<Rightarrow> string \<Rightarrow> string" where
  "get_body u vars = (case marshal_body ((url_body u)\<lparr>Variables := vars\<rparr>) of None \<Rightarrow> [] | Some bs \<Rightarrow> bs)"

lemma handleGraphQLGet_body:
  assumes "forwards (handleGraphQLGet eval env h r sm) out"
  shows "\<exists>info vars. forwards (evaluateAndForward eval env h r (get_body (URL r) vars) info sm) out \<and>
    (Values_Get (URL_Query (URL r)) ''variables'' \<noteq> [] \<longrightarrow> vars = Values_Get (URL_Query (URL r)) ''variables'')"
proof (cases "parseQueryWithTimeout env (Values_Get (URL_Query (URL r)) ''query'') (ParseTimeout h)")
  case (Parsed p)
  let ?v = "Values_Get (URL_Query (URL r)) ''variables''"
  let ?info = "if ?v \<noteq> [] then p\<lparr>RequestVariables := ?v\<rparr> else p"
  have "forwards (evaluateAndForward eval env h r (get_body (URL r) (RequestVariables ?info)) ?info sm) out"
    using assms by (simp add: handleGraphQLGet_def Parsed Let_def get_body_def url_body_def cong: if_cong split: if_splits)
  moreover have "?v \<noteq> [] \<Longrightarrow> RequestVariables ?info = ?v" by simp
  ultimately show ?thesis by blast
qed (use assms in \<open>auto simp: handleGraphQLGet_def Let_def split: if_splits\<close>)

lemma serve_out:
  assumes "forwards (serve eval env h r sm) out"
  shows "\<exists>b e. out = host_fixed_director (upstream h) (r\<lparr>Body := b, BodyFails := e\<rparr>) \<and>
    (if isGraphQLPath (Path (URL r)) \<and> Method r \<noteq> ''POST''
     then Method r = ''GET'' \<and> (\<exists>vars. b = get_body (URL r) vars \<and>
       (Values_Get (URL_Query (URL r)) ''variables'' \<noteq> [] \<longrightarrow> vars = Values_Get (URL_Query (URL r)) ''variables''))
     else b = Body r)"
proof -
  obtain s m where sm: "sm = (s, m)" by (cases sm)
  consider (other) "\<not> isGraphQLPath (Path (URL r))"
    | (post) "isGraphQLPath (Path (URL r))" "Method r = ''POST''" "forwards (handleGraphQL eval env h r (s, m)) out"
    | (get) "isGraphQLPath (Path (URL r))" "Method r = ''GET''" "forwards (handleGraphQLGet eval env h r (s, m)) out"
    using assms sm by (auto simp: serve_def split: if_splits)
  then show ?thesis
  proof cases
    case other
    then have "out = host_fixed_director (upstream h) (r\<lparr>Body := Body r, BodyFails := BodyFails r\<rparr>)"
      using assms by (simp add: serve_def)
    with other show ?thesis by (intro exI [of _ "Body r"] exI [of _ "BodyFails r"]) simp
  next
    case post
    then show ?thesis
      using read_limited_Inr [of "MaxBodyBytes h" r]
      by (auto simp: post_forwards batch_forwards single_forwards split: if_splits)
  next
    case get
    then show ?thesis
      using handleGraphQLGet_body [OF get(3)]
      by (auto simp: evaluateAndForward_forwards simp del: approved.simps)
  qed
qed

lemma hasJSONContentType_iff:
  "hasJSONContentType h \<longleftrightarrow>
     (let ct = Header_Get h ''Content-Type'' in
      ct = ''application/json'' \<or> HasPrefix ct ''application/json;'' \<or> HasPrefix ct ''application/json '')"
proof -
  have split: "HasPrefix ct (p @ [c]) \<longleftrightarrow> HasPrefix ct p \<and> length p < length ct \<and> ct ! length p = c" for ct p c
    by (cases "length p < length ct") (auto simp: HasPrefix_def take_Suc_conv_app_nth)
  have "ct = ''application/json'' \<longleftrightarrow> HasPrefix ct ''application/json'' \<and> \<not> length ''application/json'' < length ct" for ct
    by (auto simp: HasPrefix_def)
  then show ?thesis
    using split [of _ "''application/json''"]
    by (auto simp: hasJSONContentType_def Let_def)
qed

section \<open>Bodies with text that is not looked at\<close>

definition smuggling_body :: "string \<Rightarrow> string \<Rightarrow> string \<Rightarrow> string" where
  "smuggling_body evil ok garbage =
     ''{'' @ fmt_q ''query'' @ '': '' @ fmt_q evil @ '', '' @ fmt_q ''QUERY'' @ '': '' @ fmt_q ok @ ''}'' @ '']'' @ garbage"

lemma smuggling_prefix:
  assumes "list_all printable evil" and "list_all printable ok"
  shows "json_prefix (smuggling_body evil ok garbage) =
    Some (JObj [(''query'', fmt_q evil, JStr evil), (''QUERY'', fmt_q ok, JStr ok)], '']'' @ garbage)"
proof -
  let ?b = "smuggling_body evil ok garbage"
  let ?n = "2 * length ?b"
  have "json_members (Suc (Suc (Suc ?n))) 1
      (fmt_q ''query'' @ '': '' @ fmt_q evil @ '', '' @ fmt_q ''QUERY'' @ '': '' @ fmt_q ok @ ''}'' @ '']'' @ garbage) =
      Some ([(''query'', fmt_q evil, JStr evil), (''QUERY'', fmt_q ok, JStr ok)], '']'' @ garbage)"
    by (intro json_members_more json_members_last) (simp_all add: printable_def assms)
  then have "json_value (Suc (Suc (Suc (Suc ?n)))) 0 (skip_ws ?b) =
    Some (JObj [(''query'', fmt_q evil, JStr evil), (''QUERY'', fmt_q ok, JStr ok)], '']'' @ garbage)"
    unfolding smuggling_body_def
    by (simp add: is_ws_def max_nesting_def expect_def fmt_q_Cons del: json_members.simps append_assoc)
  with json_fuel_enough [of ?b "Suc (Suc (Suc (Suc ?n)))"] show ?thesis by simp
qed

lemma smuggling_single:
  assumes "list_all printable evil" and "list_all printable ok"
  shows "single_body (smuggling_body evil ok garbage) = Some (zero_graphQLBody\<lparr>Query := ok\<rparr>)"
    and "\<not> is_batch (smuggling_body evil ok garbage)"
proof -
  have "is_field ''query'' ''QUERY''" "is_field ''query'' ''query''" by code_simp+
  then show "single_body (smuggling_body evil ok garbage) = Some (zero_graphQLBody\<lparr>Query := ok\<rparr>)"
    by (simp add: single_body_def smuggling_prefix assms decode_body_def decode_struct_def decode_body_member_def
        decode_string_def decoder_More_def is_ws_def)
  show "\<not> is_batch (smuggling_body evil ok garbage)"
    by (simp add: is_batch_def smuggling_body_def TrimLeft_def)
qed

section \<open>Properties\<close>

text \<open>
  C2: complete mediation, and nothing blocked without need. On a GraphQL path, whatever the
  evaluator does, the request reaches the upstream exactly when its transport carries queries in
  an acceptable form (JSON POST within the size limit, batch or single, or a GET with a query
  parameter), every query of it parses in time, and the evaluator, asked about each of them in
  turn, allows them all.
\<close>

theorem forwarded_iff_approved:
  assumes "isGraphQLPath (Path (URL r))"
  shows "(\<exists>hdrs out. fst (ServeHTTP eval env h r (s, m)) = Some (Forward hdrs out)) \<longleftrightarrow>
    (\<exists>qs. inspected env h r = Some qs \<and> approved eval qs (s, rule_recorded r qs m))"
proof -
  have "(\<exists>hdrs out. fst (ServeHTTP eval env h r (s, m)) = Some (Forward hdrs out)) \<longleftrightarrow>
      (\<exists>out. forwards (ServeHTTP eval env h r (s, m)) out)"
    by (auto simp: forwards_def)
  then show ?thesis by (simp only: ServeHTTP_forwards serve_forwards [OF assms])
qed

theorem forwarded_iff_approved_witness:
  "\<nexists>hdrs out. fst (ServeHTTP (composite_eval find_field no_post) demo_env demo_handler
     (post_request ''b_key'' demo_body) (demo_world 0, zero_Metrics)) = Some (Forward hdrs out)"
proof -
  have "\<not> approved (composite_eval find_field no_post) [with_tenant (post_request ''b_key'' demo_body) (demo_info ''{a}'')]
      (demo_world 0, m)" for m
  proof -
    have t: "extractTenantID ''b_key'' = ''b''" by code_simp
    show ?thesis
      by (simp add: with_tenant_def post_request_simps t composite_eval_def demo_world_def case_prod_beta Let_def
          Evaluate_def Evaluate_policy_def demo_composite_opa BuildInput_def judge_def)
  qed
  with forwarded_iff_approved [OF post_request_simps(1), of "composite_eval find_field no_post" demo_env demo_handler
      "''b_key''" demo_body "demo_world 0" zero_Metrics] show ?thesis by (simp add: demo_inspected)
qed




text \<open>
  C32: requests on a GraphQL path that are refused before any query is looked at: a method other than
  GET and POST (405, naming the two), a POST whose content type is not \<open>application/json\<close>,
  alone or followed by a semicolon or a space (415), a JSON POST longer than a positive size
  limit (413), and a JSON POST within the limit whose body cannot be read to its end (400). The evaluator is not
  called and its state does not change.
\<close>

theorem refused_uninspected:
  assumes "isGraphQLPath (Path (URL r))"
  shows "(Method r \<notin> {''GET'', ''POST''} \<longrightarrow>
      (\<exists>resp. ServeHTTP eval env h r sm = (Some (Respond resp), sm) \<and> Status resp = 405 \<and>
         Header_Get (resp_Header resp) ''Allow'' = ''GET, POST'')) \<and>
    (Method r = ''POST'' \<and> Header_Get (Header r) ''Content-Type'' \<noteq> ''application/json'' \<and>
       \<not> HasPrefix (Header_Get (Header r) ''Content-Type'') ''application/json;'' \<and>
       \<not> HasPrefix (Header_Get (Header r) ''Content-Type'') ''application/json '' \<longrightarrow>
      (\<exists>resp. ServeHTTP eval env h r sm = (Some (Respond resp), sm) \<and> Status resp = 415)) \<and>
    (Method r = ''POST'' \<and> hasJSONContentType (Header r) \<and> 0 < MaxBodyBytes h \<and> MaxBodyBytes h < int (length (Body r)) \<longrightarrow>
      (\<exists>resp m. ServeHTTP eval env h r sm = (Some (Respond resp), fst sm, m) \<and> Status resp = 413)) \<and>
    (Method r = ''POST'' \<and> hasJSONContentType (Header r) \<and> BodyFails r \<and> (MaxBodyBytes h \<le> 0 \<or> int (length (Body r)) \<le> MaxBodyBytes h) \<longrightarrow>
      (\<exists>resp m. ServeHTTP eval env h r sm = (Some (Respond resp), fst sm, m) \<and> Status resp = 400))"
proof -
  have "CanonicalKey ''Allow'' \<noteq> CanonicalKey ''X-Content-Type-Options''" "CanonicalKey ''Allow'' \<noteq> CanonicalKey ''Content-Type''"
    "CanonicalKey ''Allow'' \<noteq> CanonicalKey ''Content-Length''" by code_simp+
  then have allow: "Header_Get (resp_Header (http_Error (Header_Set ''Allow'' v []) msg code)) ''Allow'' = v" for v msg code
    by (simp add: http_Error_def Header_Get_def Header_Set_def Header_Del_def)
  show ?thesis
    using assms allow hasJSONContentType_iff [of "Header r"]
    by (auto simp: ServeHTTP_def serve_def handleGraphQL_def read_limited_def fail_with_def http_Error_def Let_def)
qed

theorem refused_uninspected_witness:
  "\<exists>resp m. ServeHTTP (composite_eval find_field no_post) demo_env (demo_handler\<lparr>MaxBodyBytes := 3\<rparr>)
     (post_request [] demo_body) (demo_world 0, zero_Metrics) = (Some (Respond resp), demo_world 0, m) \<and> Status resp = 413"
  using refused_uninspected [OF post_request_simps(1), of "[]" demo_body "composite_eval find_field no_post" demo_env
      "demo_handler\<lparr>MaxBodyBytes := 3\<rparr>" "(demo_world 0, zero_Metrics)"]
  by (simp add: post_request_simps demo_body_facts)



text \<open>
  Every GET and every JSON POST on a GraphQL path is counted exactly once in the request
  counter, under the label of what happened to it (allowed, blocked, error), and no other counter
  entry changes, unless the parser's panic ends the process.
\<close>

theorem request_counted_once:
  assumes "isGraphQLPath (Path (URL r))" and "\<not> disablePanicRecovery h"
    and "Method r = ''GET'' \<or> Method r = ''POST'' \<and> hasJSONContentType (Header r)"
    and "fst (ServeHTTP (composite_eval ForName Post) env h r sm) \<noteq> Some Crash"
  shows "\<exists>out ty. fst (ServeHTTP (composite_eval ForName Post) env h r sm) = Some out \<and>
    RequestsTotal (snd (snd (ServeHTTP (composite_eval ForName Post) env h r sm))) =
      (RequestsTotal (snd sm))((label out, ty) := Suc (RequestsTotal (snd sm) (label out, ty)))"
  using composite.ServeHTTP_counted [OF assms(1,3,2), of ForName Post env sm] assms(4) by (auto simp: Inc_def)

theorem request_counted_once_witness:
  "\<exists>out ty. RequestsTotal (snd (snd (ServeHTTP (composite_eval find_field no_post) demo_env demo_handler
     (post_request ''a'' demo_body) (demo_world 0, zero_Metrics)))) (label out, ty) = 1"
proof -
  have "\<not> disablePanicRecovery demo_handler" by (simp add: demo_handler_def)
  moreover have "RequestsTotal zero_Metrics = (\<lambda>_. 0)" by (simp add: zero_Metrics_def)
  moreover have "fst (ServeHTTP (composite_eval find_field no_post) demo_env demo_handler
      (post_request ''a'' demo_body) (demo_world 0, zero_Metrics)) \<noteq> Some Crash"
    using demo_forwarded by auto
  ultimately show ?thesis
    using request_counted_once [OF post_request_simps(1), of demo_handler "''a''" demo_body find_field no_post demo_env
      "(demo_world 0, zero_Metrics)"]
    by (auto simp: post_request_simps)
qed

text \<open>
  The whole body is forwarded, but only the last \<open>query\<close> member is looked at, its name in any
  case, and a closing bracket hides whatever follows the object from the check for trailing data:
  if the evaluator allows the harmless query \<open>ok\<close>, the upstream gets a body that holds an
  arbitrary query \<open>evil\<close> under the exact name \<open>query\<close>, and arbitrary bytes at its end.
\<close>

theorem uninspected_text_forwarded:
  assumes "list_all printable evil" and "list_all printable ok" and "ok \<noteq> []"
    and "isGraphQLPath (Path (URL r))" and "Method r = ''POST''" and "hasJSONContentType (Header r)"
    and "Body r = smuggling_body evil ok garbage" and "\<not> BodyFails r" and "MaxBodyBytes h \<le> 0"
    and "parseQueryWithTimeout env ok (ParseTimeout h) = Parsed q"
    and "approved eval [with_tenant r q] (s, RecordRuleEval (''op_'' @ OperationType (with_tenant r q)) m)"
  shows "\<exists>hdrs out. fst (ServeHTTP eval env h r (s, m)) = Some (Forward hdrs out) \<and>
    Body out = smuggling_body evil ok garbage"
proof -
  have "read_limited (MaxBodyBytes h) r = Inr (smuggling_body evil ok garbage)"
    using assms(7-9) by (simp add: read_limited_def)
  moreover have "item_query env h (zero_graphQLBody\<lparr>Query := ok\<rparr>) = Some q"
    using assms(3,10) by (simp add: item_query_def zero_graphQLBody_def)
  ultimately have "forwards (serve eval env h r (s, m))
      (host_fixed_director (upstream h) (r\<lparr>Body := smuggling_body evil ok garbage, BodyFails := False\<rparr>))"
    using assms smuggling_single [OF assms(1,2), of garbage]
    by (simp add: serve_def post_forwards single_forwards del: approved.simps)
  from ServeHTTP_forwardsD [OF this] show ?thesis
    by (auto simp: host_fixed_director_def single_host_director_def Let_def)
qed

theorem uninspected_text_forwarded_witness:
  "\<exists>hdrs out. fst (ServeHTTP (composite_eval find_field no_post) demo_env (demo_handler\<lparr>MaxBodyBytes := 0\<rparr>)
      (post_request ''a'' (smuggling_body ''{admin{secret}}'' ''{a}'' ''junk'')) (demo_world 0, zero_Metrics)) =
      Some (Forward hdrs out) \<and>
    Body out = smuggling_body ''{admin{secret}}'' ''{a}'' ''junk''"
proof (rule uninspected_text_forwarded)
  show "parseQueryWithTimeout demo_env ''{a}'' (ParseTimeout (demo_handler\<lparr>MaxBodyBytes := 0\<rparr>)) = Parsed (demo_info ''{a}'')"
    by (simp add: parseQueryWithTimeout_def demo_env_def demo_parse_any)
  have "extractTenantID ''a'' = ''a''" by code_simp
  then show "approved (composite_eval find_field no_post)
     [with_tenant (post_request ''a'' (smuggling_body ''{admin{secret}}'' ''{a}'' ''junk'')) (demo_info ''{a}'')]
     (demo_world 0, RecordRuleEval (''op_'' @ OperationType (with_tenant (post_request ''a''
        (smuggling_body ''{admin{secret}}'' ''{a}'' ''junk'')) (demo_info ''{a}''))) zero_Metrics)"
    by (intro demo_approved) simp_all
qed (simp_all add: printable_def post_request_simps)

text \<open>
  The queries of a batch are judged without a tenant, whatever API key the request carries, so
  no tenant's own rules apply to them, while a single query is judged for the key's tenant.
\<close>

theorem batch_has_no_tenant:
  assumes "parse_query env = Parse ParseQuery ForName" and "inspected env h r = Some qs" and "q \<in> set qs"
  shows "TenantID q = (if batched r then [] else
    if Header_Get (Header r) ''X-API-Key'' = [] then [] else extractTenantID (Header_Get (Header r) ''X-API-Key''))"
proof -
  have parsed: "TenantID q' = []" if "parseQueryWithTimeout env s t = Parsed q'" for s t q'
  proof -
    have "parseGraphQL ParseQuery ForName s = Some (Inr q')"
      using that assms(1) by (auto simp: parseQueryWithTimeout_def Parse_def split: option.splits if_splits sum.splits)
    then show ?thesis
      by (rule parseGraphQL_Inr) (auto dest!: analyse_operations_frame simp: initial_info_def zero_QueryInfo_def)
  qed
  have item: "TenantID q' = []" if "item_query env h b = Some q'" for b q'
    using that
  proof (rule item_query_Some)
    fix p assume "parseQueryWithTimeout env (Query b) (ParseTimeout h) = Parsed p"
      and "(if Variables b \<noteq> [] then p\<lparr>RequestVariables := Variables b\<rparr> else p) = q'"
    with parsed show ?thesis by (cases "Variables b = []") auto
  qed
  have all: "q' \<in> set qs' \<Longrightarrow> TenantID q' = []" if "all_queries env h bs = Some qs'" for bs qs' q'
    using that by (induction bs arbitrary: qs') (auto simp: bind_eq_Some_conv item)
  show ?thesis
  proof (cases "batched r")
    case True
    then show ?thesis using assms(2,3) all
      by (auto simp: batched_def inspected_def bind_eq_Some_conv dest!: read_limited_Inr split: if_splits sum.splits)
  next
    case False
    then obtain b q0 where "item_query env h b = Some q0" and "q = with_tenant r q0"
      using assms(2,3)
      by (auto simp: batched_def inspected_def bind_eq_Some_conv dest!: read_limited_Inr split: if_splits sum.splits)
    with False item show ?thesis by (simp add: with_tenant_def)
  qed
qed

definition demo_batch :: string where
  "demo_batch = ''[{\"query\":\"{a}\"}]''"

theorem batch_has_no_tenant_witness:
  "\<exists>q. inspected demo_env demo_handler (post_request ''acme_key'' demo_batch) = Some [q] \<and> TenantID q = []"
proof -
  have b: "is_batch demo_batch" "unmarshal_batch demo_batch = Some [zero_graphQLBody\<lparr>Query := ''{a}''\<rparr>]"
    "length demo_batch = 17" by code_simp+
  have i: "inspected demo_env demo_handler (post_request ''acme_key'' demo_batch) = Some [demo_info ''{a}'']"
    by (simp add: inspected_def post_request_simps demo_read b demo_item_query zero_graphQLBody_def)
  from batch_has_no_tenant [OF _ i, of "\<lambda>_. Some demo_document" find_fragment "demo_info ''{a}''"] i show ?thesis
    by (simp add: demo_env_def batched_def post_request_simps b)
qed

text \<open>
  A query that the policy refuses is counted twice among the blocked requests, once by the
  evaluator and once by the handler, while a refusal served from the cache is counted once.
\<close>

theorem policy_block_counted_twice:
  assumes "schema (w_eval w) = None" and "\<not> opaAuditOnly (w_eval w)"
    and "opa_Evaluate Post (opa (w_eval w)) (BuildInput (with_tenant r q) (map_option (w_heap w) (opaStore (w_eval w)))) = Inr res"
    and "\<not> Allowed res"
    and "cache_lookup (w_eval w) (decisionCacheKey (with_tenant r q)) (w_clock w (w_tick w)) = hit"
    and "\<And>d. hit = Some d \<Longrightarrow> result d = res"
  shows "RequestsBlocked (snd (snd (evaluateAndForward (composite_eval ForName Post) env h r b q (w, m)))) (Reason res) =
    RequestsBlocked m (Reason res) + (if hit = None then 2 else 1)"
proof -
  have tenant: "(if Header_Get (Header r) ''X-API-Key'' \<noteq> []
      then q\<lparr>TenantID := extractTenantID (Header_Get (Header r) ''X-API-Key'')\<rparr> else q) = with_tenant r q"
    by (simp add: with_tenant_def)
  show ?thesis
    unfolding evaluateAndForward_def Let_def tenant
    using assms
    by (cases hit) (simp_all add: composite_eval_def Let_def Evaluate_def Evaluate_policy_def serve_cached_def
        judge_def block_with_def frame_simps case_prod_beta)
qed

theorem policy_block_counted_twice_witness:
  "RequestsBlocked (snd (snd (evaluateAndForward (composite_eval find_field no_post) demo_env demo_handler
      (post_request ''b_key'' demo_body) demo_body (demo_info ''{a}'') (demo_world 60, zero_Metrics)))) ''tenant blocked'' = 2"
proof -
  have t: "extractTenantID ''b_key'' = ''b''" by code_simp
  show ?thesis
    using policy_block_counted_twice [of "demo_world 60" no_post "post_request ''b_key'' demo_body" "demo_info ''{a}''"
        "\<lparr>Allowed = False, Reason = ''tenant blocked''\<rparr>" None find_field demo_env demo_handler demo_body zero_Metrics]
    by (simp add: demo_world_def demo_composite_opa BuildInput_def with_tenant_def post_request_simps t zero_Metrics_def)
qed

end
