(* ===== verification/Rate_Limiter.thy ===== *)
theory Rate_Limiter
  imports Complex_Main Prelude
begin

text \<open>
  \<open>internal/ratelimit\<close>: a token bucket per key, refilled on access and removed by a cleanup
  goroutine when it has not been used for five minutes. Instants are nanoseconds; \<open>float64\<close>
  tokens are rationals (rounding is not modelled). The mutex makes each \<open>Allow\<close> and each cleanup
  pass atomic, so an execution is a sequence of events. The two clock readings of \<open>Allow\<close> are
  arguments.
\<close>

section \<open>State and operations\<close>

record Config =
  RequestsPerSecond :: rat
  Burst :: int

record bucket =
  tokens :: rat
  lastTick :: instant

record Limiter =
  buckets :: "(string, bucket) go_map"
  config :: Config
  stopped :: bool \<comment> \<open>\<open>stopCh\<close> is closed\<close>
  cleaning :: bool \<comment> \<open>the cleanup goroutine runs\<close>

abbreviation second :: rat where
  "second \<equiv> 1000000000"

definition stale_after :: duration where
  "stale_after = 5 * 60 * 1000000000"

definition with_defaults :: "Config \<Rightarrow> Config" where
  "with_defaults cfg =
     (let c = (if RequestsPerSecond cfg \<le> 0 then cfg\<lparr>RequestsPerSecond := 100\<rparr> else cfg)
      in if Burst c \<le> 0 then c\<lparr>Burst := 200\<rparr> else c)"

definition New_limiter :: "Config \<Rightarrow> Limiter" where
  "New_limiter cfg = \<lparr>buckets = [], config = with_defaults cfg, stopped = False, cleaning = True\<rparr>"

definition find_bucket :: "Limiter \<Rightarrow> string \<Rightarrow> instant \<Rightarrow> bucket" where
  "find_bucket l key t1 =
     (case map_of (buckets l) key of
        Some b \<Rightarrow> b
      | None \<Rightarrow> \<lparr>tokens = of_int (Burst (config l)), lastTick = t1\<rparr>)"

definition refill :: "Config \<Rightarrow> bucket \<Rightarrow> instant \<Rightarrow> bucket" where
  "refill cfg b now =
     (let elapsed = of_int (now - lastTick b) / second;
          full = tokens b + elapsed * RequestsPerSecond cfg
      in \<lparr>tokens = (if of_int (Burst cfg) < full then of_int (Burst cfg) else full), lastTick = now\<rparr>)"

definition Allow :: "Limiter \<Rightarrow> string \<Rightarrow> instant \<Rightarrow> instant \<Rightarrow> bool \<times> Limiter" where
  "Allow l key t1 t2 =
     (let b = refill (config l) (find_bucket l key t1) t2 in
      if tokens b < 1 then (False, l\<lparr>buckets := AList.update key b (buckets l)\<rparr>)
      else (True, l\<lparr>buckets := AList.update key (b\<lparr>tokens := tokens b - 1\<rparr>) (buckets l)\<rparr>))"

text \<open>One pass of the cleanup loop, when the ticker fires at \<open>now\<close>.\<close>

definition cleanup_tick :: "Limiter \<Rightarrow> instant \<Rightarrow> Limiter" where
  "cleanup_tick l now =
     (if cleaning l
      then l\<lparr>buckets := filter (\<lambda>(key, b). \<not> lastTick b < now - stale_after) (buckets l)\<rparr>
      else l)"

text \<open>The other branch of the loop's select, and \<open>Stop\<close>, which panics when called twice.\<close>

definition cleanup_stop :: "Limiter \<Rightarrow> Limiter" where
  "cleanup_stop l = (if stopped l then l\<lparr>cleaning := False\<rparr> else l)"

definition Stop :: "Limiter \<Rightarrow> Limiter option" where
  "Stop l = (if stopped l then None else Some (l\<lparr>stopped := True\<rparr>))"

section \<open>The contract of a token bucket\<close>

datatype limiter_event = EvAllow string instant instant | EvTick instant

text \<open>How many requests of \<open>key\<close> a run lets through.\<close>

fun count_allowed ::
  "('s \<Rightarrow> string \<Rightarrow> instant \<Rightarrow> instant \<Rightarrow> bool \<times> 's) \<Rightarrow> ('s \<Rightarrow> instant \<Rightarrow> 's) \<Rightarrow>
   string \<Rightarrow> 's \<Rightarrow> limiter_event list \<Rightarrow> nat" where
  "count_allowed allow tick key s [] = 0"
| "count_allowed allow tick key s (EvAllow k t1 t2 # evs) =
     (let (ok, s') = allow s k t1 t2
      in (if ok \<and> k = key then 1 else 0) + count_allowed allow tick key s' evs)"
| "count_allowed allow tick key s (EvTick now # evs) = count_allowed allow tick key (tick s now) evs"

text \<open>The clock does not run backwards: event times are ordered and lie between two instants.\<close>

fun timed :: "instant \<Rightarrow> instant \<Rightarrow> limiter_event list \<Rightarrow> bool" where
  "timed t0 t [] \<longleftrightarrow> t0 \<le> t"
| "timed t0 t (EvAllow k t1 t2 # evs) \<longleftrightarrow> t0 \<le> t1 \<and> t1 \<le> t2 \<and> timed t2 t evs"
| "timed t0 t (EvTick now # evs) \<longleftrightarrow> t0 \<le> now \<and> timed now t evs"

lemma timed_le: "timed t0 t evs \<Longrightarrow> t0 \<le> t"
  by (induction t0 t evs rule: timed.induct) auto

text \<open>
  \<open>avail s key t\<close> is the number of tokens that key has at \<open>t\<close>; \<open>ok t s\<close> says that \<open>s\<close> is a
  state in which nothing happened after \<open>t\<close>.
\<close>

locale token_bucket =
  fixes ok :: "instant \<Rightarrow> 's \<Rightarrow> bool"
    and avail :: "'s \<Rightarrow> string \<Rightarrow> instant \<Rightarrow> rat"
    and allow :: "'s \<Rightarrow> string \<Rightarrow> instant \<Rightarrow> instant \<Rightarrow> bool \<times> 's"
    and tick :: "'s \<Rightarrow> instant \<Rightarrow> 's"
    and rate :: "'s \<Rightarrow> rat"
    and burst :: "'s \<Rightarrow> rat"
  assumes rate_pos: "ok t s \<Longrightarrow> 0 < rate s"
    and avail_nonneg: "ok t s \<Longrightarrow> 0 \<le> avail s key t"
    and avail_burst: "ok t s \<Longrightarrow> avail s key t \<le> burst s"
    and avail_grows: "ok t s \<Longrightarrow> t \<le> t' \<Longrightarrow>
      avail s key t' \<le> avail s key t + rate s * of_int (t' - t) / second"
    and allow_decides: "ok t s \<Longrightarrow> t \<le> t1 \<Longrightarrow> t1 \<le> t2 \<Longrightarrow>
      fst (allow s key t1 t2) \<longleftrightarrow> 1 \<le> avail s key t2"
    and allow_spends: "ok t s \<Longrightarrow> t \<le> t1 \<Longrightarrow> t1 \<le> t2 \<Longrightarrow>
      avail (snd (allow s k t1 t2)) key t2 =
      avail s key t2 - (if k = key \<and> fst (allow s k t1 t2) then 1 else 0)"
    and allow_ok: "ok t s \<Longrightarrow> t \<le> t1 \<Longrightarrow> t1 \<le> t2 \<Longrightarrow> ok t2 (snd (allow s k t1 t2))"
    and allow_params: "rate (snd (allow s k t1 t2)) = rate s" "burst (snd (allow s k t1 t2)) = burst s"
    and tick_hidden: "ok t s \<Longrightarrow> t \<le> now \<Longrightarrow> avail (tick s now) key now = avail s key now"
    and tick_ok: "ok t s \<Longrightarrow> t \<le> now \<Longrightarrow> ok now (tick s now)"
    and tick_params: "rate (tick s now) = rate s" "burst (tick s now) = burst s"
begin

text \<open>Whatever the other keys do, a key spends at most what it has and what flows in.\<close>

lemma count_le_avail:
  "ok t0 s \<Longrightarrow> timed t0 t evs \<Longrightarrow>
   of_nat (count_allowed allow tick key s evs) \<le> avail s key t0 + rate s * of_int (t - t0) / second"
proof (induction t0 t evs arbitrary: s rule: timed.induct)
  case (1 t0 t)
  then have "0 \<le> rate s * of_int (t - t0) / second" using rate_pos [OF 1(1)] by simp
  then show ?case using avail_nonneg [OF 1(1), of key] by simp
next
  case (2 t0 t k t1 t2 evs)
  let ?s' = "snd (allow s k t1 t2)"
  from 2 have le: "t0 \<le> t1" "t1 \<le> t2" "t0 \<le> t2" by auto
  have "of_nat (count_allowed allow tick key ?s' evs) \<le> avail ?s' key t2 + rate s * of_int (t - t2) / second"
    using "2.IH" [OF allow_ok [OF "2.prems"(1) le(1,2)]] "2.prems"(2) by (simp add: allow_params)
  moreover have "avail s key t2 \<le> avail s key t0 + rate s * of_int (t2 - t0) / second"
    by (rule avail_grows [OF "2.prems"(1) le(3)])
  moreover have "rate s * of_int (t - t2) / second + rate s * of_int (t2 - t0) / second =
      rate s * of_int (t - t0) / second"
    by (simp add: field_simps)
  moreover note allow_spends [OF "2.prems"(1) le(1,2), of k key]
  ultimately show ?case
    by (cases "allow s k t1 t2") auto
next
  case (3 t0 t now evs)
  from 3 have le: "t0 \<le> now" by simp
  have "of_nat (count_allowed allow tick key (tick s now) evs) \<le>
      avail s key now + rate s * of_int (t - now) / second"
    using "3.IH" [OF tick_ok [OF "3.prems"(1) le]] "3.prems"(2) tick_hidden [OF "3.prems"(1) le]
    by (simp add: tick_params)
  moreover have "avail s key now \<le> avail s key t0 + rate s * of_int (now - t0) / second"
    by (rule avail_grows [OF "3.prems"(1) le])
  moreover have "rate s * of_int (t - now) / second + rate s * of_int (now - t0) / second =
      rate s * of_int (t - t0) / second"
    by (simp add: field_simps)
  ultimately show ?case by simp
qed

lemma count_le_window:
  assumes "ok t0 s" and "timed t0 t evs"
  shows "of_nat (count_allowed allow tick key s evs) \<le> burst s + rate s * of_int (t - t0) / second"
  using count_le_avail [OF assms, of key] avail_burst [OF assms(1), of key] by linarith

end

section \<open>The limiter as a token bucket\<close>

definition rate_of :: "Limiter \<Rightarrow> rat" where
  "rate_of l = RequestsPerSecond (config l)"

definition burst_of :: "Limiter \<Rightarrow> rat" where
  "burst_of l = of_int (Burst (config l))"

definition wf_bucket :: "Config \<Rightarrow> instant \<Rightarrow> bucket \<Rightarrow> bool" where
  "wf_bucket cfg t b \<longleftrightarrow> 0 \<le> tokens b \<and> tokens b \<le> of_int (Burst cfg) \<and> lastTick b \<le> t"

definition wf_limiter :: "instant \<Rightarrow> Limiter \<Rightarrow> bool" where
  "wf_limiter t l \<longleftrightarrow>
     0 < RequestsPerSecond (config l) \<and> 0 < Burst (config l) \<and> wf_map (buckets l) \<and>
     (\<forall>key b. map_of (buckets l) key = Some b \<longrightarrow> wf_bucket (config l) t b)"

text \<open>The bucket refills completely in the five minutes after which it may be removed.\<close>

definition refills_in_time :: "Limiter \<Rightarrow> bool" where
  "refills_in_time l \<longleftrightarrow> of_int (Burst (config l)) \<le> 300 * RequestsPerSecond (config l)"

definition available :: "Limiter \<Rightarrow> string \<Rightarrow> instant \<Rightarrow> rat" where
  "available l key t =
     (case map_of (buckets l) key of
        None \<Rightarrow> burst_of l
      | Some b \<Rightarrow> min (burst_of l) (tokens b + rate_of l * of_int (t - lastTick b) / second))"

lemmas limiter_defs = rate_of_def burst_of_def available_def

lemma config_Allow [frame_simps, simp]: "config (snd (Allow l key t1 t2)) = config l"
  by (simp add: Allow_def Let_def)

lemma config_cleanup [frame_simps, simp]: "config (cleanup_tick l now) = config l"
  by (simp add: cleanup_tick_def)

lemma rate_burst_frame [frame_simps, simp]:
  "rate_of (snd (Allow l key t1 t2)) = rate_of l" "burst_of (snd (Allow l key t1 t2)) = burst_of l"
  "rate_of (cleanup_tick l now) = rate_of l" "burst_of (cleanup_tick l now) = burst_of l"
  by (simp_all add: rate_of_def burst_of_def)

lemma tokens_refill:
  assumes "wf_limiter t l" and "t1 \<le> t2"
  shows "tokens (refill (config l) (find_bucket l key t1) t2) = available l key t2"
proof (cases "map_of (buckets l) key")
  case None
  have "0 \<le> of_int (t2 - t1) / second * RequestsPerSecond (config l)"
    using assms by (auto simp: wf_limiter_def)
  then show ?thesis using None by (auto simp: refill_def find_bucket_def limiter_defs Let_def)
next
  case (Some b)
  then show ?thesis
    by (auto simp: refill_def find_bucket_def limiter_defs Let_def min_def mult.commute)
qed

lemma available_nonneg:
  assumes "wf_limiter t l" and "t \<le> t'"
  shows "0 \<le> available l key t'"
proof (cases "map_of (buckets l) key")
  case None
  then show ?thesis using assms by (simp add: wf_limiter_def limiter_defs)
next
  case (Some b)
  with assms have "0 \<le> tokens b" "lastTick b \<le> t'" by (fastforce simp: wf_limiter_def wf_bucket_def)+
  with assms Some show ?thesis by (simp add: wf_limiter_def limiter_defs)
qed

lemma min_add_le: "0 \<le> r \<Longrightarrow> min B (x + r) \<le> min B x + (r :: rat)"
  by (simp add: min_def)

lemma available_le_burst: "available l key t \<le> burst_of l"
  by (auto simp: available_def split: option.splits)

lemma available_grows:
  assumes "wf_limiter t l" and "t \<le> t'"
  shows "available l key t' \<le> available l key t + rate_of l * of_int (t' - t) / second"
proof -
  have r: "0 \<le> rate_of l * of_int (t' - t) / second"
    using assms by (auto simp: wf_limiter_def rate_of_def)
  show ?thesis
  proof (cases "map_of (buckets l) key")
    case None
    then show ?thesis using r by (simp add: available_def)
  next
    case (Some b)
    let ?x = "tokens b + rate_of l * of_int (t - lastTick b) / second"
    let ?r = "rate_of l * of_int (t' - t) / second"
    have "tokens b + rate_of l * of_int (t' - lastTick b) / second = ?x + ?r"
      by (simp add: field_simps)
    then have "available l key t' = min (burst_of l) (?x + ?r)"
      unfolding available_def Some option.case by (rule arg_cong)
    moreover have "available l key t = min (burst_of l) ?x"
      unfolding available_def Some option.case ..
    ultimately show ?thesis using min_add_le [OF r, of "burst_of l" ?x] by simp
  qed
qed

lemma Allow_fst:
  "wf_limiter t l \<Longrightarrow> t1 \<le> t2 \<Longrightarrow> fst (Allow l key t1 t2) \<longleftrightarrow> 1 \<le> available l key t2"
  by (auto simp: Allow_def Let_def tokens_refill)

lemma Allow_bucket:
  assumes "wf_limiter t l" and "t1 \<le> t2"
  shows "map_of (buckets (snd (Allow l key t1 t2))) =
    (map_of (buckets l))(key \<mapsto>
      \<lparr>tokens = available l key t2 - (if 1 \<le> available l key t2 then 1 else 0), lastTick = t2\<rparr>)"
proof -
  have "refill (config l) (find_bucket l key t1) t2 = \<lparr>tokens = available l key t2, lastTick = t2\<rparr>"
    using tokens_refill [OF assms, of key] by (simp add: refill_def Let_def)
  then show ?thesis by (auto simp: Allow_def Let_def)
qed

lemma Allow_available:
  assumes "wf_limiter t l" and "t \<le> t1" and "t1 \<le> t2"
  shows "available (snd (Allow l k t1 t2)) key t2 =
    available l key t2 - (if k = key \<and> fst (Allow l k t1 t2) then 1 else 0)"
proof (cases "k = key")
  case True
  show ?thesis
    using True Allow_bucket [OF assms(1,3), of key] Allow_fst [OF assms(1,3), of key]
      available_le_burst [of l key t2]
    by (auto simp: available_def [of "snd (Allow l key t1 t2)"] min_def)
next
  case False
  then show ?thesis
    using Allow_bucket [OF assms(1,3), of k] by (simp add: available_def [of _ key] split: option.split)
qed

lemma Allow_wf:
  assumes wf: "wf_limiter t l" and "t \<le> t1" "t1 \<le> t2"
  shows "wf_limiter t2 (snd (Allow l k t1 t2))"
proof -
  have "0 \<le> available l k t2" "available l k t2 \<le> of_int (Burst (config l))"
    using available_nonneg [OF wf, of t2 k] available_le_burst [of l k t2] assms by (auto simp: burst_of_def)
  moreover have "wf_map (buckets (snd (Allow l k t1 t2)))"
    using wf by (auto simp: Allow_def Let_def wf_limiter_def)
  ultimately show ?thesis
    using assms Allow_bucket [OF wf assms(3), of k]
    by (auto simp: wf_limiter_def wf_bucket_def) fastforce+
qed

lemma cleanup_lookup:
  assumes "wf_limiter t l"
  shows "map_of (buckets (cleanup_tick l now)) key =
    (case map_of (buckets l) key of None \<Rightarrow> None
     | Some b \<Rightarrow> if cleaning l \<and> lastTick b < now - stale_after then None else Some b)"
  using assms
  by (auto simp: cleanup_tick_def wf_limiter_def map_of_filter_wf split: option.splits)

lemma cleanup_wf:
  assumes "wf_limiter t l" and "t \<le> now"
  shows "wf_limiter now (cleanup_tick l now)"
proof -
  have "wf_map (buckets (cleanup_tick l now))"
    using assms(1) by (simp add: cleanup_tick_def wf_limiter_def)
  then show ?thesis
    using assms cleanup_lookup [OF assms(1)]
    by (fastforce simp: wf_limiter_def wf_bucket_def split: option.splits if_splits)
qed

lemma cleanup_available:
  assumes "wf_limiter t l" and "refills_in_time l" and "t \<le> now" and "now \<le> t'"
  shows "available (cleanup_tick l now) key t' = available l key t'"
proof (cases "map_of (buckets l) key")
  case None
  then show ?thesis using cleanup_lookup [OF assms(1), of now key] by (simp add: available_def)
next
  case (Some b)
  show ?thesis
  proof (cases "cleaning l \<and> lastTick b < now - stale_after")
    case True
    have "0 \<le> tokens b" and r: "0 < rate_of l"
      using Some assms(1) by (auto simp: wf_limiter_def wf_bucket_def rate_of_def)
    have "300 * 1000000000 \<le> t' - lastTick b" using True assms(4) by (simp add: stale_after_def)
    then have "(300 :: rat) \<le> of_int (t' - lastTick b) / second"
      by (simp add: le_divide_eq)
    then have "rate_of l * 300 \<le> rate_of l * (of_int (t' - lastTick b) / second)"
      using r by (intro mult_left_mono) auto
    then have "burst_of l \<le> tokens b + rate_of l * of_int (t' - lastTick b) / second"
      using assms(2) \<open>0 \<le> tokens b\<close> by (simp add: refills_in_time_def rate_of_def burst_of_def)
    then show ?thesis
      using True Some cleanup_lookup [OF assms(1), of now key] by (simp add: available_def)
  next
    case False
    then show ?thesis using Some cleanup_lookup [OF assms(1), of now key] by (auto simp: available_def)
  qed
qed

lemma refills_in_time_frame [frame_simps, simp]:
  "refills_in_time (snd (Allow l key t1 t2)) = refills_in_time l"
  "refills_in_time (cleanup_tick l now) = refills_in_time l"
  by (simp_all add: refills_in_time_def)

interpretation lim: token_bucket
  "\<lambda>t l. wf_limiter t l \<and> refills_in_time l" available Allow cleanup_tick rate_of burst_of
proof (unfold_locales, goal_cases)
  case (1 t s)
  then show ?case by (simp add: wf_limiter_def rate_of_def)
next
  case (2 t s key)
  then show ?case by (blast intro: available_nonneg)
next
  case (3 t s key)
  then show ?case by (simp add: available_le_burst)
next
  case (4 t s t' key)
  then show ?case by (blast intro: available_grows)
next
  case (5 t s t1 t2 key)
  then show ?case using Allow_fst by blast
next
  case (6 t s t1 t2 k key)
  then show ?case using Allow_available by blast
next
  case (7 t s t1 t2 k)
  then show ?case using Allow_wf by auto
next
  case (10 t s now key)
  then show ?case using cleanup_available by blast
next
  case (11 t s now)
  then show ?case using cleanup_wf by auto
qed simp_all

section \<open>Properties\<close>

lemma with_defaults_pos: "0 < RequestsPerSecond (with_defaults cfg)" "0 < Burst (with_defaults cfg)"
  by (auto simp: with_defaults_def Let_def)

lemma New_limiter_wf: "wf_limiter t (New_limiter cfg)"
  using with_defaults_pos by (simp add: New_limiter_def wf_limiter_def)

text \<open>
  C14: the rate limit holds on every window of every execution. From any well-formed state, for any
  interleaving of requests of all keys and cleanup passes whose times lie between \<open>t0\<close> and \<open>t\<close>,
  a key is let through at most \<open>Burst + RequestsPerSecond * (t - t0)\<close> times, provided a bucket
  refills within the five minutes after which cleanup may drop it.
\<close>

theorem limiter_window_bound:
  assumes "wf_limiter t0 l"
    and "of_int (Burst (config l)) \<le> 300 * RequestsPerSecond (config l)"
    and "timed t0 t evs"
  shows "of_nat (count_allowed Allow cleanup_tick key l evs) \<le>
    of_int (Burst (config l)) + RequestsPerSecond (config l) * of_int (t - t0) / second"
  using lim.count_le_window [of t0 l t evs key] assms
  by (simp add: refills_in_time_def rate_of_def burst_of_def)

definition demo_limiter :: Limiter where
  "demo_limiter = New_limiter \<lparr>RequestsPerSecond = 1, Burst = 2\<rparr>"

definition demo_events :: "limiter_event list" where
  "demo_events =
     [EvAllow ''a'' 0 0, EvAllow ''b'' 0 0, EvAllow ''a'' 1 1, EvAllow ''a'' 2 2,
      EvAllow ''a'' 1000000000 1000000000, EvTick 60000000000]"

theorem limiter_window_bound_witness:
  "(of_nat (count_allowed Allow cleanup_tick ''a'' demo_limiter demo_events) :: rat) \<le> 2 + 1 * 60000000000 / second"
proof -
  have cfg: "config demo_limiter = \<lparr>RequestsPerSecond = 1, Burst = 2\<rparr>"
    by (simp add: demo_limiter_def New_limiter_def with_defaults_def)
  have "wf_limiter 0 demo_limiter" by (simp add: demo_limiter_def New_limiter_wf)
  from limiter_window_bound [OF this, of 60000000000 demo_events "''a''"]
  show ?thesis by (simp add: cfg demo_events_def)
qed

text \<open>
  Every operation of the limiter keeps its invariant (positive configuration, one bucket per
  key, tokens between zero and the burst, no bucket touched in the future), a request is let
  through exactly when its key has a whole token available, it spends that token, and the buckets
  of other keys are not touched.
\<close>

theorem Allow_correct:
  assumes "wf_limiter t l" and "t \<le> t1" and "t1 \<le> t2"
  shows "wf_limiter t2 (snd (Allow l key t1 t2)) \<and>
    (fst (Allow l key t1 t2) \<longleftrightarrow> 1 \<le> available l key t2) \<and>
    available (snd (Allow l key t1 t2)) key t2 =
      available l key t2 - (if fst (Allow l key t1 t2) then 1 else 0) \<and>
    (\<forall>k. k \<noteq> key \<longrightarrow> map_of (buckets (snd (Allow l key t1 t2))) k = map_of (buckets l) k) \<and>
    (\<forall>now. t \<le> now \<longrightarrow> wf_limiter now (cleanup_tick l now))"
  using Allow_wf [OF assms] Allow_fst [OF assms(1,3)] Allow_available [OF assms, of key key]
    Allow_bucket [OF assms(1,3), of key] cleanup_wf [OF assms(1)]
  by simp

theorem Allow_correct_witness:
  "wf_limiter 5 (snd (Allow demo_limiter ''a'' 5 5)) \<and>
   (fst (Allow demo_limiter ''a'' 5 5) \<longleftrightarrow> 1 \<le> available demo_limiter ''a'' 5)"
  using Allow_correct [OF New_limiter_wf [of 0], where ?t1.0 = 5 and ?t2.0 = 5 and key = "''a''"]
  unfolding demo_limiter_def by simp

text \<open>
  Removing a stale bucket is invisible: where a bucket refills in five minutes, the tokens
  available to any key at any later instant are the same with and without the cleanup pass.
\<close>

theorem cleanup_is_invisible:
  assumes "wf_limiter t l"
    and "of_int (Burst (config l)) \<le> 300 * RequestsPerSecond (config l)"
    and "t \<le> now" and "now \<le> t'"
  shows "available (cleanup_tick l now) key t' = available l key t'"
  using cleanup_available assms by (simp add: refills_in_time_def)

theorem cleanup_is_invisible_witness:
  "available (cleanup_tick (snd (Allow demo_limiter ''a'' 0 0)) 400000000000) ''a'' 400000000000 =
   available (snd (Allow demo_limiter ''a'' 0 0)) ''a'' 400000000000"
proof (rule cleanup_is_invisible)
  show "wf_limiter 0 (snd (Allow demo_limiter ''a'' 0 0))"
    using Allow_wf [OF New_limiter_wf, of 0 0 0] unfolding demo_limiter_def by simp
qed (simp_all add: demo_limiter_def New_limiter_def with_defaults_def)

text \<open>
  Without that proviso cleanup hands out a fresh burst. With one token per 100 seconds and a
  burst of 5, a key that spends its burst at time 0 loses its bucket in a cleanup pass at 301
  seconds and is let through 10 times within these 301 seconds, more than the 5 + 3.01 the
  configuration allows.
\<close>

theorem cleanup_can_exceed_the_limit:
  "let l = New_limiter \<lparr>RequestsPerSecond = 1 / 100, Burst = 5\<rparr>;
       evs = replicate 5 (EvAllow ''a'' 0 0) @ [EvTick 301000000000] @
             replicate 5 (EvAllow ''a'' 301000000000 301000000000)
   in timed 0 301000000000 evs \<and>
      count_allowed Allow cleanup_tick ''a'' l evs = 10 \<and>
      of_int (Burst (config l)) + RequestsPerSecond (config l) * of_int (301000000000 - 0) / second < 10"
  by (simp add: New_limiter_def with_defaults_def numeral_eq_Suc Allow_def refill_def find_bucket_def
      cleanup_tick_def stale_after_def)

text \<open>
  A key is never starved: once a bucket has been left alone for the time one token takes to
  flow in, the next request of that key is let through.
\<close>

theorem Allow_not_starved:
  assumes "wf_limiter t l" and "t \<le> t1" and "t1 \<le> t2"
    and "map_of (buckets l) key = Some b"
    and "second \<le> RequestsPerSecond (config l) * of_int (t2 - lastTick b)"
  shows "fst (Allow l key t1 t2)"
proof -
  have "0 \<le> tokens b" and "1 \<le> Burst (config l)"
    using assms(1,4) by (auto simp: wf_limiter_def wf_bucket_def)
  moreover have "1 \<le> RequestsPerSecond (config l) * of_int (t2 - lastTick b) / second"
    using assms(5) by (simp add: le_divide_eq)
  ultimately have "1 \<le> available l key t2"
    using assms(4) by (simp add: limiter_defs)
  then show ?thesis using Allow_fst [OF assms(1,3)] by blast
qed

theorem Allow_not_starved_witness:
  "fst (Allow (demo_limiter\<lparr>buckets := [(''a'', \<lparr>tokens = 0, lastTick = 0\<rparr>)]\<rparr>) ''a'' 1000000000 1000000000)"
  by (rule Allow_not_starved [where t = 0 and b = "\<lparr>tokens = 0, lastTick = 0\<rparr>"])
    (auto simp: demo_limiter_def New_limiter_def with_defaults_def wf_limiter_def wf_bucket_def wf_map_def)

text \<open>
  A configured burst of zero or less is replaced by 200, so the first request of every key is
  let through whatever the configuration.
\<close>

theorem New_limiter_allows_first:
  assumes "t1 \<le> t2"
  shows "fst (Allow (New_limiter cfg) key t1 t2) \<and> (Burst cfg \<le> 0 \<longrightarrow> Burst (config (New_limiter cfg)) = 200)"
proof -
  have "1 \<le> available (New_limiter cfg) key t2"
    using with_defaults_pos [of cfg] by (simp add: limiter_defs New_limiter_def)
  then have "fst (Allow (New_limiter cfg) key t1 t2)"
    using Allow_fst [OF New_limiter_wf assms] by blast
  then show ?thesis by (simp add: New_limiter_def with_defaults_def Let_def)
qed

theorem New_limiter_allows_first_witness:
  "fst (Allow (New_limiter \<lparr>RequestsPerSecond = 10, Burst = 0\<rparr>) ''test-key'' 7 7)"
  using New_limiter_allows_first [of 7 7] by simp

end
