(* ===== verification/Admin_Api.thy ===== *)
theory Admin_Api
  imports Go_Http Opa_Evaluators Metrics
begin

text \<open>
  The admin API of \<open>cmd/server/main.go\<close>: the token check and the handlers that read and replace
  parameters and tenant configurations. The data stores live in a heap, because the embedded
  evaluator holds a reference to a store of its own choosing: an update goes to the server's store
  and, in embedded mode, to the evaluator's, which \<open>main\<close> makes the same one.

  A response is text with its status, or a JSON value with status 200; the text of a JSON error and
  the uptime are arguments, and so is the order in which a map is listed.
\<close>

section \<open>State and responses\<close>

record admin_state =
  a_heap :: "nat \<Rightarrow> DataStore"
  a_metrics :: Metrics

datatype admin_response = Text response | Json header_map gval

record admin_env =
  json_error :: "string \<Rightarrow> string"
  uptime :: string
  list_order :: "string list \<Rightarrow> string list"

type_synonym admin_handler = "http_request \<Rightarrow> admin_state \<Rightarrow> admin_response \<times> admin_state"

definition version :: string where
  "version = ''0.4.0''"

definition json_ok :: "gval \<Rightarrow> admin_response" where
  "json_ok v = Json (Header_Set ''Content-Type'' ''application/json'' []) v"

definition status_ok :: admin_response where
  "status_ok = json_ok (GObj [(''status'', GStr ''ok'')])"

section \<open>Authentication\<close>

definition bearer_token :: "string \<Rightarrow> string" where
  "bearer_token auth = (if 7 < length auth \<and> take 7 auth = ''Bearer '' then drop 7 auth else auth)"

definition requireAdminAuth :: "string \<Rightarrow> admin_handler \<Rightarrow> admin_handler" where
  "requireAdminAuth expectedToken next =
     (if expectedToken = [] then next
      else (\<lambda>r st.
        let auth = Header_Get (Header r) ''Authorization'' in
        if auth = [] then (Text (http_Error [] ''{\"error\": \"authorization required\"}'' 401), st)
        else if bearer_token auth \<noteq> expectedToken
        then (Text (http_Error [] ''{\"error\": \"invalid authorization token\"}'' 403), st)
        else next r st))"

section \<open>Handlers\<close>

definition admin_body_limit :: nat where
  "admin_body_limit = 10 * 1024 * 1024"

text \<open>
  The decoder behind the size limit sees the first ten megabytes. It stops at the closing bracket of an object,
  but needs one more byte, or the end of the body, to know that \<open>null\<close> is complete: an error of the reader in its
  place is the error of the decoder.
\<close>

definition decode_request_map :: "http_request \<Rightarrow> params option option" where
  "decode_request_map r =
     (let s = take admin_body_limit (Body r);
          reader_fails = BodyFails r \<or> admin_body_limit < length (Body r)
      in if reader_fails \<and> json_prefix s = Some (JNull, []) then None else decode_map s)"

definition handle_rules :: "nat \<Rightarrow> admin_handler" where
  "handle_rules sa r st = (json_ok (GObj (GetParams (a_heap st sa))), st)"

definition handle_rules_update :: "admin_env \<Rightarrow> opa_evaluator \<Rightarrow> nat \<Rightarrow> admin_handler" where
  "handle_rules_update env opaEval sa r st =
     (if Method r \<noteq> ''POST'' \<and> Method r \<noteq> ''PUT'' then (Text (http_Error [] ''use POST or PUT'' 405), st)
      else case decode_request_map r of
        None \<Rightarrow> (Text (http_Error [] (''{\"error\": \"invalid JSON: '' @ json_error env (Body r) @ ''\"}'') 400), st)
      | Some ps \<Rightarrow>
          (let heap1 = (a_heap st)(sa := SetParams ps (a_heap st sa));
               heap2 = (case opaEval of Embedded e \<Rightarrow> embedded_SetParams ps e heap1 | Sidecar c \<Rightarrow> heap1)
           in (status_ok, st\<lparr>a_heap := heap2, a_metrics := IncConfigReloads (a_metrics st)\<rparr>)))"

definition handle_tenants :: "admin_env \<Rightarrow> nat \<Rightarrow> admin_handler" where
  "handle_tenants env sa r st = (json_ok (GArr (map GStr (ListTenants (list_order env) (a_heap st sa)))), st)"

text \<open>Storing a changed data store together with the gauge of configured tenants.\<close>

definition update_tenants :: "nat \<Rightarrow> DataStore \<Rightarrow> admin_state \<Rightarrow> admin_state" where
  "update_tenants sa s st =
     st\<lparr>a_heap := (a_heap st)(sa := s), a_metrics := SetActiveTenants (CountTenants s) (a_metrics st)\<rparr>"

definition handle_tenant :: "admin_env \<Rightarrow> nat \<Rightarrow> admin_handler" where
  "handle_tenant env sa r st =
     (let tenantID = drop (length ''/admin/tenants/'') (Path (URL r)) in
      if tenantID = [] then (Text (http_Error [] ''tenant ID required'' 400), st)
      else if Method r = ''GET'' then
        (json_ok (case GetTenant (a_heap st sa) tenantID of None \<Rightarrow> GNull | Some cfg \<Rightarrow> GObj cfg), st)
      else if Method r = ''POST'' \<or> Method r = ''PUT'' then
        (case decode_request_map r of
           None \<Rightarrow> (Text (http_Error [] (''invalid JSON: '' @ json_error env (Body r)) 400), st)
         | Some cfg \<Rightarrow> (status_ok, update_tenants sa (SetTenant tenantID cfg (a_heap st sa)) st))
      else if Method r = ''DELETE'' then
        (status_ok, update_tenants sa (DeleteTenant tenantID (a_heap st sa)) st)
      else (Text (http_Error [] ''method not allowed'' 405), st))"

definition handle_stats :: "admin_env \<Rightarrow> nat \<Rightarrow> admin_handler" where
  "handle_stats env sa r st =
     (json_ok (GObj [(''tenants'', GNum (of_nat (CountTenants (a_heap st sa)))), (''uptime'', GStr (uptime env)),
                     (''version'', GStr version)]), st)"

definition handle_health :: admin_handler where
  "handle_health r st = (status_ok, st)"

definition admin_patterns :: "string list" where
  "admin_patterns = [''/admin/rules'', ''/admin/rules/update'', ''/admin/tenants'', ''/admin/tenants/'',
                     ''/admin/stats'', ''/admin/health'']"

definition adminMux :: "string \<Rightarrow> admin_env \<Rightarrow> opa_evaluator \<Rightarrow> nat \<Rightarrow> admin_handler" where
  "adminMux token env opaEval sa r st =
     (case mux_route admin_patterns r of
        NotFound \<Rightarrow> (Text (http_Error [] ''404 page not found'' 404), st)
      | Redirect p \<Rightarrow> (Text \<lparr>Status = 301, resp_Header = Header_Set ''Location'' p [], resp_Body = []\<rparr>, st)
      | Matched pat \<Rightarrow>
          if pat = ''/admin/rules'' then requireAdminAuth token (handle_rules sa) r st
          else if pat = ''/admin/rules/update'' then requireAdminAuth token (handle_rules_update env opaEval sa) r st
          else if pat = ''/admin/tenants'' then requireAdminAuth token (handle_tenants env sa) r st
          else if pat = ''/admin/tenants/'' then requireAdminAuth token (handle_tenant env sa) r st
          else if pat = ''/admin/stats'' then requireAdminAuth token (handle_stats env sa) r st
          else handle_health r st)"

section \<open>What a request asks of the store\<close>

text \<open>The abstract interface: a request is an operation on the data store, or none.\<close>

datatype admin_op = SetRules "params option" | TenantOp "(string, params option) store_op"

fun apply_op :: "admin_op \<Rightarrow> DataStore \<Rightarrow> DataStore" where
  "apply_op (SetRules ps) s = SetParams ps s"
| "apply_op (TenantOp op) s = run_ops SetTenant DeleteTenant [op] s"

definition authorised :: "string \<Rightarrow> http_request \<Rightarrow> bool" where
  "authorised token r \<longleftrightarrow> token = [] \<or>
     (Header_Get (Header r) ''Authorization'' \<noteq> [] \<and> bearer_token (Header_Get (Header r) ''Authorization'') = token)"

definition tenant_op :: "http_request \<Rightarrow> (string, params option) store_op option" where
  "tenant_op r =
     (let tenantID = drop (length ''/admin/tenants/'') (Path (URL r)) in
      if tenantID = [] then None
      else if Method r = ''POST'' \<or> Method r = ''PUT'' then map_option (Put tenantID) (decode_request_map r)
      else if Method r = ''DELETE'' then Some (Del tenantID) else None)"

definition admin_op_of :: "string \<Rightarrow> http_request \<Rightarrow> admin_op option" where
  "admin_op_of token r =
     (if \<not> authorised token r then None
      else case mux_route admin_patterns r of
        Matched pat \<Rightarrow>
          if pat = ''/admin/rules/update'' then
            (if Method r = ''POST'' \<or> Method r = ''PUT'' then map_option SetRules (decode_request_map r) else None)
          else if pat = ''/admin/tenants/'' then map_option TenantOp (tenant_op r)
          else None
      | _ \<Rightarrow> None)"

lemma requireAdminAuth_cases:
  "requireAdminAuth token next r st =
     (if authorised token r then next r st
      else (Text (http_Error [] (if Header_Get (Header r) ''Authorization'' = [] then ''{\"error\": \"authorization required\"}''
                                 else ''{\"error\": \"invalid authorization token\"}'')
                   (if Header_Get (Header r) ''Authorization'' = [] then 401 else 403)), st))"
  by (auto simp: requireAdminAuth_def authorised_def Let_def)

lemma SetParams_SetParams [simp]: "SetParams ps (SetParams qs s) = SetParams ps s"
  by (simp add: SetParams_def)

lemma rules_update_store:
  "a_heap (snd (handle_rules_update env opaEval sa r st)) sa =
     (if Method r = ''POST'' \<or> Method r = ''PUT'' then
        (case decode_request_map r of None \<Rightarrow> a_heap st sa | Some ps \<Rightarrow> SetParams ps (a_heap st sa))
      else a_heap st sa)"
  by (auto simp: handle_rules_update_def embedded_SetParams_def Let_def split: option.split opa_evaluator.split)

lemma handle_tenant_store:
  "a_heap (snd (handle_tenant env sa r st)) sa =
     (case tenant_op r of None \<Rightarrow> a_heap st sa | Some op \<Rightarrow> run_ops SetTenant DeleteTenant [op] (a_heap st sa))"
  by (auto simp: handle_tenant_def tenant_op_def update_tenants_def Let_def split: option.split)

lemmas read_only_handlers = handle_rules_def handle_tenants_def handle_stats_def handle_health_def

lemma adminMux_store:
  "a_heap (snd (adminMux token env opaEval sa r st)) sa =
     (case admin_op_of token r of None \<Rightarrow> a_heap st sa | Some op \<Rightarrow> apply_op op (a_heap st sa))"
  by (auto simp: adminMux_def admin_op_of_def requireAdminAuth_cases read_only_handlers rules_update_store
      handle_tenant_store split: route.split option.split)

section \<open>Runs\<close>

fun run_admin :: "string \<Rightarrow> opa_evaluator \<Rightarrow> nat \<Rightarrow> (admin_env \<times> http_request) list \<Rightarrow> admin_state \<Rightarrow> admin_state" where
  "run_admin token opaEval sa [] st = st"
| "run_admin token opaEval sa ((env, r) # rs) st = run_admin token opaEval sa rs (snd (adminMux token env opaEval sa r st))"

definition ops_of :: "string \<Rightarrow> (admin_env \<times> http_request) list \<Rightarrow> admin_op list" where
  "ops_of token rs = List.map_filter (\<lambda>(env, r). admin_op_of token r) rs"

lemma run_admin_store:
  "a_heap (run_admin token opaEval sa rs st) sa = fold apply_op (ops_of token rs) (a_heap st sa)"
proof (induction rs arbitrary: st)
  case (Cons er rs)
  obtain env r where "er = (env, r)" by (cases er)
  with Cons show ?case by (auto simp: ops_of_def map_filter_simps adminMux_store split: option.split)
qed (simp add: ops_of_def map_filter_simps)

definition tenant_ops :: "admin_op list \<Rightarrow> (string, params option) store_op list" where
  "tenant_ops ops = List.map_filter (\<lambda>op. case op of TenantOp t \<Rightarrow> Some t | SetRules ps \<Rightarrow> None) ops"

definition last_rules :: "admin_op list \<Rightarrow> params option option" where
  "last_rules ops = foldl (\<lambda>acc op. case op of SetRules ps \<Rightarrow> Some ps | TenantOp t \<Rightarrow> acc) None ops"

lemma run_ops_tenants_cong:
  "tenants s = tenants s' \<Longrightarrow> tenants (run_ops SetTenant DeleteTenant ops s) = tenants (run_ops SetTenant DeleteTenant ops s')"
proof (induction ops arbitrary: s s')
  case (Cons op ops)
  then show ?case by (cases op) (simp_all add: SetTenant_def DeleteTenant_def)
qed simp

lemma fold_tenants:
  "tenants (fold apply_op ops s) = tenants (run_ops SetTenant DeleteTenant (tenant_ops ops) s)"
proof (induction ops arbitrary: s)
  case (Cons op ops)
  show ?case
  proof (cases op)
    case (SetRules ps)
    then show ?thesis
      using Cons run_ops_tenants_cong [of "SetParams ps s" s]
      by (simp add: tenant_ops_def map_filter_simps SetParams_def)
  next
    case (TenantOp t)
    then show ?thesis using Cons by (cases t) (simp_all add: tenant_ops_def map_filter_simps)
  qed
qed (simp add: tenant_ops_def map_filter_simps)

lemma fold_params:
  "params (fold apply_op ops s) = (case last_rules ops of None \<Rightarrow> params s | Some ps \<Rightarrow> ps)"
proof (induction ops rule: rev_induct)
  case (snoc op ops)
  then show ?case by (cases op) (simp_all add: last_rules_def run_ops_params SetParams_def del: run_ops.simps)
qed (simp add: last_rules_def)

section \<open>Reachable states\<close>

inductive admin_reachable :: "string \<Rightarrow> opa_evaluator \<Rightarrow> nat \<Rightarrow> admin_state \<Rightarrow> admin_state \<Rightarrow> bool"
  for token opaEval sa st0 where
    start: "admin_reachable token opaEval sa st0 st0"
  | request: "admin_reachable token opaEval sa st0 st \<Longrightarrow>
      admin_reachable token opaEval sa st0 (snd (adminMux token env opaEval sa r st))"

definition admin_inv :: "nat \<Rightarrow> admin_state \<Rightarrow> bool" where
  "admin_inv sa st \<longleftrightarrow> wf_store (a_heap st sa) \<and> ActiveTenants (a_metrics st) = CountTenants (a_heap st sa)"

lemma decode_request_map_wf: "decode_request_map r = Some (Some m) \<Longrightarrow> wf_map m"
  by (auto simp: decode_request_map_def decode_map_def Let_def bind_eq_Some_conv dest: json_to_map_wf split: if_splits)

lemma SetParams_inv: "wf_store s \<Longrightarrow> (\<And>m. ps = Some m \<Longrightarrow> wf_map m) \<Longrightarrow> wf_store (SetParams ps s)"
  by (auto simp: wf_store_def SetParams_def split: option.split)

lemma rules_update_inv: "admin_inv sa st \<Longrightarrow> admin_inv sa (snd (handle_rules_update env opaEval sa r st))"
  by (auto simp: admin_inv_def handle_rules_update_def embedded_SetParams_def IncConfigReloads_def CountTenants_def
      Let_def decode_request_map_wf SetParams_def wf_store_def split: option.split opa_evaluator.split)

lemma update_tenants_inv: "wf_store s \<Longrightarrow> admin_inv sa (update_tenants sa s st)"
  by (simp add: admin_inv_def update_tenants_def SetActiveTenants_def)

lemma handle_tenant_inv: "admin_inv sa st \<Longrightarrow> admin_inv sa (snd (handle_tenant env sa r st))"
  by (auto simp: handle_tenant_def Let_def admin_inv_def [of sa st]
      intro!: update_tenants_inv tenant_map.ok_put tenant_map.ok_del split: option.split)

lemma adminMux_inv: "admin_inv sa st \<Longrightarrow> admin_inv sa (snd (adminMux token env opaEval sa r st))"
  by (auto simp: adminMux_def requireAdminAuth_cases read_only_handlers rules_update_inv handle_tenant_inv
      split: route.split)

lemma longest_in: "longest ps = Some p \<Longrightarrow> p \<in> set ps"
proof -
  have "foldl (\<lambda>best p. case best of None \<Rightarrow> Some p | Some b \<Rightarrow> if length b < length p then Some p else Some b) a ps = Some p \<Longrightarrow>
      p \<in> set ps \<or> a = Some p" for a
    by (induction ps arbitrary: a) (fastforce split: option.splits if_splits)+
  then show "longest ps = Some p \<Longrightarrow> p \<in> set ps" by (auto simp: longest_def)
qed

lemma mux_route_Matched: "mux_route pats r = Matched pat \<Longrightarrow> pat \<in> set pats \<and> pattern_matches pat (Path (URL r))"
  by (auto simp: mux_route_def Let_def split: if_splits option.splits dest!: longest_in)

section \<open>Properties\<close>

text \<open>The paths behind the token check, when the router takes them as they are.\<close>

definition protected_path :: "http_request \<Rightarrow> bool" where
  "protected_path r \<longleftrightarrow>
     (let p = Path (URL r) in
      (Method r = ''CONNECT'' \<or> cleanPath p = p) \<and>
      (p \<in> {''/admin/rules'', ''/admin/rules/update'', ''/admin/tenants'', ''/admin/stats''} \<or> HasPrefix p ''/admin/tenants/''))"

lemma mux_route_protected:
  "protected_path r \<longleftrightarrow> mux_route admin_patterns r \<in>
     Matched ` {''/admin/rules'', ''/admin/rules/update'', ''/admin/tenants'', ''/admin/tenants/'', ''/admin/stats''}"
proof -
  have pats: "filter (\<lambda>pat. pattern_matches pat p) admin_patterns =
      (if HasPrefix p ''/admin/tenants/'' then [''/admin/tenants/'']
       else if p \<in> {''/admin/rules'', ''/admin/rules/update'', ''/admin/tenants'', ''/admin/stats'', ''/admin/health''} then [p] else [])" for p
    by (auto simp: admin_patterns_def pattern_matches_def HasSuffix_def HasPrefix_def)
  show ?thesis
    unfolding mux_route_def protected_path_def Let_def pats by (auto simp: longest_def)
qed

text \<open>
  C18: without the token nothing moves. When a token is configured, a request whose Authorization
  header is neither the token nor \<open>Bearer\<close> and the token changes no state. On every path behind the token check
  it gets 401 without an Authorization header and 403 with a wrong one; on any other path than that of
  the health check it gets 404, or a redirect (301) to the clean form of its path.
\<close>

theorem admin_requires_token:
  assumes "token \<noteq> []" and "Header_Get (Header r) ''Authorization'' \<noteq> token"
    and "Header_Get (Header r) ''Authorization'' \<noteq> ''Bearer '' @ token"
  shows "snd (adminMux token env opaEval sa r st) = st \<and>
    (Path (URL r) \<noteq> ''/admin/health'' \<longrightarrow>
      (\<exists>resp. fst (adminMux token env opaEval sa r st) = Text resp \<and>
         (if protected_path r then Status resp = (if Header_Get (Header r) ''Authorization'' = [] then 401 else 403)
          else Status resp = 404 \<or> Status resp = 301 \<and> cleanPath (Path (URL r)) \<noteq> Path (URL r))))"
proof -
  have "bearer_token auth = token \<Longrightarrow> auth = token \<or> auth = ''Bearer '' @ token" for auth
    using append_take_drop_id [of 7 auth] unfolding bearer_token_def by (metis (full_types))
  with assms have no: "\<not> authorised token r" by (auto simp: authorised_def)
  let ?pats = "{''/admin/rules'', ''/admin/rules/update'', ''/admin/tenants'', ''/admin/tenants/'', ''/admin/stats''}"
  show ?thesis
  proof (cases "mux_route admin_patterns r")
    case (Matched pat)
    show ?thesis
    proof (cases "pat \<in> ?pats")
      case True
      then have "protected_path r" unfolding mux_route_protected Matched by blast
      moreover obtain next_handler where "adminMux token env opaEval sa r st = requireAdminAuth token next_handler r st"
        using True unfolding adminMux_def Matched route.case by (elim insertE emptyE) auto
      ultimately show ?thesis using no by (simp add: requireAdminAuth_cases http_Error_def)
    next
      case False
      then have "adminMux token env opaEval sa r st = handle_health r st"
        unfolding adminMux_def Matched route.case by simp
      moreover have "Path (URL r) = ''/admin/health''"
        using mux_route_Matched [OF Matched] False by (auto simp: admin_patterns_def pattern_matches_def HasSuffix_def)
      ultimately show ?thesis by (simp add: handle_health_def)
    qed
  next
    case (Redirect p)
    then have "\<not> protected_path r" unfolding mux_route_protected by auto
    moreover have "cleanPath (Path (URL r)) \<noteq> Path (URL r)"
      using Redirect by (auto simp: mux_route_def Let_def split: if_splits option.splits)
    ultimately show ?thesis using Redirect by (simp add: adminMux_def)
  next
    case NotFound
    then have "\<not> protected_path r" unfolding mux_route_protected by auto
    then show ?thesis using NotFound by (simp add: adminMux_def http_Error_def)
  qed
qed

text \<open>
  C19: the admin API implements the store. Whatever requests arrive, authorised or not, the data
  store ends up as if exactly the accepted updates had been applied to it in order: a tenant has
  the configuration of the last accepted update since its last deletion, the parameters are those
  of the last accepted rules update; in embedded mode too, where the same store is written twice.
\<close>

theorem admin_api_refines_store:
  assumes "wf_store (a_heap st sa)" and "st' = run_admin token opaEval sa rs st"
  shows "a_heap st' sa = fold apply_op (ops_of token rs) (a_heap st sa) \<and>
    GetTenant (a_heap st' sa) t =
      (case last_write (tenant_ops (ops_of token rs)) t of
         None \<Rightarrow> GetTenant (a_heap st sa) t | Some None \<Rightarrow> None | Some (Some cfg) \<Rightarrow> cfg) \<and>
    params (a_heap st' sa) = (case last_rules (ops_of token rs) of None \<Rightarrow> params (a_heap st sa) | Some ps \<Rightarrow> ps)"
proof -
  have "GetTenant (a_heap st' sa) t = GetTenant (run_ops SetTenant DeleteTenant (tenant_ops (ops_of token rs)) (a_heap st sa)) t"
    by (simp add: assms(2) GetTenant_def run_admin_store fold_tenants)
  with tenant_map.get_run [OF assms(1)] show ?thesis
    by (simp add: assms(2) run_admin_store fold_params)
qed

definition admin_request :: "string \<Rightarrow> string \<Rightarrow> string \<Rightarrow> string \<Rightarrow> http_request" where
  "admin_request meth path auth body =
     \<lparr>Method = meth, URL = \<lparr>Scheme = [], url_Host = [], Path = path, RawQuery = []\<rparr>, Header = [(''Authorization'', auth)],
      Host = ''localhost:8082'', RemoteAddr = ''10.0.0.1:999'', Body = body, BodyFails = False\<rparr>"

definition demo_admin_env :: admin_env where
  "demo_admin_env = \<lparr>json_error = (\<lambda>_. ''invalid character''), uptime = ''1s'', list_order = rev\<rparr>"

definition demo_admin_state :: admin_state where
  "demo_admin_state = \<lparr>a_heap = (\<lambda>_. NewDataStore), a_metrics = zero_Metrics\<rparr>"

theorem admin_requires_token_witness:
  "\<exists>resp. adminMux ''s3cret'' demo_admin_env (Sidecar demo_client) 0
     (admin_request ''DELETE'' ''/admin/tenants/acme'' ''Bearer wrong'' []) demo_admin_state = (Text resp, demo_admin_state) \<and> Status resp = 403"
proof -
  let ?r = "admin_request ''DELETE'' ''/admin/tenants/acme'' ''Bearer wrong'' []"
  have "CanonicalKey ''Authorization'' = ''Authorization''" by code_simp
  then have "Header_Get (Header ?r) ''Authorization'' = ''Bearer wrong''"
    by (simp add: admin_request_def Header_Get_def)
  moreover have "protected_path ?r" by code_simp
  moreover have "Path (URL ?r) \<noteq> ''/admin/health''" by (simp add: admin_request_def)
  ultimately show ?thesis
    using admin_requires_token [of "''s3cret''" ?r demo_admin_env "Sidecar demo_client" 0 demo_admin_state]
    by (cases "adminMux ''s3cret'' demo_admin_env (Sidecar demo_client) 0 ?r demo_admin_state") auto
qed

theorem admin_api_refines_store_witness:
  "GetTenant (a_heap (run_admin ''s3cret'' (Sidecar demo_client) 0
     [(demo_admin_env, admin_request ''PUT'' ''/admin/tenants/acme'' ''Bearer s3cret'' ''{\"ban\":true}''),
      (demo_admin_env, admin_request ''DELETE'' ''/admin/tenants/acme'' ''Bearer wrong'' [])] demo_admin_state) 0) ''acme'' =
   Some [(''ban'', GBool True)]"
proof -
  let ?rs = "[(demo_admin_env, admin_request ''PUT'' ''/admin/tenants/acme'' ''Bearer s3cret'' ''{\"ban\":true}''),
      (demo_admin_env, admin_request ''DELETE'' ''/admin/tenants/acme'' ''Bearer wrong'' [])]"
  have d: "decode_map ''{\"ban\":true}'' = Some (Some [(''ban'', GBool True)])" by code_simp
  have "length ''{\"ban\":true}'' \<le> admin_body_limit" by (simp add: admin_body_limit_def)
  with d have "decode_request_map (admin_request ''PUT'' ''/admin/tenants/acme'' ''Bearer s3cret'' ''{\"ban\":true}'') =
      Some (Some [(''ban'', GBool True)])"
    by (simp add: decode_request_map_def admin_request_def Let_def)
  moreover have "authorised ''s3cret'' (admin_request ''PUT'' ''/admin/tenants/acme'' ''Bearer s3cret'' ''{\"ban\":true}'')"
    "\<not> authorised ''s3cret'' (admin_request ''DELETE'' ''/admin/tenants/acme'' ''Bearer wrong'' [])"
    "mux_route admin_patterns (admin_request ''PUT'' ''/admin/tenants/acme'' ''Bearer s3cret'' ''{\"ban\":true}'') = Matched ''/admin/tenants/''"
    by code_simp+
  ultimately have ops: "ops_of ''s3cret'' ?rs = [TenantOp (Put ''acme'' (Some [(''ban'', GBool True)]))]"
    by (simp add: ops_of_def map_filter_simps admin_op_of_def tenant_op_def) (simp add: admin_request_def)
  have "wf_store (a_heap demo_admin_state 0)" by (simp add: demo_admin_state_def wf_store_def NewDataStore_def)
  from admin_api_refines_store [OF this refl, of "''s3cret''" "Sidecar demo_client" ?rs "''acme''",
      THEN conjunct2, THEN conjunct1]
  show ?thesis unfolding ops by (simp add: tenant_ops_def map_filter_simps del: run_admin.simps)
qed

text \<open>
  C40: in every state the admin API can reach, every tenant and every parameter has one entry, and the
  gauge of active tenants shows exactly the number of configured tenants.
\<close>

theorem admin_invariant:
  assumes "admin_reachable token opaEval sa st0 st" and "admin_inv sa st0"
  shows "wf_store (a_heap st sa) \<and> ActiveTenants (a_metrics st) = CountTenants (a_heap st sa)"
  using assms(1)
proof induction
  case start
  then show ?case using assms(2) by (simp add: admin_inv_def)
next
  case (request st env r)
  then have "admin_inv sa st" by (simp add: admin_inv_def)
  from adminMux_inv [OF this] show ?case by (simp add: admin_inv_def)
qed

theorem admin_invariant_witness:
  "ActiveTenants (a_metrics (snd (adminMux [] demo_admin_env (Sidecar demo_client) 0
     (admin_request ''DELETE'' ''/admin/tenants/acme'' [] []) demo_admin_state))) =
   CountTenants (a_heap (snd (adminMux [] demo_admin_env (Sidecar demo_client) 0
     (admin_request ''DELETE'' ''/admin/tenants/acme'' [] []) demo_admin_state)) 0)"
  using admin_invariant [OF request [OF start], of 0 demo_admin_state "[]" demo_admin_env "Sidecar demo_client"
      "admin_request ''DELETE'' ''/admin/tenants/acme'' [] []"]
  by (simp add: admin_inv_def demo_admin_state_def wf_store_def NewDataStore_def zero_Metrics_def CountTenants_def)

end
