(* ===== verification/Server.thy ===== *)
theory Server
  imports Handler_Properties Rate_Limiter Admin_Api
begin

text \<open>
  \<open>cmd/server/main.go\<close>: from the command line to a running server (validation of the flags, the
  schema, the evaluator, the limits), the rate-limiting middleware and the main router. Reading
  files, parsing URLs and schemas, and compiling policies are arguments. Listening and shutdown are
  in \<open>Lifecycle\<close>; logging has no part in the model. The server's data store is at address 0 of the heap.
\<close>

section \<open>Flags\<close>

record flags =
  f_listen :: string
  f_upstream :: string
  f_opa :: string
  f_opa_embed :: string
  f_opa_params :: string
  f_schema :: string
  f_admin :: string
  f_admin_token :: string
  f_cache_ttl :: duration
  f_fail_closed :: bool
  f_audit_only :: bool
  f_max_body_mb :: "64 word"
  f_tls_cert :: string
  f_tls_key :: string
  f_metrics_listen :: string
  f_log_format :: string
  f_rate_limit :: rat
  f_rate_burst :: "64 word"
  f_allowed_operation_names :: string

datatype fatal =
    NoOpaMode
  | BothOpaModes
  | NegativeBody
  | SchemaFailed schema_error
  | PolicyUnreadable
  | ParamsUnreadable
  | ParamsInvalid
  | EmbedFailed embed_error
  | UpstreamInvalid new_error

text \<open>What the outside world supplies at start.\<close>

record 'd outside =
  ReadFile :: "string \<Rightarrow> string option"
  ParseSchema :: "string \<Rightarrow> 'd option"
  ValidateSchemaDocument :: "'d \<Rightarrow> ast_schema option"
  Prepare :: rego_prepare
  parse_url :: "string \<Rightarrow> url option"

definition validate_flags :: "flags \<Rightarrow> fatal option" where
  "validate_flags f =
     (if f_opa f = [] \<and> f_opa_embed f = [] then Some NoOpaMode
      else if f_opa f \<noteq> [] \<and> f_opa_embed f \<noteq> [] then Some BothOpaModes
      else if sint (f_max_body_mb f) < 0 then Some NegativeBody
      else None)"

definition load_schema :: "'d outside \<Rightarrow> flags \<Rightarrow> fatal + SchemaInfo option" where
  "load_schema out f =
     (if f_schema f = [] then Inr None
      else case LoadSchema (ParseSchema out) (ValidateSchemaDocument out) (ReadFile out) (f_schema f) of
        Inl e \<Rightarrow> Inl (SchemaFailed e)
      | Inr s \<Rightarrow> Inr (Some s))"

definition load_params :: "'d outside \<Rightarrow> flags \<Rightarrow> DataStore \<Rightarrow> fatal + DataStore" where
  "load_params out f s =
     (if f_opa_params f = [] then Inr s
      else case ReadFile out (f_opa_params f) of
        None \<Rightarrow> Inl ParamsUnreadable
      | Some data \<Rightarrow>
          (case LoadParamsFromJSON data s of
             (True, s') \<Rightarrow> Inl ParamsInvalid
           | (False, s') \<Rightarrow> Inr s'))"

definition apply_operation_names :: "flags \<Rightarrow> DataStore \<Rightarrow> DataStore" where
  "apply_operation_names f s =
     (if f_allowed_operation_names f = [] then s
      else let names = Split (f_allowed_operation_names f) (CHR '','')
           in SetParams (Some (AList.update ''allowed_operation_names'' (GArr (map GStr names)) (GetParams s))) s)"

definition build_opa :: "'d outside \<Rightarrow> flags \<Rightarrow> DataStore \<Rightarrow> fatal + (opa_evaluator \<times> DataStore)" where
  "build_opa out f s =
     (if f_opa f \<noteq> [] then Inr (Sidecar (NewSidecar (f_opa f)), s)
      else case ReadFile out (f_opa_embed f) of
        None \<Rightarrow> Inl PolicyUnreadable
      | Some policyData \<Rightarrow>
          (case load_params out f s of
             Inl e \<Rightarrow> Inl e
           | Inr s1 \<Rightarrow>
               (let s2 = apply_operation_names f s1 in
                case NewEmbedded (Prepare out) 1 \<lparr>cfg_Policy = policyData, cfg_Store = Some 0\<rparr> (\<lambda>_. s2) of
                  (Inl e, heap) \<Rightarrow> Inl (EmbedFailed e)
                | (Inr e, heap) \<Rightarrow> Inr (Embedded e, heap 0))))"

text \<open>The size limit and the burst are computed in 64-bit integers.\<close>

definition max_body_bytes :: "flags \<Rightarrow> int" where
  "max_body_bytes f = sint (f_max_body_mb f * 1024 * 1024)"

definition burst_size :: "flags \<Rightarrow> int" where
  "burst_size f =
     (if sint (f_rate_burst f) \<le> 0 then sint (word_of_int \<lfloor>f_rate_limit f\<rfloor> * 2 :: 64 word)
      else sint (f_rate_burst f))"

definition build_limiter :: "flags \<Rightarrow> Limiter option" where
  "build_limiter f =
     (if 0 < f_rate_limit f then Some (New_limiter \<lparr>RequestsPerSecond = f_rate_limit f, Burst = burst_size f\<rparr>)
      else None)"

record server =
  srv_handler :: Handler
  srv_limiter :: "Limiter option"
  srv_world :: world
  srv_metrics :: Metrics
  srv_patterns :: "string list"
  srv_admin :: "string option"

definition startup :: "'d outside \<Rightarrow> (nat \<Rightarrow> instant) \<Rightarrow> flags \<Rightarrow> fatal + server" where
  "startup out clock f =
     (case validate_flags f of
        Some e \<Rightarrow> Inl e
      | None \<Rightarrow>
          (case load_schema out f of
             Inl e \<Rightarrow> Inl e
           | Inr sch \<Rightarrow>
               (case build_opa out f NewDataStore of
                  Inl e \<Rightarrow> Inl e
                | Inr (ev, s) \<Rightarrow>
                    (let c = \<lparr>opa = ev, opaStore = Some 0, schema = sch, cacheTTL = f_cache_ttl f, cache = None,
                              opaFailClosed = f_fail_closed f, opaAuditOnly = f_audit_only f\<rparr>
                     in case New (parse_url out) (f_upstream f) of
                          Inl e \<Rightarrow> Inl (UpstreamInvalid e)
                        | Inr h \<Rightarrow>
                            Inr \<lparr>srv_handler = h\<lparr>MaxBodyBytes := max_body_bytes f\<rparr>,
                                 srv_limiter = build_limiter f,
                                 srv_world = \<lparr>w_eval = c, w_heap = (\<lambda>_. s), w_clock = clock, w_tick = 0\<rparr>,
                                 srv_metrics = zero_Metrics,
                                 srv_patterns = (if f_metrics_listen f \<noteq> [] then [''/''] else [''/'', ''/metrics'']),
                                 srv_admin = (if f_admin f \<noteq> [] then Some (f_admin_token f) else None)\<rparr>))))"

section \<open>Rate limiting\<close>

definition rate_key :: "http_request \<Rightarrow> string" where
  "rate_key r =
     (let xff = Header_Get (Header r) ''X-Forwarded-For'';
          idx = IndexByte xff (CHR '','');
          key1 = (if xff \<noteq> [] then
                    (if 0 < idx then TrimSpace (take (nat idx) xff) else TrimSpace xff)
                  else RemoteAddr r);
          apiKey = Header_Get (Header r) ''X-API-Key''
      in if apiKey \<noteq> [] then apiKey else key1)"

definition limited_response :: response where
  "limited_response =
     \<lparr>Status = 429,
      resp_Header = Header_Set ''Retry-After'' ''1'' (Header_Set ''Content-Type'' ''application/json'' []),
      resp_Body = ''{\"error\":\"rate limit exceeded\",\"retry_after\":1}''\<rparr>"

text \<open>\<open>Inr\<close> is what the wrapped handler did.\<close>

definition rateLimitMiddleware ::
  "('s \<Rightarrow> 'a \<times> 's) \<Rightarrow> http_request \<Rightarrow> instant \<Rightarrow> instant \<Rightarrow> Limiter \<times> 's \<Rightarrow> (response + 'a) \<times> Limiter \<times> 's"
  where
    "rateLimitMiddleware next r t1 t2 ls =
       (let (l, s) = ls; (ok, l') = Allow l (rate_key r) t1 t2 in
        if \<not> ok then (Inl limited_response, l', s)
        else (let (a, s') = next s in (Inr a, l', s')))"

section \<open>The main router\<close>

datatype served = Proxied "outcome option" | Limited response | MetricsPage | Moved string | NoRoute

record arrival =
  ar_request :: http_request
  ar_env :: environment
  ar_t1 :: instant
  ar_t2 :: instant

definition serve_main :: "field_lookup \<Rightarrow> http_post \<Rightarrow> arrival \<Rightarrow> server \<Rightarrow> served \<times> server" where
  "serve_main ForName Post a srv =
     (case mux_route (srv_patterns srv) (ar_request a) of
        NotFound \<Rightarrow> (NoRoute, srv)
      | Redirect p \<Rightarrow> (Moved p, srv)
      | Matched pat \<Rightarrow>
          if pat = ''/metrics'' then (MetricsPage, srv)
          else
            let next = (\<lambda>(w, m). ServeHTTP (composite_eval ForName Post) (ar_env a) (srv_handler srv) (ar_request a) (w, m));
                wm = (srv_world srv, srv_metrics srv)
            in case srv_limiter srv of
                 None \<Rightarrow>
                   (let (out, w, m) = next wm in (Proxied out, srv\<lparr>srv_world := w, srv_metrics := m\<rparr>))
               | Some l \<Rightarrow>
                   (case rateLimitMiddleware next (ar_request a) (ar_t1 a) (ar_t2 a) (l, wm) of
                      (Inl resp, l', w, m) \<Rightarrow>
                        (Limited resp, srv\<lparr>srv_limiter := Some l', srv_world := w, srv_metrics := m\<rparr>)
                    | (Inr out, l', w, m) \<Rightarrow>
                        (Proxied out, srv\<lparr>srv_limiter := Some l', srv_world := w, srv_metrics := m\<rparr>)))"

section \<open>Runs of the server\<close>

datatype server_event = Arrives arrival | Cleanup instant

text \<open>How many requests of a rate-limiting key reach the proxy handler.\<close>

fun reached :: "field_lookup \<Rightarrow> http_post \<Rightarrow> string \<Rightarrow> server_event list \<Rightarrow> server \<Rightarrow> nat" where
  "reached ForName Post key [] srv = 0"
| "reached ForName Post key (Arrives a # es) srv =
     (let (out, srv') = serve_main ForName Post a srv
      in (if rate_key (ar_request a) = key \<and> (case out of Proxied _ \<Rightarrow> True | _ \<Rightarrow> False) then 1 else 0) +
         reached ForName Post key es srv')"
| "reached ForName Post key (Cleanup now # es) srv =
     reached ForName Post key es (srv\<lparr>srv_limiter := map_option (\<lambda>l. cleanup_tick l now) (srv_limiter srv)\<rparr>)"

definition routed :: "string list \<Rightarrow> http_request \<Rightarrow> bool" where
  "routed pats r \<longleftrightarrow> (case mux_route pats r of Matched pat \<Rightarrow> pat \<noteq> ''/metrics'' | _ \<Rightarrow> False)"

fun limiter_events :: "string list \<Rightarrow> server_event list \<Rightarrow> limiter_event list" where
  "limiter_events pats [] = []"
| "limiter_events pats (Arrives a # es) =
     (if routed pats (ar_request a) then [EvAllow (rate_key (ar_request a)) (ar_t1 a) (ar_t2 a)] else []) @
     limiter_events pats es"
| "limiter_events pats (Cleanup now # es) = EvTick now # limiter_events pats es"

lemma serve_main_unrouted:
  assumes "\<not> routed (srv_patterns srv) (ar_request a)"
  shows "snd (serve_main ForName Post a srv) = srv" and "\<not> (\<exists>out. fst (serve_main ForName Post a srv) = Proxied out)"
  using assms by (auto simp: serve_main_def routed_def split: route.splits)

lemma serve_main_limiter:
  assumes "routed (srv_patterns srv) (ar_request a)" and "srv_limiter srv = Some l"
  shows "srv_limiter (snd (serve_main ForName Post a srv)) = Some (snd (Allow l (rate_key (ar_request a)) (ar_t1 a) (ar_t2 a)))"
    and "srv_patterns (snd (serve_main ForName Post a srv)) = srv_patterns srv"
    and "(\<exists>out. fst (serve_main ForName Post a srv) = Proxied out) \<longleftrightarrow> fst (Allow l (rate_key (ar_request a)) (ar_t1 a) (ar_t2 a))"
    and "\<not> fst (Allow l (rate_key (ar_request a)) (ar_t1 a) (ar_t2 a)) \<Longrightarrow>
      serve_main ForName Post a srv = (Limited limited_response,
        srv\<lparr>srv_limiter := Some (snd (Allow l (rate_key (ar_request a)) (ar_t1 a) (ar_t2 a)))\<rparr>)"
proof -
  obtain pat where m: "mux_route (srv_patterns srv) (ar_request a) = Matched pat" "pat \<noteq> ''/metrics''"
    using assms(1) by (auto simp: routed_def split: route.splits)
  obtain ok l' where al: "Allow l (rate_key (ar_request a)) (ar_t1 a) (ar_t2 a) = (ok, l')"
    by (cases "Allow l (rate_key (ar_request a)) (ar_t1 a) (ar_t2 a)")
  have run: "serve_main ForName Post a srv =
      (if ok then
         (let (out, w, m) = ServeHTTP (composite_eval ForName Post) (ar_env a) (srv_handler srv) (ar_request a) (srv_world srv, srv_metrics srv)
          in (Proxied out, srv\<lparr>srv_limiter := Some l', srv_world := w, srv_metrics := m\<rparr>))
       else (Limited limited_response, srv\<lparr>srv_limiter := Some l'\<rparr>))"
    using m assms(2) al by (simp add: serve_main_def rateLimitMiddleware_def Let_def case_prod_beta)
  show "srv_limiter (snd (serve_main ForName Post a srv)) = Some (snd (Allow l (rate_key (ar_request a)) (ar_t1 a) (ar_t2 a)))"
    and "srv_patterns (snd (serve_main ForName Post a srv)) = srv_patterns srv"
    and "(\<exists>out. fst (serve_main ForName Post a srv) = Proxied out) \<longleftrightarrow> fst (Allow l (rate_key (ar_request a)) (ar_t1 a) (ar_t2 a))"
    and "\<not> fst (Allow l (rate_key (ar_request a)) (ar_t1 a) (ar_t2 a)) \<Longrightarrow>
      serve_main ForName Post a srv = (Limited limited_response,
        srv\<lparr>srv_limiter := Some (snd (Allow l (rate_key (ar_request a)) (ar_t1 a) (ar_t2 a)))\<rparr>)"
    unfolding run al by (simp_all add: case_prod_beta Let_def)
qed

lemma is_Proxied: "(case out of Proxied x \<Rightarrow> True | _ \<Rightarrow> False) \<longleftrightarrow> (\<exists>x. out = Proxied x)"
  by (cases out) auto

lemma reached_count_allowed:
  "srv_limiter srv = Some l \<Longrightarrow>
   reached ForName Post key es srv = count_allowed Allow cleanup_tick key l (limiter_events (srv_patterns srv) es)"
proof (induction es arbitrary: srv l)
  case (Cons ev es)
  show ?case
  proof (cases ev)
    case (Arrives a)
    show ?thesis
    proof (cases "routed (srv_patterns srv) (ar_request a)")
      case True
      note sl = serve_main_limiter [OF True Cons.prems, of ForName Post]
      show ?thesis
        using Cons.IH [OF sl(1)] sl(2,3) True by (auto simp: Arrives case_prod_beta Let_def is_Proxied)
    next
      case False
      with serve_main_unrouted [OF False, of ForName Post] Cons show ?thesis
        by (simp add: Arrives case_prod_beta Let_def is_Proxied)
    qed
  next
    case (Cleanup now)
    then show ?thesis using Cons by simp
  qed
qed simp

section \<open>Properties\<close>

text \<open>
  What a successful start guarantees: exactly one policy mode is configured, the evaluator is
  ready (the sidecar has an endpoint, so its allow-everything answer for an empty endpoint cannot
  occur; the embedded evaluator has both queries compiled), the upstream is an http or https URL
  with a host, the size limit flag was not negative, and the cache is empty.
\<close>

theorem startup_configured:
  assumes "startup out clock f = Inr srv"
  shows "(f_opa f = []) \<noteq> (f_opa_embed f = []) \<and> opa_Configured (opa (w_eval (srv_world srv))) \<and>
    (\<forall>e. opa (w_eval (srv_world srv)) = Embedded e \<longrightarrow> prepared e \<noteq> None \<and> preparedDeny e \<noteq> None \<and> store e = 0) \<and>
    (\<forall>c. opa (w_eval (srv_world srv)) = Sidecar c \<longrightarrow> endpoint c = f_opa f \<and> endpoint c \<noteq> []) \<and>
    Scheme (upstream (srv_handler srv)) \<in> {''http'', ''https''} \<and> url_Host (upstream (srv_handler srv)) \<noteq> [] \<and>
    0 \<le> sint (f_max_body_mb f) \<and> cache (w_eval (srv_world srv)) = None \<and> opaStore (w_eval (srv_world srv)) = Some 0"
proof -
  from assms obtain sch ev s h where v: "validate_flags f = None" and b: "build_opa out f NewDataStore = Inr (ev, s)"
    and n: "New (parse_url out) (f_upstream f) = Inr h"
    and srv: "opa (w_eval (srv_world srv)) = ev" "upstream (srv_handler srv) = upstream h"
      "cache (w_eval (srv_world srv)) = None" "opaStore (w_eval (srv_world srv)) = Some 0"
    by (auto simp: startup_def Let_def split: option.splits sum.splits prod.splits)
  have "opa_Configured ev \<and> (\<forall>e. ev = Embedded e \<longrightarrow> prepared e \<noteq> None \<and> preparedDeny e \<noteq> None \<and> store e = 0) \<and>
      (\<forall>c. ev = Sidecar c \<longrightarrow> endpoint c = f_opa f \<and> endpoint c \<noteq> [])"
    using b by (auto simp: build_opa_def NewSidecar_def sidecar_Configured_def embedded_Configured_def NewEmbedded_def
        embed_compile_def Let_def split: if_splits option.splits sum.splits prod.splits)
  moreover have "Scheme (upstream h) \<in> {''http'', ''https''} \<and> url_Host (upstream h) \<noteq> []"
    using n by (auto simp: New_def split: option.splits if_splits)
  moreover have "(f_opa f = []) \<noteq> (f_opa_embed f = []) \<and> 0 \<le> sint (f_max_body_mb f)"
    using v by (auto simp: validate_flags_def split: if_splits)
  ultimately show ?thesis unfolding srv by blast
qed

definition demo_flags :: flags where
  "demo_flags =
     \<lparr>f_listen = '':8081'', f_upstream = ''http://backend:8080'', f_opa = ''http://opa:8181/v1/data/graphql'', f_opa_embed = [],
      f_opa_params = [], f_schema = [], f_admin = '':8082'', f_admin_token = ''s3cret'', f_cache_ttl = 0,
      f_fail_closed = True, f_audit_only = False, f_max_body_mb = 1, f_tls_cert = [], f_tls_key = [], f_metrics_listen = [],
      f_log_format = ''text'', f_rate_limit = 1,
      f_rate_burst = 2, f_allowed_operation_names = []\<rparr>"

definition demo_outside :: "unit outside" where
  "demo_outside = \<lparr>ReadFile = (\<lambda>_. None), ParseSchema = (\<lambda>_. None), ValidateSchemaDocument = (\<lambda>_. None),
     Prepare = (\<lambda>_ _. None), parse_url = (\<lambda>_. Some demo_target)\<rparr>"

definition demo_server :: server where
  "demo_server =
     \<lparr>srv_handler = demo_handler, srv_limiter = Some demo_limiter,
      srv_world = \<lparr>w_eval = \<lparr>opa = Sidecar demo_client, opaStore = Some 0, schema = None, cacheTTL = 0, cache = None,
                           opaFailClosed = True, opaAuditOnly = False\<rparr>,
                  w_heap = (\<lambda>_. NewDataStore), w_clock = int, w_tick = 0\<rparr>,
      srv_metrics = zero_Metrics, srv_patterns = [''/'', ''/metrics''], srv_admin = Some ''s3cret''\<rparr>"

lemma demo_startup: "startup demo_outside int demo_flags = Inr demo_server"
proof -
  have "max_body_bytes demo_flags = DefaultMaxBodyBytes"
    by (simp add: max_body_bytes_def demo_flags_def DefaultMaxBodyBytes_def)
  moreover have "burst_size demo_flags = 2" by (simp add: burst_size_def demo_flags_def)
  moreover have "sint (f_max_body_mb demo_flags) = 1" by (simp add: demo_flags_def)
  ultimately show ?thesis
    by (simp add: startup_def validate_flags_def load_schema_def build_opa_def New_def build_limiter_def demo_server_def
        demo_limiter_def demo_handler_def demo_client_def demo_target_def demo_outside_def)
      (simp add: demo_flags_def demo_target_def)
qed

theorem startup_configured_witness:
  "opa_Configured (opa (w_eval (srv_world demo_server))) \<and> cache (w_eval (srv_world demo_server)) = None"
  using startup_configured [OF demo_startup] by blast

text \<open>
  The body limit in bytes. A flag of zero means no limit; below \<open>2 ^ 43\<close> megabytes the limit
  is the flag times \<open>2 ^ 20\<close> exactly; at \<open>2 ^ 43\<close> the 64-bit product wraps to a negative
  number, which the handler takes for no limit at all.
\<close>

theorem max_body_bytes_exact:
  assumes "0 \<le> sint (f_max_body_mb f)"
  shows "(sint (f_max_body_mb f) < 2 ^ 43 \<longrightarrow> max_body_bytes f = sint (f_max_body_mb f) * 2 ^ 20) \<and>
    (sint (f_max_body_mb f) = 2 ^ 43 \<longrightarrow> max_body_bytes f < 0 \<and> read_limited (max_body_bytes f) r =
       (if BodyFails r then Inl ReadFailed else Inr (Body r)))"
proof -
  have "f_max_body_mb f * 1024 * 1024 = word_of_int (sint (f_max_body_mb f) * 2 ^ 20)" by simp
  then have s: "max_body_bytes f = signed_take_bit 63 (sint (f_max_body_mb f) * 2 ^ 20)"
    unfolding max_body_bytes_def by (simp only: sint_sbintrunc') simp
  have "max_body_bytes f = sint (f_max_body_mb f) * 2 ^ 20" if "sint (f_max_body_mb f) < 2 ^ 43"
    unfolding s using assms that by (intro signed_take_bit_int_eq_self) auto
  moreover have "max_body_bytes f < 0" if "sint (f_max_body_mb f) = 2 ^ 43"
    unfolding s that by simp
  ultimately show ?thesis by (auto simp: read_limited_def)
qed

definition max_body_flags :: "64 word \<Rightarrow> flags" where
  "max_body_flags n = demo_flags\<lparr>f_max_body_mb := n\<rparr>"

theorem max_body_bytes_exact_witness:
  "max_body_bytes (max_body_flags 8) = 8388608 \<and> max_body_bytes (max_body_flags 8796093022208) < 0"
  using max_body_bytes_exact [of "max_body_flags 8" "post_request [] []"]
    max_body_bytes_exact [of "max_body_flags 8796093022208" "post_request [] []"]
  by (simp add: max_body_flags_def)

text \<open>
  C15: the rate limit from end to end. With a limiter whose bucket refills within five minutes, in every
  window of every run of the server (requests of all clients on all paths, cleanup passes), the
  requests with one rate-limiting key that get past the middleware are at most the burst plus the
  rate times the length of the window; a request that does not get past is answered 429 and
  changes nothing but the limiter.
\<close>

theorem server_rate_bound:
  assumes "srv_limiter srv = Some l" and "wf_limiter t0 l"
    and "of_int (Burst (config l)) \<le> 300 * RequestsPerSecond (config l)"
    and "timed t0 t (limiter_events (srv_patterns srv) es)"
  shows "of_nat (reached ForName Post key es srv) \<le>
      of_int (Burst (config l)) + RequestsPerSecond (config l) * of_int (t - t0) / second \<and>
    (\<forall>a. routed (srv_patterns srv) (ar_request a) \<and> (\<nexists>out. fst (serve_main ForName Post a srv) = Proxied out) \<longrightarrow>
      (\<exists>l'. serve_main ForName Post a srv = (Limited limited_response, srv\<lparr>srv_limiter := Some l'\<rparr>)))"
proof -
  have "of_nat (count_allowed Allow cleanup_tick key l (limiter_events (srv_patterns srv) es)) \<le>
      of_int (Burst (config l)) + RequestsPerSecond (config l) * of_int (t - t0) / second"
    using lim.count_le_window [of t0 l t _ key] assms(2-4) by (simp add: refills_in_time_def rate_of_def burst_of_def)
  moreover have "\<exists>l'. serve_main ForName Post a srv = (Limited limited_response, srv\<lparr>srv_limiter := Some l'\<rparr>)"
    if "routed (srv_patterns srv) (ar_request a)" "\<nexists>out. fst (serve_main ForName Post a srv) = Proxied out" for a
    using serve_main_limiter(3,4) [OF that(1) assms(1), of ForName Post] that(2) by blast
  ultimately show ?thesis using reached_count_allowed [OF assms(1)] by simp
qed

definition demo_arrival :: "http_request \<Rightarrow> instant \<Rightarrow> arrival" where
  "demo_arrival r now = \<lparr>ar_request = r, ar_env = demo_env, ar_t1 = now, ar_t2 = now\<rparr>"

theorem server_rate_bound_witness:
  "(of_nat (reached find_field no_post ''acme'' [Arrives (demo_arrival (post_request ''acme'' demo_body) 0),
      Arrives (demo_arrival (post_request ''acme'' demo_body) 1), Cleanup 5] demo_server) :: rat) \<le> 2 + 1 * 5 / second"
proof -
  have l: "srv_limiter demo_server = Some demo_limiter" by (simp add: demo_server_def)
  have c: "config demo_limiter = \<lparr>RequestsPerSecond = 1, Burst = 2\<rparr>"
    by (simp add: demo_limiter_def New_limiter_def with_defaults_def)
  have "wf_limiter 0 demo_limiter" by (simp add: demo_limiter_def New_limiter_wf)
  from server_rate_bound [OF l this, of 5 "[Arrives (demo_arrival (post_request ''acme'' demo_body) 0),
      Arrives (demo_arrival (post_request ''acme'' demo_body) 1), Cleanup 5]" find_field no_post "''acme''"]
  show ?thesis by (simp add: c demo_arrival_def del: reached.simps)
qed

text \<open>
  The client chooses the key. A request with an API key is limited under that very key, one
  without under the first entry of its \<open>X-Forwarded-For\<close> header, and only without either under its
  address; so whatever the limiter's state, there is an API key with which the request is not limited.
\<close>

theorem client_escapes_rate_limit:
  assumes "srv_limiter srv = Some l" and "wf_limiter t l" and "t \<le> ar_t1 a" and "ar_t1 a \<le> ar_t2 a"
    and "routed (srv_patterns srv) (ar_request a)" and "Header_Get (Header (ar_request a)) ''X-API-Key'' = []"
  shows "\<exists>key. \<exists>out. fst (serve_main ForName Post
    (a\<lparr>ar_request := (ar_request a)\<lparr>Header := Header_Set ''X-API-Key'' key (Header (ar_request a))\<rparr>\<rparr>) srv) = Proxied out"
proof -
  have "infinite ((UNIV :: string set) - {[]})" by (simp add: infinite_UNIV_listI)
  then obtain key where key: "key \<noteq> []" "map_of (buckets l) key = None"
    using finite_subset [of "UNIV - {[]}" "dom (map_of (buckets l))"] by (auto simp: finite_dom_map_of)
  let ?r = "(ar_request a)\<lparr>Header := Header_Set ''X-API-Key'' key (Header (ar_request a))\<rparr>"
  let ?a = "a\<lparr>ar_request := ?r\<rparr>"
  have k: "rate_key ?r = key" using key by (simp add: rate_key_def Let_def)
  have "routed (srv_patterns srv) (ar_request ?a)" using assms(5) by (simp add: routed_def mux_route_def)
  from serve_main_limiter(3) [OF this assms(1), of ForName Post] show ?thesis
    using Allow_fst [OF assms(2,4), of key] k key(2) assms(2) by (auto simp: limiter_defs wf_limiter_def)
qed

theorem client_escapes_rate_limit_witness:
  "\<exists>key. \<exists>out. fst (serve_main find_field no_post ((demo_arrival (post_request [] demo_body) 9)
     \<lparr>ar_request := (post_request [] demo_body)\<lparr>Header := Header_Set ''X-API-Key'' key (Header (post_request [] demo_body))\<rparr>\<rparr>)
     (demo_server\<lparr>srv_limiter := Some (snd (Allow demo_limiter [] 0 0))\<rparr>)) = Proxied out"
proof -
  let ?a = "demo_arrival (post_request [] demo_body) 9"
  let ?srv = "demo_server\<lparr>srv_limiter := Some (snd (Allow demo_limiter [] 0 0))\<rparr>"
  have "wf_limiter 0 (snd (Allow demo_limiter [] 0 0))"
    by (rule Allow_wf [of 0]) (simp_all add: demo_limiter_def New_limiter_wf)
  moreover have "routed (srv_patterns ?srv) (ar_request ?a)"
    by (simp add: demo_server_def demo_arrival_def) (unfold post_request_def, code_simp)
  ultimately show ?thesis
    using client_escapes_rate_limit [of ?srv "snd (Allow demo_limiter [] 0 0)" 0 ?a find_field no_post]
    by (simp add: demo_arrival_def post_request_simps)
qed

end
