(* ===== verification/Running_Server.thy ===== *)
theory Running_Server
  imports Server
begin

text \<open>
  The server after its start: requests on the main port, answers of the sidecar, cleanup passes of the
  limiter and admin requests in any order (\<open>server_reachable\<close>), what stays true of its state, and
  what it takes for a request to be forwarded.
\<close>

section \<open>The running server\<close>

text \<open>An admin request works on the heap and the metrics that the request path uses.\<close>

definition administer :: "string \<Rightarrow> admin_env \<Rightarrow> http_request \<Rightarrow> server \<Rightarrow> server" where
  "administer token env r srv =
     (let st = snd (adminMux token env (opa (w_eval (srv_world srv))) 0 r
                 \<lparr>a_heap = w_heap (srv_world srv), a_metrics = srv_metrics srv\<rparr>)
      in srv\<lparr>srv_world := (srv_world srv)\<lparr>w_heap := a_heap st\<rparr>, srv_metrics := a_metrics st\<rparr>)"

text \<open>
  Everything that can happen to the server after its start, in any order: a request on the main
  port, whatever the sidecar answers to it, a cleanup pass of the limiter, an admin request. (A request whose outcome is
  the end of the process leads to no further state of the program; that the relation goes on from there only adds
  states.)
\<close>

inductive server_reachable :: "field_lookup \<Rightarrow> server \<Rightarrow> server \<Rightarrow> bool" for ForName srv0 where
    started: "server_reachable ForName srv0 srv0"
  | served: "server_reachable ForName srv0 srv \<Longrightarrow> server_reachable ForName srv0 (snd (serve_main ForName Post a srv))"
  | cleaned: "server_reachable ForName srv0 srv \<Longrightarrow>
      server_reachable ForName srv0 (srv\<lparr>srv_limiter := map_option (\<lambda>l. cleanup_tick l now) (srv_limiter srv)\<rparr>)"
  | administered: "server_reachable ForName srv0 srv \<Longrightarrow> srv_admin srv = Some token \<Longrightarrow>
      server_reachable ForName srv0 (administer token env r srv)"

definition same_server :: "server \<Rightarrow> server \<Rightarrow> bool" where
  "same_server srv0 srv \<longleftrightarrow> srv_handler srv = srv_handler srv0 \<and> srv_patterns srv = srv_patterns srv0 \<and>
     srv_admin srv = srv_admin srv0 \<and> same_config (w_eval (srv_world srv0)) (w_eval (srv_world srv))"

lemma serve_main_stable:
  assumes "same_config c (w_eval (srv_world srv)) \<and> w_heap (srv_world srv) = heap"
  shows "same_config c (w_eval (srv_world (snd (serve_main ForName Post a srv)))) \<and>
    w_heap (srv_world (snd (serve_main ForName Post a srv))) = heap"
proof -
  let ?s = "ServeHTTP (composite_eval ForName Post) (ar_env a) (srv_handler srv) (ar_request a) (srv_world srv, srv_metrics srv)"
  have "same_config c (w_eval (fst (snd ?s))) \<and> w_heap (fst (snd ?s)) = heap"
    using assms by (intro config.ServeHTTP_stable) simp
  moreover have "srv_world (snd (serve_main ForName Post a srv)) = srv_world srv \<or>
      srv_world (snd (serve_main ForName Post a srv)) = fst (snd ?s)"
    by (auto simp: serve_main_def rateLimitMiddleware_def Let_def case_prod_beta split: route.split option.split sum.split prod.split if_split)
  ultimately show ?thesis using assms by metis
qed

lemma serve_main_fixed:
  "srv_handler (snd (serve_main ForName Post a srv)) = srv_handler srv \<and>
   srv_patterns (snd (serve_main ForName Post a srv)) = srv_patterns srv \<and>
   srv_admin (snd (serve_main ForName Post a srv)) = srv_admin srv"
  by (auto simp: serve_main_def Let_def case_prod_beta split: route.split option.split sum.split prod.split if_split)

lemma reachable_same_server: "server_reachable ForName srv0 srv \<Longrightarrow> same_server srv0 srv"
proof (induction rule: server_reachable.induct)
  case (served srv Post a)
  then show ?case
    using serve_main_stable [of "w_eval (srv_world srv0)" srv _ ForName Post a] serve_main_fixed [of ForName Post a srv]
    by (auto simp: same_server_def)
qed (auto simp: same_server_def administer_def Let_def)

lemma administer_wf:
  assumes "wf_store (w_heap (srv_world srv) 0)"
  shows "wf_store (w_heap (srv_world (administer token env r srv)) 0)"
proof -
  have wf: "wf_store (apply_op op s)" if "admin_op_of token r = Some op" "wf_store s" for op s
  proof (cases op)
    case (SetRules ps)
    then have "decode_request_map r = Some ps"
      using that(1) by (auto simp: admin_op_of_def split: if_splits route.splits)
    with SetRules that(2) show ?thesis by (auto intro!: SetParams_inv dest: decode_request_map_wf)
  next
    case (TenantOp t)
    then show ?thesis using tenant_map.run_ok [OF that(2), of "[t]"] by simp
  qed
  show ?thesis
    using assms wf by (simp add: administer_def Let_def adminMux_store split: option.split)
qed

lemma serve_main_proxied:
  "fst (serve_main ForName Post a srv) = Proxied out \<Longrightarrow>
   out = fst (ServeHTTP (composite_eval ForName Post) (ar_env a) (srv_handler srv) (ar_request a) (srv_world srv, srv_metrics srv))"
  by (auto simp: serve_main_def rateLimitMiddleware_def Let_def case_prod_beta
      split: route.splits option.splits if_splits)

lemma serve_main_forwards:
  assumes "serve_main ForName Post a srv = (Proxied (Some (Forward hdrs req)), srv')"
    and "isGraphQLPath (Path (URL (ar_request a)))"
  shows "\<exists>qs m. inspected (ar_env a) (srv_handler srv) (ar_request a) = Some qs \<and>
    approved (composite_eval ForName Post) qs (srv_world srv, m)"
proof -
  let ?w = "srv_world srv"
  have "forwards (ServeHTTP (composite_eval ForName Post) (ar_env a) (srv_handler srv) (ar_request a) (?w, srv_metrics srv)) req"
    unfolding forwards_def using serve_main_proxied [of ForName Post a srv] assms(1) by (metis fst_conv)
  then show ?thesis
    using serve_forwards [OF assms(2), of "composite_eval ForName Post" "ar_env a" "srv_handler srv" ?w "srv_metrics srv"]
    unfolding ServeHTTP_forwards by blast
qed

lemma startup_config:
  "startup out clock f = Inr srv \<Longrightarrow>
   cacheTTL (w_eval (srv_world srv)) = f_cache_ttl f \<and> opaFailClosed (w_eval (srv_world srv)) = f_fail_closed f \<and>
   opaAuditOnly (w_eval (srv_world srv)) = f_audit_only f \<and> opaStore (w_eval (srv_world srv)) = Some 0"
  by (auto simp: startup_def Let_def split: option.splits sum.splits prod.splits)

lemma load_params_wf: "load_params out f s = Inr s' \<Longrightarrow> wf_store s \<Longrightarrow> wf_store s'"
  by (auto simp: load_params_def LoadParamsFromJSON_def intro!: SetParams_inv dest: unmarshal_map_wf
      split: if_splits option.splits)

lemma GetParams_wf: "wf_store s \<Longrightarrow> wf_map (GetParams s)"
  by (auto simp: GetParams_eq wf_store_def split: option.splits)

lemma apply_operation_names_wf: "wf_store s \<Longrightarrow> wf_store (apply_operation_names f s)"
  by (auto simp: apply_operation_names_def Let_def GetParams_wf intro!: SetParams_inv)

lemma build_opa_wf: "build_opa out f s = Inr (ev, s') \<Longrightarrow> wf_store s \<Longrightarrow> wf_store s'"
  by (auto simp: build_opa_def NewEmbedded_def Let_def dest: load_params_wf apply_operation_names_wf
      split: if_splits option.splits sum.splits prod.splits)

lemma startup_wf: "startup out clock f = Inr srv \<Longrightarrow> wf_store (w_heap (srv_world srv) 0)"
proof -
  have "wf_store NewDataStore" by (simp add: wf_store_def NewDataStore_def)
  then show "startup out clock f = Inr srv \<Longrightarrow> ?thesis"
    by (auto simp: startup_def Let_def split: option.splits sum.splits prod.splits dest: build_opa_wf)
qed

lemma forwarded_granted:
  assumes "startup out clock f = Inr srv0" and "f_fail_closed f" and "\<not> f_audit_only f" and "f_cache_ttl f \<le> 0"
    and "server_reachable ForName srv0 srv"
    and "serve_main ForName Post a srv = (Proxied (Some (Forward hdrs req)), srv')"
    and "isGraphQLPath (Path (URL (ar_request a)))"
  shows "\<exists>qs. inspected (ar_env a) (srv_handler srv0) (ar_request a) = Some qs \<and> qs \<noteq> [] \<and>
    (\<forall>q \<in> set qs. schema_refusal ForName (w_eval (srv_world srv0)) q = None \<and>
       opa_grants Post (opa (w_eval (srv_world srv0))) (BuildInput q (Some (w_heap (srv_world srv) 0))))"
proof -
  let ?c0 = "w_eval (srv_world srv0)" and ?w = "srv_world srv"
  have same: "srv_handler srv = srv_handler srv0" "same_config ?c0 (w_eval ?w)"
    using reachable_same_server [OF assms(5)] by (auto simp: same_server_def)
  have cfg: "cacheTTL (w_eval ?w) \<le> 0" "opaFailClosed (w_eval ?w)" "\<not> opaAuditOnly (w_eval ?w)" "opaStore (w_eval ?w) = Some 0"
    "opa (w_eval ?w) = opa ?c0" "schema_refusal ForName (w_eval ?w) = schema_refusal ForName ?c0"
    using startup_config [OF assms(1)] same(2) assms(2-4)
    by (auto simp: same_config_def schema_refusal_def fun_eq_iff)
  obtain qs m where qs: "inspected (ar_env a) (srv_handler srv) (ar_request a) = Some qs"
    "approved (composite_eval ForName Post) qs (?w, m)"
    using serve_main_forwards [OF assms(6,7)] by blast
  have "qs \<noteq> []" using inspected_nonempty [OF qs(1)] .
  with qs same(1) approved_granted [OF qs(2)] cfg show ?thesis by auto
qed

section \<open>Properties\<close>

text \<open>
  C35: what stays true while the server runs: its configuration (handler, routes, evaluator, flags)
  is the one it was started with; every tenant and parameter has one entry; nothing but the admin
  API changes the data store.
\<close>

theorem server_invariant:
  assumes "startup out clock f = Inr srv0" and "server_reachable ForName srv0 srv"
  shows "srv_handler srv = srv_handler srv0 \<and> srv_patterns srv = srv_patterns srv0 \<and>
    same_config (w_eval (srv_world srv0)) (w_eval (srv_world srv)) \<and> wf_store (w_heap (srv_world srv) 0) \<and>
    (srv_admin srv0 = None \<longrightarrow> w_heap (srv_world srv) = w_heap (srv_world srv0))"
proof -
  note s = reachable_same_server [OF assms(2)]
  have "wf_store (w_heap (srv_world srv) 0) \<and> (srv_admin srv0 = None \<longrightarrow> w_heap (srv_world srv) = w_heap (srv_world srv0))"
    using assms(2)
  proof induction
    case started
    then show ?case using startup_wf [OF assms(1)] by simp
  next
    case (served srv Post a)
    then show ?case using serve_main_stable [of "w_eval (srv_world srv)" srv _ ForName Post a] by auto
  next
    case (cleaned srv now)
    then show ?case by simp
  next
    case (administered srv token env r)
    then have "srv_admin srv0 = Some token" using reachable_same_server by (auto simp: same_server_def)
    with administered show ?case by (simp add: administer_wf)
  qed
  with s show ?thesis by (simp add: same_server_def)
qed

theorem server_invariant_witness:
  "wf_store (w_heap (srv_world (administer ''s3cret'' demo_admin_env (admin_request ''PUT'' ''/admin/tenants/acme''
     ''Bearer s3cret'' ''{}'') demo_server)) 0)"
proof -
  have "server_reachable find_field demo_server (administer ''s3cret'' demo_admin_env
      (admin_request ''PUT'' ''/admin/tenants/acme'' ''Bearer s3cret'' ''{}'') demo_server)"
    by (rule administered [OF started]) (simp add: demo_server_def)
  from server_invariant [OF demo_startup this] show ?thesis by blast
qed

definition demo_yes_post :: http_post where
  "demo_yes_post = reply_with ''{\"result\":{\"allowed\":true}}''"

lemma demo_forwards:
  assumes srv: "srv_handler srv = demo_handler" "srv_limiter srv = Some demo_limiter" "srv_patterns srv = srv_patterns demo_server"
    and yes: "\<And>m. approved (composite_eval find_field Post)
      [with_tenant (post_request ''a'' demo_body) (demo_info ''{a}'')] (srv_world srv, m)"
  shows "\<exists>hdrs req srv'. serve_main find_field Post (demo_arrival (post_request ''a'' demo_body) 0) srv =
     (Proxied (Some (Forward hdrs req)), srv')"
proof -
  let ?a = "demo_arrival (post_request ''a'' demo_body) 0"
  have "\<exists>out. forwards (serve (composite_eval find_field Post) demo_env demo_handler
     (post_request ''a'' demo_body) (srv_world srv, srv_metrics srv)) out"
    unfolding serve_forwards [OF post_request_simps(1)] demo_inspected using yes by blast
  then obtain hdrs req where f: "fst (ServeHTTP (composite_eval find_field Post) demo_env demo_handler
     (post_request ''a'' demo_body) (srv_world srv, srv_metrics srv)) = Some (Forward hdrs req)"
    using ServeHTTP_forwardsD by blast
  have r: "routed (srv_patterns srv) (ar_request ?a)"
    unfolding srv(3) by (simp add: demo_server_def demo_arrival_def) (unfold post_request_def, code_simp)
  have "wf_limiter 0 demo_limiter" by (simp add: demo_limiter_def New_limiter_wf)
  then have "fst (Allow demo_limiter k 0 0)" for k
    using Allow_fst [of 0 demo_limiter 0 0 k] by (simp add: demo_limiter_def limiter_defs New_limiter_def with_defaults_def)
  then obtain out where o: "fst (serve_main find_field Post ?a srv) = Proxied out"
    using serve_main_limiter(3) [OF r srv(2), of find_field Post] by (auto simp: demo_arrival_def)
  with serve_main_proxied [OF o] f srv(1) have "out = Some (Forward hdrs req)" by (simp add: demo_arrival_def)
  with o show ?thesis by (cases "serve_main find_field Post ?a srv") auto
qed

lemma demo_server_forwards:
  "\<exists>hdrs req srv'. serve_main find_field demo_yes_post (demo_arrival (post_request ''a'' demo_body) 0) demo_server =
     (Proxied (Some (Forward hdrs req)), srv')"
  by (rule demo_forwards)
    (simp_all add: composite_eval_def demo_server_def Let_def case_prod_beta Evaluate_def Evaluate_policy_def
      cache_lookup_def judge_def demo_yes demo_yes_post_def)

end
