(* ===== verification/Schema_Enforcement.thy ===== *)
theory Schema_Enforcement
  imports Running_Server
begin

text \<open>
  The schema from end to end: the bodies a request carries, how their texts become the inspected
  queries, and that only queries which fit the schema are forwarded.
\<close>

section \<open>From the text of a query to the schema\<close>

text \<open>
  Every response name that an operation selects (the alias where a field has one) is a field of its
  type in the schema, for operations without named fragments, counted from the root type for the kind of the first
  operation of the document. Nothing is said when the schema has no such root type: \<open>Validate\<close> then accepts
  every query (\<open>parser.go\<close>, \<open>if rootType == nil\<close>), and an operation of another kind than the first is
  checked against the root type of the first.
\<close>

definition conforms :: "field_lookup \<Rightarrow> ast_schema \<Rightarrow> fragment_lookup \<Rightarrow> query_document \<Rightarrow> bool" where
  "conforms ForName sch forName doc \<longleftrightarrow>
     (\<forall>op \<in> set (Operations doc). \<forall>ns t.
        spreads (op_SelectionSet op) = {} \<longrightarrow> plain_names (op_SelectionSet op) \<longrightarrow>
        selects forName (op_SelectionSet op) ns \<longrightarrow>
        root_type sch (operation_type_name (op_Operation (hd (Operations doc)))) = Some t \<longrightarrow>
        resolves ForName (sch_Types sch) t ns)"

lemma all_queries_items:
  "all_queries env h bs = Some qs \<Longrightarrow> list_all2 (\<lambda>b q. item_query env h b = Some q) bs qs"
  by (induction bs arbitrary: qs) (auto simp: bind_eq_Some_conv)

lemma inspected_carried:
  assumes "inspected env h r = Some qs"
  shows "\<exists>bs. carried h r = Some bs \<and>
    list_all2 (\<lambda>b q. \<exists>p. item_query env h b = Some p \<and> FieldPaths q = FieldPaths p \<and> OperationType q = OperationType p) bs qs"
proof -
  have tenant: "FieldPaths (with_tenant r q) = FieldPaths q" "OperationType (with_tenant r q) = OperationType q" for q
    by (simp_all add: with_tenant_def)
  from assms consider
      (batch) b bs where "Method r = ''POST''" "hasJSONContentType (Header r)" "read_limited (MaxBodyBytes h) r = Inr b"
        "is_batch b" "unmarshal_batch b = Some bs" "all_queries env h bs = Some qs"
    | (single) b g p where "Method r = ''POST''" "hasJSONContentType (Header r)" "read_limited (MaxBodyBytes h) r = Inr b"
        "\<not> is_batch b" "single_body b = Some g" "item_query env h g = Some p" "qs = [with_tenant r p]"
    | (get) p where "Method r = ''GET''" "item_query env h (url_body (URL r)) = Some p" "qs = [with_tenant r p]"
    by (auto simp: inspected_def bind_eq_Some_conv split: if_splits sum.splits)
  then show ?thesis
  proof cases
    case batch
    then show ?thesis
      using all_queries_items [OF batch(6)] by (auto simp: carried_def elim: list_all2_mono)
  qed (auto simp: carried_def tenant)
qed

lemma approved_conforms:
  "approved (composite_eval ForName Post) qs (w, m) \<Longrightarrow> q \<in> set qs \<Longrightarrow> schema_refusal ForName (w_eval w) q = None"
proof (induction qs arbitrary: w m)
  case (Cons p qs)
  obtain r w' m' where e: "composite_eval ForName Post p (w, m) = (Returned r, w', m')"
    by (auto simp: composite_eval_def Let_def case_prod_beta)
  have same: "same_config (w_eval w) (w_eval w')"
    using e Evaluate_same_config [of "w_eval w"] by (auto simp: composite_eval_def Let_def case_prod_beta)
  have "schema_refusal ForName (w_eval w) p = None"
  proof (rule ccontr)
    assume "schema_refusal ForName (w_eval w) p \<noteq> None"
    then obtain reason where "schema_refusal ForName (w_eval w) p = Some reason" by blast
    from schema_refusal_Some [OF this] e Cons.prems(1) show False
      by (auto simp: composite_eval_def Let_def case_prod_beta)
  qed
  moreover have "schema_refusal ForName (w_eval w) q = None" if "q \<in> set qs"
    using Cons.IH [of w' m'] Cons.prems(1) e that same by (auto simp: schema_refusal_def same_config_def)
  ultimately show ?case using Cons.prems(2) by auto
qed simp

lemma splitPath_path_of:
  "\<forall>n \<in> set ns. plain_name n \<Longrightarrow> splitPath (path_of prefix ns) = splitPath prefix @ ns"
  by (induction ns arbitrary: prefix) (auto simp: path_of_def splitPath_join)

lemma selects_plain:
  "selects forName sels ns \<Longrightarrow> spreads sels = {} \<Longrightarrow> plain_names sels \<Longrightarrow> \<forall>n \<in> set ns. plain_name n"
proof (induction rule: selects.induct)
  case (sel_rest rest p s)
  then show ?case by (cases s) auto
qed auto

lemma item_query_parsed:
  assumes q: "item_query env h b = Some q" and env: "parse_query env = Parse ParseQuery FragForName"
  obtains info where "parseGraphQL ParseQuery FragForName (Query b) = Some (Inr info)"
    and "FieldPaths q = FieldPaths info" and "OperationType q = OperationType info"
proof (rule item_query_Some [OF q])
  fix p
  assume p: "parseQueryWithTimeout env (Query b) (ParseTimeout h) = Parsed p"
    and "(if Variables b \<noteq> [] then p\<lparr>RequestVariables := Variables b\<rparr> else p) = q"
  then have "FieldPaths q = FieldPaths p" "OperationType q = OperationType p" by auto
  moreover have "parseGraphQL ParseQuery FragForName (Query b) = Some (Inr p)"
    using p env by (auto simp: parseQueryWithTimeout_def Parse_def split: option.splits if_splits sum.splits)
  ultimately show thesis using that by blast
qed

lemma item_query_conforms:
  assumes q: "item_query env h b = Some q" and env: "parse_query env = Parse ParseQuery FragForName"
    and sch: "fst (Validate ForName s q)"
  shows "\<exists>doc. ParseQuery (Query b) = Some doc \<and> conforms ForName (Schema s) (FragForName (Fragments doc)) doc"
proof -
  obtain info where info: "parseGraphQL ParseQuery FragForName (Query b) = Some (Inr info)"
    and eq: "FieldPaths q = FieldPaths info" "OperationType q = OperationType info"
    using item_query_parsed [OF q env] .
  from info obtain doc where doc: "ParseQuery (Query b) = Some doc" "Operations doc \<noteq> []"
    "analyse_operations (FragForName (Fragments doc)) doc (Operations doc) (initial_info doc (Query b)) = Some info"
    by (rule parseGraphQL_Inr)
  have ty: "OperationType info = operation_type_name (op_Operation (hd (Operations doc)))"
    using analyse_operations_type [OF doc(3)] doc(2) by simp
  have "resolves ForName (sch_Types (Schema s)) t ns"
    if "op \<in> set (Operations doc)" "spreads (op_SelectionSet op) = {}" "plain_names (op_SelectionSet op)"
      "selects (FragForName (Fragments doc)) (op_SelectionSet op) ns"
      "root_type (Schema s) (operation_type_name (op_Operation (hd (Operations doc)))) = Some t" for op ns t
  proof -
    have "path_of '''' ns \<in> set (FieldPaths info)"
      using analyse_operations_worst_case [OF doc(3) that(1)] analyse_operation_complete that(2,4) by blast
    moreover have "splitPath (path_of '''' ns) = ns"
      using splitPath_path_of [of ns "''''"] selects_plain [OF that(4,2,3)] by simp
    moreover have "ns \<noteq> []" using selects_not_Nil [OF that(4)] .
    ultimately show ?thesis
      using sch that(5) eq ty unfolding Validate_def validate_paths_iff by (metis)
  qed
  then have "conforms ForName (Schema s) (FragForName (Fragments doc)) doc" unfolding conforms_def by blast
  with doc(1) show ?thesis by blast
qed

section \<open>Properties\<close>

text \<open>
  C9: what a loaded schema keeps from the upstream, in every reachable state of
  the server and whatever the policy, the cache and the audit mode do: every body that a forwarded request
  on a GraphQL path carries has a query that parses; and if the schema has the root type for the kind of the first
  operation of its document, every response name which an operation of it selects (the alias where there
  is one; in operations that spread no named fragment) is a field of its type in the schema, down from that root type. A
  schema without that root type keeps nothing out, and later operations of another kind are held against the
  root type of the first.
\<close>

theorem forwarded_queries_conform:
  assumes "startup out clock f = Inr srv0" and "schema (w_eval (srv_world srv0)) = Some s"
    and "server_reachable ForName srv0 srv"
    and "serve_main ForName Post a srv = (Proxied (Some (Forward hdrs req)), srv')"
    and "isGraphQLPath (Path (URL (ar_request a)))"
    and env: "parse_query (ar_env a) = Parse ParseQuery FragForName"
  shows "\<exists>bs. carried (srv_handler srv0) (ar_request a) = Some bs \<and> bs \<noteq> [] \<and>
    (\<forall>b \<in> set bs. \<exists>doc. ParseQuery (Query b) = Some doc \<and>
       conforms ForName (Schema s) (FragForName (Fragments doc)) doc)"
proof -
  let ?w = "srv_world srv"
  have same: "srv_handler srv = srv_handler srv0" "same_config (w_eval (srv_world srv0)) (w_eval ?w)"
    using reachable_same_server [OF assms(3)] by (auto simp: same_server_def)
  obtain qs m where qs: "inspected (ar_env a) (srv_handler srv) (ar_request a) = Some qs"
    "approved (composite_eval ForName Post) qs (?w, m)"
    using serve_main_forwards [OF assms(4,5)] by blast
  obtain bs where bs: "carried (srv_handler srv0) (ar_request a) = Some bs"
    and items: "list_all2 (\<lambda>b q. \<exists>p. item_query (ar_env a) (srv_handler srv) b = Some p \<and>
        FieldPaths q = FieldPaths p \<and> OperationType q = OperationType p) bs qs"
    using inspected_carried [OF qs(1)] same(1) by auto
  have "\<exists>doc. ParseQuery (Query b) = Some doc \<and> conforms ForName (Schema s) (FragForName (Fragments doc)) doc"
    if "b \<in> set bs" for b
  proof -
    from items that obtain q p where q: "q \<in> set qs" "item_query (ar_env a) (srv_handler srv) b = Some p"
      "FieldPaths q = FieldPaths p" "OperationType q = OperationType p"
      unfolding list_all2_conv_all_nth in_set_conv_nth by metis
    have "schema_refusal ForName (w_eval ?w) q = None" using approved_conforms [OF qs(2) q(1)] .
    then have "fst (Validate ForName s q)"
      using same(2) assms(2) by (auto simp: schema_refusal_def same_config_def split: if_splits)
    then have "fst (Validate ForName s p)" using q(3,4) by (simp add: Validate_def)
    with item_query_conforms [OF q(2) env] show ?thesis by blast
  qed
  moreover have "bs \<noteq> []" using items inspected_nonempty [OF qs(1)] by auto
  ultimately show ?thesis using bs by blast
qed

text \<open>A server with a schema for the demo query.\<close>

definition mutation_schema :: ast_schema where
  "mutation_schema =
     (let field = (\<lambda>n t. \<lparr>fd_Name = n, fd_Type = Some (AstType t None)\<rparr>);
          user = \<lparr>td_Name = ''User'', td_Fields = [field ''name'' ''String'', field ''p'' ''Post'']\<rparr>;
          mutation = \<lparr>td_Name = ''Mutation'', td_Fields = [field ''user'' ''User'']\<rparr>
      in \<lparr>sch_Query = None, sch_Mutation = Some mutation, sch_Subscription = None,
          sch_Types = [(''User'', user), (''Mutation'', mutation)]\<rparr>)"

definition schema_flags :: flags where
  "schema_flags = demo_flags\<lparr>f_schema := ''schema.graphql''\<rparr>"

definition schema_outside :: "unit outside" where
  "schema_outside = demo_outside\<lparr>ReadFile := (\<lambda>_. Some ''type User''), ParseSchema := (\<lambda>_. Some ()),
     ValidateSchemaDocument := (\<lambda>_. Some mutation_schema)\<rparr>"

definition schema_server :: server where
  "schema_server =
     demo_server\<lparr>srv_world := (srv_world demo_server)\<lparr>w_eval := (w_eval (srv_world demo_server))
       \<lparr>schema := Some \<lparr>Schema = mutation_schema, TypeCount = 2\<rparr>\<rparr>\<rparr>\<rparr>"

lemma schema_startup: "startup schema_outside int schema_flags = Inr schema_server"
proof -
  have "load_schema schema_outside schema_flags = Inr (Some \<lparr>Schema = mutation_schema, TypeCount = 2\<rparr>)"
    by (simp add: load_schema_def schema_outside_def schema_flags_def LoadSchema_def LoadSchemaFromBytes_def
        mutation_schema_def Let_def)
  moreover have "max_body_bytes schema_flags = DefaultMaxBodyBytes"
    by (simp add: max_body_bytes_def schema_flags_def demo_flags_def DefaultMaxBodyBytes_def)
  moreover have "burst_size schema_flags = 2" by (simp add: burst_size_def schema_flags_def demo_flags_def)
  moreover have "sint (f_max_body_mb schema_flags) = 1" by (simp add: schema_flags_def demo_flags_def)
  moreover have "parse_url schema_outside = (\<lambda>_. Some demo_target)" by (simp add: schema_outside_def demo_outside_def)
  ultimately show ?thesis
    by (simp add: startup_def validate_flags_def build_opa_def New_def build_limiter_def schema_server_def demo_server_def
        demo_limiter_def demo_handler_def demo_client_def demo_target_def)
      (simp add: schema_flags_def demo_flags_def demo_target_def)
qed

lemma mutation_schema_accepts:
  "fst (Validate find_field \<lparr>Schema = mutation_schema, TypeCount = 2\<rparr> (with_tenant r (demo_info query)))"
  by (simp add: Validate_def mutation_schema_def Let_def find_field_def root_type_def splitPath_def demo_info_def with_tenant_def)

lemma schema_server_forwards:
  "\<exists>hdrs req srv'. serve_main find_field demo_yes_post (demo_arrival (post_request ''a'' demo_body) 0) schema_server =
     (Proxied (Some (Forward hdrs req)), srv')"
  by (rule demo_forwards)
    (simp_all add: composite_eval_def schema_server_def demo_server_def Let_def case_prod_beta Evaluate_def
      Evaluate_policy_def cache_lookup_def judge_def demo_yes demo_yes_post_def mutation_schema_accepts)

theorem forwarded_queries_conform_witness:
  "conforms find_field mutation_schema (find_fragment []) demo_document"
proof -
  obtain hdrs req srv' where s: "serve_main find_field demo_yes_post (demo_arrival (post_request ''a'' demo_body) 0) schema_server =
     (Proxied (Some (Forward hdrs req)), srv')"
    using schema_server_forwards by blast
  have g: "isGraphQLPath (Path (URL (ar_request (demo_arrival (post_request ''a'' demo_body) 0))))"
    by (simp add: demo_arrival_def post_request_simps)
  have sch: "schema (w_eval (srv_world schema_server)) = Some \<lparr>Schema = mutation_schema, TypeCount = 2\<rparr>"
    by (simp add: schema_server_def)
  have env: "parse_query (ar_env (demo_arrival (post_request ''a'' demo_body) 0)) = Parse (\<lambda>_. Some demo_document) find_fragment"
    by (simp add: demo_arrival_def demo_env_def)
  from forwarded_queries_conform [OF schema_startup sch started s g env] obtain bs
    where "bs \<noteq> []" "\<forall>b \<in> set bs. conforms find_field mutation_schema (find_fragment (Fragments demo_document)) demo_document"
    by auto
  then have "conforms find_field mutation_schema (find_fragment (Fragments demo_document)) demo_document"
    by (cases bs) auto
  then show ?thesis by (simp add: demo_document_def)
qed

end
