(* ===== verification/Graphql_Policy.thy ===== *)
theory Graphql_Policy
  imports Opa_Evaluators Query_Analysis
begin

text \<open>
  \<open>opa-policies/graphql.rego\<close>, the policy that comes with the program, rule by rule: each group
  of \<open>deny\<close> rules is a function from the input document to the messages it contributes, and
  \<open>allow\<close> holds when there is none. The fragment of Rego the rules use is modelled first: references
  that may be undefined, truth of an expression, iteration, \<open>count\<close> and the order between values of
  different types. The counts of the document are numbers, as in every
  document the program builds. The text that \<open>sprintf\<close> makes is an argument; no verdict depends on it.

  \<open>within_policy\<close> says without Rego what the comments and the README promise, and \<open>policy_allow_iff\<close> that
  the rules agree with it for named operations, and what they do with anonymous ones, for which they fall short of it.
  \<open>runs_policy\<close> is what is expected of the engine that evaluates the rules.
\<close>

section \<open>The fragment of Rego\<close>

type_synonym rego_sprintf = "string \<Rightarrow> gval list \<Rightarrow> string"

text \<open>A reference into a document; \<open>None\<close> is Rego's undefined.\<close>

fun ref :: "gval \<Rightarrow> string list \<Rightarrow> gval option" where
  "ref v [] = Some v"
| "ref (GObj m) (k # ks) = Option.bind (map_of m k) (\<lambda>v. ref v ks)"
| "ref _ (k # ks) = None"

text \<open>An expression in the body of a rule holds unless it is undefined or false.\<close>

definition truthy :: "gval option \<Rightarrow> bool" where
  "truthy v \<longleftrightarrow> v \<noteq> None \<and> v \<noteq> Some (GBool False)"

text \<open>What \<open>some x in v\<close> and \<open>v[_]\<close> range over.\<close>

definition elems :: "gval option \<Rightarrow> gval list" where
  "elems v = (case v of Some (GArr vs) \<Rightarrow> vs | Some (GObj m) \<Rightarrow> map snd m | _ \<Rightarrow> [])"

text \<open>\<open>count\<close> is undefined on numbers, booleans and null; on a string it counts characters.\<close>

definition rego_count :: "gval option \<Rightarrow> nat option" where
  "rego_count v = (case v of
      Some (GArr vs) \<Rightarrow> Some (length vs)
    | Some (GObj m) \<Rightarrow> Some (length m)
    | Some (GStr s) \<Rightarrow> Some (length (runes s))
    | _ \<Rightarrow> None)"

definition nonempty :: "gval option \<Rightarrow> bool" where
  "nonempty v \<longleftrightarrow> (case rego_count v of Some n \<Rightarrow> 0 < n | None \<Rightarrow> False)"

text \<open>
  \<open>x > v\<close> for a number \<open>x\<close>. Rego orders values of different types: null, booleans, numbers, strings,
  arrays, objects.
\<close>

definition exceeds :: "rat option \<Rightarrow> gval option \<Rightarrow> bool" where
  "exceeds x v = (case x of None \<Rightarrow> False | Some n \<Rightarrow>
     (case v of
        None \<Rightarrow> False
      | Some GNull \<Rightarrow> True
      | Some (GBool _) \<Rightarrow> True
      | Some (GNum l) \<Rightarrow> l < n
      | Some _ \<Rightarrow> False))"

definition num :: "gval option \<Rightarrow> rat option" where
  "num v = (case v of Some (GNum n) \<Rightarrow> Some n | _ \<Rightarrow> None)"

definition arg :: "gval option \<Rightarrow> gval" where
  "arg v = (case v of Some x \<Rightarrow> x | None \<Rightarrow> GNull)"

definition starts_with :: "gval \<Rightarrow> gval \<Rightarrow> bool" where
  "starts_with v w = (case (v, w) of (GStr s, GStr p) \<Rightarrow> HasPrefix s p | _ \<Rightarrow> False)"

definition ends_with :: "gval \<Rightarrow> string \<Rightarrow> bool" where
  "ends_with v p = (case v of GStr s \<Rightarrow> HasSuffix s p | _ \<Rightarrow> False)"

section \<open>The rules\<close>

definition required_fields :: "string list" where
  "required_fields = [''depth'', ''field_count'', ''field_paths'']"

definition missing_field :: "gval \<Rightarrow> string list" where
  "missing_field input =
     filter (\<lambda>f. \<not> truthy (ref input [f])) required_fields @
     filter (\<lambda>f. ref input [f] = Some GNull) required_fields"

definition deny_malformed :: "rego_sprintf \<Rightarrow> gval \<Rightarrow> string list" where
  "deny_malformed sprintf input =
     map (\<lambda>f. sprintf ''malformed request: missing required field %q'' [GStr f]) (missing_field input)"

definition introspection_fields :: "string list" where
  "introspection_fields =
     [''__schema'', ''__type'', ''__typename'', ''__isTypeOf'', ''__resolveReference'', ''__resolveType'',
      ''__TypeKind'', ''__Field'', ''__InputValue'', ''__EnumValue'', ''__Directive'', ''__DirectiveLocation'']"

definition introspection_field_requested :: "gval \<Rightarrow> string list" where
  "introspection_field_requested input =
     filter (\<lambda>f. GStr f \<in> set (elems (ref input [''field_paths'']))) introspection_fields"

definition introspection_suffix_requested :: "gval \<Rightarrow> string list" where
  "introspection_suffix_requested input =
     filter (\<lambda>f. \<exists>p \<in> set (elems (ref input [''field_paths''])). ends_with p (''.'' @ f)) introspection_fields"

definition deny_introspection :: "rego_sprintf \<Rightarrow> gval \<Rightarrow> string list" where
  "deny_introspection sprintf input =
     (if ref input [''operation_name''] = Some (GStr ''IntrospectionQuery'')
      then [''introspection queries are blocked''] else []) @
     map (\<lambda>f. sprintf ''introspection field %q is blocked'' [GStr f])
       (introspection_field_requested input @ introspection_suffix_requested input)"

definition deny_depth :: "rego_sprintf \<Rightarrow> gval \<Rightarrow> string list" where
  "deny_depth sprintf input =
     (let d = ref input [''depth'']; l = ref input [''params'', ''depth_limit''] in
      if exceeds (num d) l then [sprintf ''query depth %d exceeds limit %v'' [arg d, arg l]] else [])"

definition deny_field_count :: "rego_sprintf \<Rightarrow> gval \<Rightarrow> string list" where
  "deny_field_count sprintf input =
     (let n = ref input [''field_count''] in
      if exceeds (num n) (ref input [''params'', ''max_field_count''])
      then [sprintf ''field count %d exceeds limit (possible alias bomb)'' [arg n]] else [])"

definition deny_directives :: "rego_sprintf \<Rightarrow> gval \<Rightarrow> string list" where
  "deny_directives sprintf input =
     (let n = ref input [''directives'']; l = ref input [''params'', ''max_directives''] in
      if truthy l \<and> exceeds (num n) l then [sprintf ''directive count %d exceeds limit %v'' [arg n, arg l]] else [])"

definition deny_batch :: "rego_sprintf \<Rightarrow> gval \<Rightarrow> string list" where
  "deny_batch sprintf input =
     (let n = ref input [''batch_size'']; l = ref input [''params'', ''max_batch_size''] in
      if truthy l \<and> exceeds (num n) l then [sprintf ''batch size %d exceeds limit %v'' [arg n, arg l]] else [])"

definition deny_blocklist :: "rego_sprintf \<Rightarrow> gval \<Rightarrow> string list" where
  "deny_blocklist sprintf input =
     (let blocklist = elems (ref input [''params'', ''field_blocklist'']) in
      map (\<lambda>path. sprintf ''field %q is blocked'' [path])
        (filter (\<lambda>path. path \<in> set blocklist) (elems (ref input [''field_paths'']))))"

definition field_on_allowlist :: "gval \<Rightarrow> gval \<Rightarrow> bool" where
  "field_on_allowlist input path =
     (\<exists>permitted \<in> set (elems (ref input [''params'', ''field_allowlist''])). path = permitted \<or> starts_with path permitted)"

definition deny_allowlist :: "rego_sprintf \<Rightarrow> gval \<Rightarrow> string list" where
  "deny_allowlist sprintf input =
     (if nonempty (ref input [''params'', ''field_allowlist''])
      then map (\<lambda>path. sprintf ''field %q is not in the allowlist'' [path])
             (filter (\<lambda>path. \<not> field_on_allowlist input path) (elems (ref input [''field_paths''])))
      else [])"

definition deny_operation_type :: "rego_sprintf \<Rightarrow> gval \<Rightarrow> string list" where
  "deny_operation_type sprintf input =
     (let t = ref input [''operation_type'']; allowed = ref input [''params'', ''allowed_operations''] in
      (if t \<noteq> None \<and> arg t \<in> set (elems (ref input [''params'', ''blocked_operations'']))
       then [sprintf ''operation type %q is blocked'' [arg t]] else []) @
      (if nonempty allowed \<and> t \<noteq> None \<and> arg t \<notin> set (elems allowed)
       then [sprintf ''operation type %q is not allowed'' [arg t]] else []))"

definition deny_operation_name :: "rego_sprintf \<Rightarrow> gval \<Rightarrow> string list" where
  "deny_operation_name sprintf input =
     (let n = ref input [''operation_name'']; names = ref input [''params'', ''allowed_operation_names''] in
      (if nonempty names \<and> n = Some (GStr [])
       then [''anonymous queries are blocked when operation name allowlist is active''] else []) @
      (if nonempty names \<and> n \<noteq> None \<and> n \<noteq> Some (GStr []) \<and> arg n \<notin> set (elems names)
       then [sprintf ''operation name %q is not in the allowlist'' [arg n]] else []))"

definition deny_argument_depth :: "rego_sprintf \<Rightarrow> gval \<Rightarrow> string list" where
  "deny_argument_depth sprintf input =
     (let n = ref input [''argument_depth'']; l = ref input [''params'', ''max_argument_depth''] in
      if truthy l \<and> exceeds (num n) l then [sprintf ''argument depth %d exceeds limit %v'' [arg n, arg l]] else [])"

definition deny_lists :: "rego_sprintf \<Rightarrow> gval \<Rightarrow> string list" where
  "deny_lists sprintf input =
     (let n = ref input [''lists_requested'']; l = ref input [''params'', ''max_lists_requested''] in
      if truthy l \<and> exceeds (num n) l then [sprintf ''too many list fields requested (%d)'' [arg n]] else [])"

definition deny_fragments :: "rego_sprintf \<Rightarrow> gval \<Rightarrow> string list" where
  "deny_fragments sprintf input =
     (let n = ref input [''fragment_spread_count'']; l = ref input [''params'', ''max_fragment_spreads''] in
      if truthy l \<and> exceeds (num n) l
      then [sprintf ''fragment spread count %d exceeds limit %v'' [arg n, arg l]] else [])"

definition query_cost :: "gval \<Rightarrow> rat option" where
  "query_cost input =
     (case (num (ref input [''depth'']), num (ref input [''field_count''])) of
        (Some d, Some n) \<Rightarrow> Some (d * n)
      | _ \<Rightarrow> None)"

definition deny_cost :: "rego_sprintf \<Rightarrow> gval \<Rightarrow> string list" where
  "deny_cost sprintf input =
     (let l = ref input [''params'', ''cost_budget''] in
      if truthy l \<and> exceeds (query_cost input) l
      then [sprintf ''query cost %d exceeds budget %v'' [arg (map_option GNum (query_cost input)), arg l]] else [])"

definition deny_dynamic :: "rego_sprintf \<Rightarrow> gval \<Rightarrow> string list" where
  "deny_dynamic sprintf input =
     (let required = (ref input [''params'', ''require_persisted_queries''] = Some (GBool True));
          n = ref input [''operation_name'']; h = ref input [''query_hash''] in
      (if required \<and> \<not> truthy n \<and> \<not> truthy h then [''dynamic queries are not allowed''] else []) @
      (if required \<and> n = Some (GStr []) \<and> h = Some (GStr []) then [''dynamic queries are not allowed''] else []) @
      (if required \<and> truthy n \<and> \<not> truthy h then [sprintf ''persisted query %q has no matching hash'' [arg n]] else []))"

definition deny_tenant :: "rego_sprintf \<Rightarrow> gval \<Rightarrow> string list" where
  "deny_tenant sprintf input =
     (if \<not> truthy (ref input [''tenant_config'']) then []
      else
        let d = ref input [''depth'']; dl = ref input [''tenant_config'', ''depth_limit''];
            n = ref input [''field_count'']; nl = ref input [''tenant_config'', ''max_field_count''];
            blocklist = elems (ref input [''tenant_config'', ''field_blocklist'']);
            t = ref input [''operation_type''] in
        (if truthy dl \<and> exceeds (num d) dl then [sprintf ''tenant depth limit %v exceeded'' [arg dl]] else []) @
        (if truthy nl \<and> exceeds (num n) nl then [sprintf ''tenant field count limit %v exceeded'' [arg nl]] else []) @
        map (\<lambda>path. sprintf ''field %q is blocked by tenant policy'' [path])
          (filter (\<lambda>path. path \<in> set blocklist) (elems (ref input [''field_paths'']))) @
        (if t \<noteq> None \<and> arg t \<in> set (elems (ref input [''tenant_config'', ''blocked_operations'']))
         then [sprintf ''operation type %q is blocked by tenant policy'' [arg t]] else []))"

definition deny :: "rego_sprintf \<Rightarrow> gval \<Rightarrow> string list" where
  "deny sprintf input =
     deny_malformed sprintf input @ deny_introspection sprintf input @ deny_depth sprintf input @
     deny_field_count sprintf input @ deny_directives sprintf input @ deny_batch sprintf input @
     deny_blocklist sprintf input @ deny_allowlist sprintf input @ deny_operation_type sprintf input @
     deny_operation_name sprintf input @ deny_argument_depth sprintf input @ deny_lists sprintf input @
     deny_fragments sprintf input @ deny_cost sprintf input @ deny_dynamic sprintf input @ deny_tenant sprintf input"

definition allow :: "rego_sprintf \<Rightarrow> gval \<Rightarrow> bool" where
  "allow sprintf input \<longleftrightarrow> deny sprintf input = []"


lemmas deny_defs = deny_malformed_def deny_introspection_def deny_depth_def deny_field_count_def deny_directives_def
  deny_batch_def deny_blocklist_def deny_allowlist_def deny_operation_type_def deny_operation_name_def
  deny_argument_depth_def deny_lists_def deny_fragments_def deny_cost_def deny_dynamic_def deny_tenant_def

section \<open>The documents the program sends\<close>

abbreviation param_ref :: "params option \<Rightarrow> string \<Rightarrow> gval option" where
  "param_ref ps k \<equiv> Option.bind ps (\<lambda>m. map_of m k)"

lemma ref_Input [simp]:
  "ref (Input_json i) [''operation_type''] = Some (GStr (in_OperationType i))"
  "ref (Input_json i) [''operation_name''] = (if in_OperationName i = [] then None else Some (GStr (in_OperationName i)))"
  "ref (Input_json i) [''depth''] = Some (GNum (of_nat (in_Depth i)))"
  "ref (Input_json i) [''field_count''] = Some (GNum (of_nat (in_FieldCount i)))"
  "ref (Input_json i) [''field_paths''] = Some (GArr (map GStr (in_FieldPaths i)))"
  "ref (Input_json i) [''directives''] = (if in_Directives i = 0 then None else Some (GNum (of_nat (in_Directives i))))"
  "ref (Input_json i) [''batch_size''] = (if in_BatchSize i = 0 then None else Some (GNum (of_nat (in_BatchSize i))))"
  "ref (Input_json i) [''argument_depth''] = (if in_ArgumentDepth i = 0 then None else Some (GNum (of_nat (in_ArgumentDepth i))))"
  "ref (Input_json i) [''lists_requested''] = (if in_ListsRequested i = 0 then None else Some (GNum (of_nat (in_ListsRequested i))))"
  "ref (Input_json i) [''fragment_spread_count''] =
     (if in_FragmentSpreadCount i = 0 then None else Some (GNum (of_nat (in_FragmentSpreadCount i))))"
  "ref (Input_json i) [''query_hash''] = (if in_QueryHash i = [] then None else Some (GStr (in_QueryHash i)))"
  by (simp_all add: Input_json_def Input_members_def del: map_of_append)

lemma ref_Input_maps [simp]:
  "ref (Input_json i) [''params'', k] = param_ref (in_Params i) k"
  "ref (Input_json i) [''tenant_config'', k] = param_ref (in_TenantConfig i) k"
  "truthy (ref (Input_json i) [''tenant_config'']) \<longleftrightarrow> in_TenantConfig i \<noteq> None \<and> in_TenantConfig i \<noteq> Some []"
  by (auto simp: Input_json_def Input_members_def truthy_def simp del: map_of_append split: option.splits)


section \<open>What the policy stands for\<close>

text \<open>
  Parameters as they are documented: limits are numbers that are not negative, lists are arrays of
  strings, switches are booleans.
\<close>

definition limit_param :: "params option \<Rightarrow> string \<Rightarrow> bool" where
  "limit_param ps k \<longleftrightarrow> (case param_ref ps k of None \<Rightarrow> True | Some (GNum l) \<Rightarrow> 0 \<le> l | Some _ \<Rightarrow> False)"

definition is_GStr :: "gval \<Rightarrow> bool" where
  "is_GStr v \<longleftrightarrow> (case v of GStr _ \<Rightarrow> True | _ \<Rightarrow> False)"

definition names_param :: "params option \<Rightarrow> string \<Rightarrow> bool" where
  "names_param ps k \<longleftrightarrow> (case param_ref ps k of None \<Rightarrow> True | Some (GArr vs) \<Rightarrow> list_all is_GStr vs | Some _ \<Rightarrow> False)"

definition limit_names :: "string list" where
  "limit_names = [''depth_limit'', ''max_field_count'', ''max_directives'', ''max_batch_size'', ''max_argument_depth'',
     ''max_lists_requested'', ''max_fragment_spreads'', ''cost_budget'']"

definition list_names :: "string list" where
  "list_names = [''field_blocklist'', ''field_allowlist'', ''blocked_operations'', ''allowed_operations'', ''allowed_operation_names'']"

definition documented :: "params option \<Rightarrow> bool" where
  "documented ps \<longleftrightarrow> list_all (limit_param ps) limit_names \<and> list_all (names_param ps) list_names"

definition at_most :: "nat \<Rightarrow> params option \<Rightarrow> string \<Rightarrow> bool" where
  "at_most n ps k \<longleftrightarrow> (case param_ref ps k of Some (GNum l) \<Rightarrow> of_nat n \<le> l | _ \<Rightarrow> True)"

definition strings_of :: "params option \<Rightarrow> string \<Rightarrow> string set" where
  "strings_of ps k = set (List.map_filter (\<lambda>v. case v of GStr s \<Rightarrow> Some s | _ \<Rightarrow> None) (elems (param_ref ps k)))"

lemma in_strings_of: "s \<in> strings_of ps k \<longleftrightarrow> GStr s \<in> set (elems (param_ref ps k))"
proof -
  have "(case v of GStr s \<Rightarrow> Some s | _ \<Rightarrow> None) = Some s \<longleftrightarrow> v = GStr s" for v by (cases v) auto
  moreover have "s \<in> set (List.map_filter f vs) \<longleftrightarrow> (\<exists>v \<in> set vs. f v = Some s)" for f and vs :: "gval list"
    by (induction vs) (auto split: option.split)
  ultimately show ?thesis by (simp add: strings_of_def)
qed

text \<open>The field a path ends in.\<close>

definition leaf :: "string \<Rightarrow> string" where
  "leaf path = rev (takeWhile (\<lambda>c. c \<noteq> CHR ''.'') (rev path))"

definition tenant_within :: "Input \<Rightarrow> bool" where
  "tenant_within i \<longleftrightarrow>
     (let t = in_TenantConfig i in
      at_most (in_Depth i) t ''depth_limit'' \<and> at_most (in_FieldCount i) t ''max_field_count'' \<and>
      set (in_FieldPaths i) \<inter> strings_of t ''field_blocklist'' = {} \<and>
      in_OperationType i \<notin> strings_of t ''blocked_operations'')"

text \<open>Everything but the allowlist of operation names.\<close>

definition within_limits :: "Input \<Rightarrow> bool" where
  "within_limits i \<longleftrightarrow>
     (let p = in_Params i; paths = set (in_FieldPaths i) in
      in_OperationName i \<noteq> ''IntrospectionQuery'' \<and> leaf ` paths \<inter> set introspection_fields = {} \<and>
      at_most (in_Depth i) p ''depth_limit'' \<and> at_most (in_FieldCount i) p ''max_field_count'' \<and>
      at_most (in_Directives i) p ''max_directives'' \<and> at_most (in_BatchSize i) p ''max_batch_size'' \<and>
      at_most (in_ArgumentDepth i) p ''max_argument_depth'' \<and> at_most (in_ListsRequested i) p ''max_lists_requested'' \<and>
      at_most (in_FragmentSpreadCount i) p ''max_fragment_spreads'' \<and>
      at_most (in_Depth i * in_FieldCount i) p ''cost_budget'' \<and>
      paths \<inter> strings_of p ''field_blocklist'' = {} \<and>
      (strings_of p ''field_allowlist'' = {} \<or> (\<forall>q \<in> paths. \<exists>a \<in> strings_of p ''field_allowlist''. HasPrefix q a)) \<and>
      in_OperationType i \<notin> strings_of p ''blocked_operations'' \<and>
      (strings_of p ''allowed_operations'' = {} \<or> in_OperationType i \<in> strings_of p ''allowed_operations'') \<and>
      (param_ref p ''require_persisted_queries'' = Some (GBool True) \<longrightarrow> in_QueryHash i \<noteq> []) \<and>
      tenant_within i)"

text \<open>The allowlist of operation names as it is documented: when it is active, an unnamed operation is not on it.\<close>

definition name_allowed :: "Input \<Rightarrow> bool" where
  "name_allowed i \<longleftrightarrow>
     (let names = strings_of (in_Params i) ''allowed_operation_names'' in names = {} \<or> in_OperationName i \<noteq> [] \<and> in_OperationName i \<in> names)"

definition within_policy :: "Input \<Rightarrow> bool" where
  "within_policy i \<longleftrightarrow> within_limits i \<and> name_allowed i"

section \<open>The rules and their meaning\<close>

lemma leaf_plain:
  assumes "CHR ''.'' \<notin> set f"
  shows "leaf (p @ CHR ''.'' # f) = f" and "leaf f = f"
proof -
  have "takeWhile (\<lambda>c. c \<noteq> CHR ''.'') (rev f @ w) = rev f @ takeWhile (\<lambda>c. c \<noteq> CHR ''.'') w" for w
    using assms by (intro takeWhile_append2) auto
  then show "leaf (p @ CHR ''.'' # f) = f" by (simp add: leaf_def)
  have "takeWhile (\<lambda>c. c \<noteq> CHR ''.'') (rev f) = rev f" using assms by (auto simp: takeWhile_eq_all_conv)
  then show "leaf f = f" unfolding leaf_def by (metis rev_rev_ident)
qed

lemma leaf_cases: "leaf p = p \<or> (\<exists>q. p = q @ CHR ''.'' # leaf p)"
proof -
  let ?r = "rev p"
  have "?r = takeWhile (\<lambda>c. c \<noteq> CHR ''.'') ?r @ dropWhile (\<lambda>c. c \<noteq> CHR ''.'') ?r" by simp
  then have p: "p = rev (dropWhile (\<lambda>c. c \<noteq> CHR ''.'') ?r) @ leaf p"
    unfolding leaf_def by (metis rev_append rev_rev_ident)
  show ?thesis
  proof (cases "dropWhile (\<lambda>c. c \<noteq> CHR ''.'') ?r")
    case Nil
    with p show ?thesis by simp
  next
    case (Cons c cs)
    then have "c = CHR ''.''" by (metis (mono_tags, lifting) hd_dropWhile list.distinct(1) list.sel(1))
    with p Cons show ?thesis by (metis append.assoc append_Cons append_Nil rev.simps(2))
  qed
qed

lemma leaf_iff: "CHR ''.'' \<notin> set f \<Longrightarrow> leaf p = f \<longleftrightarrow> p = f \<or> HasSuffix p (CHR ''.'' # f)"
  using leaf_plain leaf_cases [of p] by (auto simp: HasSuffix_iff)

lemma introspection_plain: "f \<in> set introspection_fields \<Longrightarrow> CHR ''.'' \<notin> set f"
  by (auto simp: introspection_fields_def)

lemma deny_introspection_none:
  "deny_introspection sprintf (Input_json i) = [] \<longleftrightarrow>
   in_OperationName i \<noteq> ''IntrospectionQuery'' \<and> leaf ` set (in_FieldPaths i) \<inter> set introspection_fields = {}"
proof -
  have "f \<in> leaf ` set (in_FieldPaths i) \<longleftrightarrow>
      f \<in> set (in_FieldPaths i) \<or> (\<exists>p \<in> set (in_FieldPaths i). HasSuffix p (CHR ''.'' # f))"
    if "f \<in> set introspection_fields" for f
    unfolding image_iff using leaf_iff [OF introspection_plain [OF that]] by metis
  then have "leaf ` set (in_FieldPaths i) \<inter> set introspection_fields = {} \<longleftrightarrow>
      introspection_field_requested (Input_json i) = [] \<and> introspection_suffix_requested (Input_json i) = []"
    by (auto simp: introspection_field_requested_def introspection_suffix_requested_def elems_def ends_with_def
        filter_empty_conv)
  then show ?thesis by (auto simp: deny_introspection_def)
qed

lemma exceeds_at_most:
  assumes "limit_param ps k"
  shows "exceeds (Some (of_nat n)) (param_ref ps k) \<longleftrightarrow> \<not> at_most n ps k"
    and "truthy (param_ref ps k) \<and> exceeds (num (if n = 0 then None else Some (GNum (of_nat n)))) (param_ref ps k) \<longleftrightarrow> \<not> at_most n ps k"
  using assms
  by (auto simp: exceeds_def at_most_def limit_param_def truthy_def num_def split: option.splits gval.splits)

lemma names_param_elems:
  assumes "names_param ps k"
  shows "set (elems (param_ref ps k)) = GStr ` strings_of ps k" and "nonempty (param_ref ps k) \<longleftrightarrow> strings_of ps k \<noteq> {}"
proof -
  have "is_GStr v \<longleftrightarrow> (\<exists>s. v = GStr s)" for v by (cases v) (auto simp: is_GStr_def)
  then have *: "list_all is_GStr vs \<Longrightarrow> v \<in> set vs \<Longrightarrow> \<exists>s. v = GStr s" for v vs
    by (simp add: list_all_iff)
  then show 1: "set (elems (param_ref ps k)) = GStr ` strings_of ps k"
    using assms by (fastforce simp: names_param_def elems_def in_strings_of dest: * split: option.splits gval.splits)
  show "nonempty (param_ref ps k) \<longleftrightarrow> strings_of ps k \<noteq> {}"
    using assms 1 by (auto simp: names_param_def nonempty_def rego_count_def elems_def split: option.splits gval.splits)
qed


lemma documented_limit: "documented ps \<Longrightarrow> k \<in> set limit_names \<Longrightarrow> limit_param ps k"
  and documented_names: "documented ps \<Longrightarrow> k \<in> set list_names \<Longrightarrow> names_param ps k"
  by (auto simp: documented_def list_all_iff)

lemma deny_malformed_none: "deny_malformed sprintf (Input_json i) = []"
  by (simp add: deny_malformed_def missing_field_def required_fields_def truthy_def)

lemma deny_limits_none:
  assumes "documented (in_Params i)"
  shows "deny_depth sprintf (Input_json i) = [] \<longleftrightarrow> at_most (in_Depth i) (in_Params i) ''depth_limit''"
    and "deny_field_count sprintf (Input_json i) = [] \<longleftrightarrow> at_most (in_FieldCount i) (in_Params i) ''max_field_count''"
    and "deny_directives sprintf (Input_json i) = [] \<longleftrightarrow> at_most (in_Directives i) (in_Params i) ''max_directives''"
    and "deny_batch sprintf (Input_json i) = [] \<longleftrightarrow> at_most (in_BatchSize i) (in_Params i) ''max_batch_size''"
    and "deny_argument_depth sprintf (Input_json i) = [] \<longleftrightarrow> at_most (in_ArgumentDepth i) (in_Params i) ''max_argument_depth''"
    and "deny_lists sprintf (Input_json i) = [] \<longleftrightarrow> at_most (in_ListsRequested i) (in_Params i) ''max_lists_requested''"
    and "deny_fragments sprintf (Input_json i) = [] \<longleftrightarrow> at_most (in_FragmentSpreadCount i) (in_Params i) ''max_fragment_spreads''"
  using exceeds_at_most [OF documented_limit [OF assms]]
  by (simp_all add: deny_defs Let_def limit_names_def num_def)

lemma deny_cost_none:
  assumes "documented (in_Params i)"
  shows "deny_cost sprintf (Input_json i) = [] \<longleftrightarrow> at_most (in_Depth i * in_FieldCount i) (in_Params i) ''cost_budget''"
  using documented_limit [OF assms, of "''cost_budget''"]
  by (auto simp: deny_cost_def query_cost_def num_def limit_names_def exceeds_def at_most_def limit_param_def truthy_def
      split: option.splits gval.splits)

lemma deny_paths_none:
  assumes "documented (in_Params i)"
  shows "deny_blocklist sprintf (Input_json i) = [] \<longleftrightarrow> set (in_FieldPaths i) \<inter> strings_of (in_Params i) ''field_blocklist'' = {}"
    and "deny_allowlist sprintf (Input_json i) = [] \<longleftrightarrow> strings_of (in_Params i) ''field_allowlist'' = {} \<or>
      (\<forall>q \<in> set (in_FieldPaths i). \<exists>a \<in> strings_of (in_Params i) ''field_allowlist''. HasPrefix q a)"
proof -
  note e = names_param_elems [OF documented_names [OF assms]]
  have b: "set (elems (param_ref (in_Params i) ''field_blocklist'')) = GStr ` strings_of (in_Params i) ''field_blocklist''"
    using e(1) [of "''field_blocklist''"] by (simp add: list_names_def)
  show "deny_blocklist sprintf (Input_json i) = [] \<longleftrightarrow> set (in_FieldPaths i) \<inter> strings_of (in_Params i) ''field_blocklist'' = {}"
    unfolding deny_blocklist_def Let_def ref_Input ref_Input_maps b by (auto simp: filter_empty_conv elems_def)
  have a: "set (elems (param_ref (in_Params i) ''field_allowlist'')) = GStr ` strings_of (in_Params i) ''field_allowlist''"
    "nonempty (param_ref (in_Params i) ''field_allowlist'') \<longleftrightarrow> strings_of (in_Params i) ''field_allowlist'' \<noteq> {}"
    using e [of "''field_allowlist''"] by (simp_all add: list_names_def)
  have p: "HasPrefix q q" for q by (simp add: HasPrefix_def)
  show "deny_allowlist sprintf (Input_json i) = [] \<longleftrightarrow> strings_of (in_Params i) ''field_allowlist'' = {} \<or>
      (\<forall>q \<in> set (in_FieldPaths i). \<exists>a \<in> strings_of (in_Params i) ''field_allowlist''. HasPrefix q a)"
    unfolding deny_allowlist_def field_on_allowlist_def ref_Input ref_Input_maps a
    by (auto simp: filter_empty_conv elems_def starts_with_def intro: p)
qed

lemma deny_operation_none:
  assumes "documented (in_Params i)"
  shows "deny_operation_type sprintf (Input_json i) = [] \<longleftrightarrow> in_OperationType i \<notin> strings_of (in_Params i) ''blocked_operations'' \<and>
      (strings_of (in_Params i) ''allowed_operations'' = {} \<or> in_OperationType i \<in> strings_of (in_Params i) ''allowed_operations'')"
    and "deny_operation_name sprintf (Input_json i) = [] \<longleftrightarrow>
      strings_of (in_Params i) ''allowed_operation_names'' = {} \<or> in_OperationName i = [] \<or>
      in_OperationName i \<in> strings_of (in_Params i) ''allowed_operation_names''"
proof -
  note e = names_param_elems [OF documented_names [OF assms]]
  have t: "set (elems (param_ref (in_Params i) ''blocked_operations'')) = GStr ` strings_of (in_Params i) ''blocked_operations''"
    "set (elems (param_ref (in_Params i) ''allowed_operations'')) = GStr ` strings_of (in_Params i) ''allowed_operations''"
    "nonempty (param_ref (in_Params i) ''allowed_operations'') \<longleftrightarrow> strings_of (in_Params i) ''allowed_operations'' \<noteq> {}"
    "set (elems (param_ref (in_Params i) ''allowed_operation_names'')) = GStr ` strings_of (in_Params i) ''allowed_operation_names''"
    "nonempty (param_ref (in_Params i) ''allowed_operation_names'') \<longleftrightarrow> strings_of (in_Params i) ''allowed_operation_names'' \<noteq> {}"
    using e by (simp_all add: list_names_def)
  show "deny_operation_type sprintf (Input_json i) = [] \<longleftrightarrow> in_OperationType i \<notin> strings_of (in_Params i) ''blocked_operations'' \<and>
      (strings_of (in_Params i) ''allowed_operations'' = {} \<or> in_OperationType i \<in> strings_of (in_Params i) ''allowed_operations'')"
    unfolding deny_operation_type_def Let_def ref_Input ref_Input_maps t by (auto simp: arg_def)
  show "deny_operation_name sprintf (Input_json i) = [] \<longleftrightarrow>
      strings_of (in_Params i) ''allowed_operation_names'' = {} \<or> in_OperationName i = [] \<or>
      in_OperationName i \<in> strings_of (in_Params i) ''allowed_operation_names''"
    unfolding deny_operation_name_def Let_def ref_Input ref_Input_maps t by (auto simp: arg_def)
qed

lemma deny_dynamic_none:
  "deny_dynamic sprintf (Input_json i) = [] \<longleftrightarrow>
   (param_ref (in_Params i) ''require_persisted_queries'' = Some (GBool True) \<longrightarrow> in_QueryHash i \<noteq> [])"
  by (auto simp: deny_dynamic_def truthy_def)

lemma deny_tenant_none:
  assumes "documented (in_TenantConfig i)"
  shows "deny_tenant sprintf (Input_json i) = [] \<longleftrightarrow> tenant_within i"
proof (cases "in_TenantConfig i = None \<or> in_TenantConfig i = Some []")
  case True
  then show ?thesis by (auto simp: deny_tenant_def tenant_within_def at_most_def in_strings_of elems_def)
next
  case False
  let ?t = "in_TenantConfig i"
  note e = names_param_elems [OF documented_names [OF assms]]
  have t: "set (elems (param_ref ?t ''field_blocklist'')) = GStr ` strings_of ?t ''field_blocklist''"
    "set (elems (param_ref ?t ''blocked_operations'')) = GStr ` strings_of ?t ''blocked_operations''"
    using e by (simp_all add: list_names_def)
  have l: "truthy (param_ref ?t k) \<and> exceeds (num (Some (GNum (of_nat n)))) (param_ref ?t k) \<longleftrightarrow> \<not> at_most n ?t k"
    if "k \<in> set limit_names" for n k
    using documented_limit [OF assms that]
    by (auto simp: exceeds_def at_most_def limit_param_def truthy_def num_def split: option.splits gval.splits)
  show ?thesis
    using False l [of "''depth_limit''" "in_Depth i"] l [of "''max_field_count''" "in_FieldCount i"]
    unfolding deny_tenant_def Let_def ref_Input ref_Input_maps t
    by (auto simp: tenant_within_def Let_def limit_names_def arg_def filter_empty_conv elems_def)
qed

lemma allow_iff_within:
  assumes "documented (in_Params i)" and "documented (in_TenantConfig i)"
  shows "allow sprintf (Input_json i) \<longleftrightarrow> within_limits i \<and> (in_OperationName i = [] \<or> name_allowed i)"
  unfolding allow_def deny_def within_limits_def name_allowed_def Let_def append_is_Nil_conv deny_limits_none [OF assms(1)]
    deny_paths_none [OF assms(1)] deny_operation_none [OF assms(1)] deny_cost_none [OF assms(1)]
    deny_tenant_none [OF assms(2)] deny_dynamic_none deny_malformed_none deny_introspection_none
  by blast


definition sample_params :: params where
  "sample_params = [(''depth_limit'', GNum 10), (''max_field_count'', GNum 100), (''field_blocklist'', GArr [GStr ''user.ssn''])]"

definition sample_input :: "string list \<Rightarrow> Input" where
  "sample_input paths = BuildInput (zero_QueryInfo\<lparr>OperationType := ''query'', OperationName := ''Get'', Depth := 2, FieldCount := 2, FieldPaths := paths\<rparr>)
     (Some (SetParams (Some sample_params) NewDataStore))"

lemma sample_input_simps [simp]:
  "in_Params (sample_input paths) = Some sample_params" "in_TenantConfig (sample_input paths) = None"
  "in_FieldPaths (sample_input paths) = paths" "in_OperationName (sample_input paths) = ''Get''"
  by (simp_all add: sample_input_def BuildInput_def GetParams_eq wf_store_def wf_map_def NewDataStore_def SetParams_def sample_params_def zero_QueryInfo_def)

lemma documented_None [simp]: "documented None"
  by (simp add: documented_def limit_param_def names_param_def list_all_iff)

lemma documented_sample: "documented (Some sample_params)"
  by (simp add: documented_def limit_names_def list_names_def limit_param_def names_param_def sample_params_def is_GStr_def)



section \<open>Inside the embedded evaluator\<close>

text \<open>
  What is expected of the Rego engine: when the query for \<open>allow\<close> gives a boolean it is the value of the rule, and
  when the query for \<open>deny\<close> gives a list of strings they are denials of the policy. It may fail on any
  input, have no result or one of another type.
\<close>

definition runs_policy :: "rego_sprintf \<Rightarrow> rego_prepare \<Rightarrow> string \<Rightarrow> bool" where
  "runs_policy sprintf Prepare src \<longleftrightarrow>
     (\<forall>a i rs b. Prepare ''data.graphql.allow'' src = Some a \<longrightarrow> a (Input_json i) = Some rs \<longrightarrow>
        first_expression rs = Some (GBool b) \<longrightarrow> b = allow sprintf (Input_json i)) \<and>
     (\<forall>d i rs m ms. Prepare ''data.graphql.deny'' src = Some d \<longrightarrow> d (Input_json i) = Some rs \<longrightarrow>
        first_expression rs = Some (GArr (GStr m # ms)) \<longrightarrow> m \<in> set (deny sprintf (Input_json i)))"

lemma embedded_prepared:
  assumes "NewEmbedded Prepare fresh cfg heap = (Inr e, heap')"
  shows "\<exists>a d. Prepare ''data.graphql.allow'' (cfg_Policy cfg) = Some a \<and> Prepare ''data.graphql.deny'' (cfg_Policy cfg) = Some d \<and>
    prepared e = Some a \<and> preparedDeny e = Some d"
  using assms by (auto simp: NewEmbedded_def embed_compile_def Let_def split: if_splits option.splits)

lemma embedded_grants_allow:
  assumes "NewEmbedded Prepare fresh cfg heap = (Inr e, heap')" and "runs_policy sprintf Prepare (cfg_Policy cfg)"
    and "embedded_grants e i"
  shows "allow sprintf (Input_json i)"
  using embedded_prepared [OF assms(1)] assms(2,3) unfolding embedded_grants_def runs_policy_def by auto

text \<open>
  C26: the embedded evaluator errs only on the safe side, whatever the engine does (fail, give no result, or one
  of another type), as long as a boolean that it gives for \<open>allow\<close> is the value of the rule. It returns an
  error exactly when the engine fails; it allows only what the policy allows; when the engine gives a boolean it
  decides as the policy; and the reason of a refusal is a denial of the policy or says that there was no result,
  no boolean or no readable denial.
\<close>

theorem embedded_applies_policy:
  assumes "NewEmbedded Prepare fresh cfg heap = (Inr e, heap')" and "runs_policy sprintf Prepare (cfg_Policy cfg)"
    and "Prepare ''data.graphql.allow'' (cfg_Policy cfg) = Some engine"
  shows "case embedded_Evaluate e i of
      Inl err \<Rightarrow> err = EvaluationError \<and> engine (Input_json i) = None
    | Inr r \<Rightarrow> \<exists>rs. engine (Input_json i) = Some rs \<and>
        (Allowed r \<longrightarrow> allow sprintf (Input_json i) \<and> Reason r = []) \<and>
        (\<forall>b. first_expression rs = Some (GBool b) \<longrightarrow> (Allowed r \<longleftrightarrow> allow sprintf (Input_json i))) \<and>
        (\<not> Allowed r \<longrightarrow> Reason r \<in> set (deny sprintf (Input_json i)) \<union>
           {''OPA policy evaluation returned no result'', ''OPA policy returned non-boolean result'', ''blocked by OPA policy''})"
proof -
  obtain d where e: "prepared e = Some engine" "preparedDeny e = Some d" "Prepare ''data.graphql.deny'' (cfg_Policy cfg) = Some d"
    using embedded_prepared [OF assms(1)] assms(3) by auto
  have decided: "b = allow sprintf (Input_json i)" if "engine (Input_json i) = Some rs" "first_expression rs = Some (GBool b)" for rs b
    using assms(2,3) that unfolding runs_policy_def by blast
  have reason: "first_denial (d (Input_json i)) \<in> insert ''blocked by OPA policy'' (set (deny sprintf (Input_json i)))"
  proof (cases "\<exists>rs m ms. d (Input_json i) = Some rs \<and> first_expression rs = Some (GArr (GStr m # ms))")
    case True
    then obtain rs m ms where m: "d (Input_json i) = Some rs" "first_expression rs = Some (GArr (GStr m # ms))" by blast
    then have "m \<in> set (deny sprintf (Input_json i))" using assms(2) e(3) unfolding runs_policy_def by blast
    with m show ?thesis by (simp add: first_denial_def)
  next
    case False
    then show ?thesis by (auto simp: first_denial_def split: option.split gval.split list.split)
  qed
  show ?thesis
  proof (cases "engine (Input_json i)")
    case None
    then show ?thesis by (simp add: embedded_Evaluate_def e)
  next
    case (Some rs)
    show ?thesis
    proof (cases "\<exists>b. first_expression rs = Some (GBool b)")
      case True
      then obtain b where b: "first_expression rs = Some (GBool b)" by blast
      with decided [OF Some b] reason show ?thesis by (cases b) (auto simp: embedded_Evaluate_def e Some)
    next
      case False
      then show ?thesis by (auto simp: embedded_Evaluate_def e Some split: option.split gval.split)
    qed
  qed
qed

definition sample_engine :: rego_prepare where
  "sample_engine q src =
     (if q = ''data.graphql.allow'' then Some (\<lambda>d. Some [[GBool (allow (\<lambda>f as. f) d)]])
      else Some (\<lambda>d. Some [[GArr (map GStr (deny (\<lambda>f as. f) d))]]))"

lemma sample_engine_runs: "runs_policy (\<lambda>f as. f) sample_engine src"
  by (auto simp: runs_policy_def sample_engine_def first_expression_def)

theorem embedded_applies_policy_witness:
  "\<exists>e r. fst (NewEmbedded sample_engine 1 \<lparr>cfg_Policy = ''package graphql'', cfg_Store = Some 0\<rparr> (\<lambda>_. NewDataStore)) = Inr e \<and>
     embedded_Evaluate e (sample_input [''user.ssn'']) = Inr r \<and> \<not> Allowed r \<and> Reason r = ''field %q is blocked''"
proof -
  let ?cfg = "\<lparr>cfg_Policy = ''package graphql'', cfg_Store = Some 0\<rparr>"
  obtain e where e: "NewEmbedded sample_engine 1 ?cfg (\<lambda>_. NewDataStore) = (Inr e, \<lambda>_. NewDataStore)"
    by (auto simp: NewEmbedded_def embed_compile_def sample_engine_def)
  let ?i = "sample_input [''user.ssn'']"
  have d: "deny (\<lambda>f as. f) (Input_json ?i) = [''field %q is blocked'']" by code_simp
  then have "embedded_Evaluate e ?i = Inr \<lparr>Allowed = False, Reason = ''field %q is blocked''\<rparr>"
    using embedded_prepared [OF e]
    by (auto simp: embedded_Evaluate_def sample_engine_def first_expression_def first_denial_def allow_def)
  moreover have "sample_engine ''data.graphql.allow'' ''package graphql'' = Some (\<lambda>d. Some [[GBool (allow (\<lambda>f as. f) d)]])"
    by (simp add: sample_engine_def)
  then have "\<not> allow (\<lambda>f as. f) (Input_json ?i)"
    using embedded_applies_policy [OF e, of "\<lambda>f as. f" _ ?i] sample_engine_runs calculation
    by (auto simp: first_expression_def)
  ultimately show ?thesis using e by auto
qed

section \<open>What the policy does not do\<close>

text \<open>
  C28: the configuration of a tenant can only tighten the policy: whatever it contains, a query that is allowed
  with it is allowed without it, so no tenant can be given a higher limit than all others.
\<close>

theorem tenant_config_only_tightens:
  assumes "allow sprintf (Input_json i)"
  shows "allow sprintf (Input_json (i\<lparr>in_TenantConfig := None\<rparr>))"
proof -
  let ?j = "i\<lparr>in_TenantConfig := None\<rparr>"
  have "deny_tenant sprintf (Input_json ?j) = []" by (simp add: deny_tenant_def)
  moreover have "query_cost (Input_json ?j) = query_cost (Input_json i)" by (simp add: query_cost_def)
  then have "\<forall>rule \<in> {deny_introspection sprintf, deny_depth sprintf, deny_field_count sprintf, deny_directives sprintf,
      deny_batch sprintf, deny_blocklist sprintf, deny_allowlist sprintf, deny_operation_type sprintf, deny_operation_name sprintf,
      deny_argument_depth sprintf, deny_lists sprintf, deny_fragments sprintf, deny_cost sprintf, deny_dynamic sprintf}.
      rule (Input_json ?j) = rule (Input_json i)"
    by (simp add: deny_defs introspection_field_requested_def introspection_suffix_requested_def field_on_allowlist_def cong: if_cong)
  ultimately show ?thesis
    using assms by (simp add: allow_def deny_def deny_malformed_none)
qed

theorem tenant_config_only_tightens_witness:
  "allow (\<lambda>f as. f) (Input_json (sample_input [''user'']))"
proof -
  have "allow (\<lambda>f as. f) (Input_json ((sample_input [''user''])\<lparr>in_TenantConfig := Some [(''depth_limit'', GNum 2)]\<rparr>))" by code_simp
  from tenant_config_only_tightens [OF this] show ?thesis by (simp add: sample_input_def BuildInput_def zero_QueryInfo_def)
qed

text \<open>
  C38: requiring persisted queries requires nothing. The analysis gives every query a hash of its
  own, so the rules on persisted queries never apply and the switch changes no verdict.
\<close>

theorem persisted_queries_not_enforced:
  assumes "parseGraphQL ParseQuery ForName query = Some (Inr info)"
  shows "deny_dynamic sprintf (Input_json (BuildInput info st)) = []"
  using assms
proof (rule parseGraphQL_Inr)
  fix doc
  assume "analyse_operations (ForName (Fragments doc)) doc (Operations doc) (initial_info doc query) = Some info"
  from analyse_operations_frame [OF this] have "length (QueryHash info) = 16" by (simp add: length_fmt_x_bytes length_Sum256)
  then have "QueryHash info \<noteq> []" by auto
  then show ?thesis by (simp add: deny_dynamic_none BuildInput_def)
qed

theorem persisted_queries_not_enforced_witness:
  "\<exists>info. parseGraphQL (\<lambda>_. Some demo_document) find_fragment ''m'' = Some (Inr info) \<and>
     deny_dynamic (\<lambda>f as. f) (Input_json (BuildInput info
       (Some (SetParams (Some [(''require_persisted_queries'', GBool True)]) NewDataStore)))) = []"
  using persisted_queries_not_enforced demo_parse by blast

text \<open>The allowlist of operation names lets every anonymous operation pass.\<close>

lemma anonymous_operations_pass: "in_OperationName i = [] \<Longrightarrow> deny_operation_name sprintf (Input_json i) = []"
  by (simp add: deny_operation_name_def)

text \<open>Without a configured depth limit every depth passes: there is no default.\<close>

lemma no_default_depth_limit: "param_ref (in_Params i) ''depth_limit'' = None \<Longrightarrow> deny_depth sprintf (Input_json i) = []"
  by (simp add: deny_depth_def exceeds_def num_def)

end
