(* ===== verification/Policy_Enforcement.thy ===== *)
theory Policy_Enforcement
  imports Schema_Enforcement Graphql_Policy
begin

text \<open>
  The repository's policy from end to end: started with that policy embedded, fail-closed,
  enforcing and without a decision cache, the server forwards only what the policy stands for.
\<close>

lemma startup_embedded:
  assumes "startup out clock f = Inr srv" and "f_opa f = []"
  shows "\<exists>e src n heap heap'. opa (w_eval (srv_world srv)) = Embedded e \<and> ReadFile out (f_opa_embed f) = Some src \<and>
    NewEmbedded (Prepare out) n \<lparr>cfg_Policy = src, cfg_Store = Some 0\<rparr> heap = (Inr e, heap')"
  using assms
  by (auto simp: startup_def build_opa_def Let_def split: option.splits sum.splits prod.splits if_splits) blast+

lemma startup_runs_policy:
  assumes "startup out clock f = Inr srv" and "f_opa f = []" and "ReadFile out (f_opa_embed f) = Some src"
    and "runs_policy sprintf (Prepare out) src"
    and "opa_grants Post (opa (w_eval (srv_world srv))) i"
  shows "allow sprintf (Input_json i)"
proof -
  obtain e n heap heap' where e: "opa (w_eval (srv_world srv)) = Embedded e"
    "NewEmbedded (Prepare out) n \<lparr>cfg_Policy = src, cfg_Store = Some 0\<rparr> heap = (Inr e, heap')"
    using startup_embedded [OF assms(1,2)] assms(3) by auto
  from embedded_grants_allow [OF e(2), of sprintf i] assms(4,5) show ?thesis by (simp add: e(1))
qed

lemma forwarded_allowed:
  assumes "startup out clock f = Inr srv0" and "f_fail_closed f" and "\<not> f_audit_only f" and "f_cache_ttl f \<le> 0"
    and "f_opa f = []" and "ReadFile out (f_opa_embed f) = Some src" and "runs_policy sprintf (Prepare out) src"
    and "server_reachable ForName srv0 srv"
    and "serve_main ForName Post a srv = (Proxied (Some (Forward hdrs req)), srv')"
    and "isGraphQLPath (Path (URL (ar_request a)))"
  shows "\<exists>qs. inspected (ar_env a) (srv_handler srv0) (ar_request a) = Some qs \<and> qs \<noteq> [] \<and>
    (\<forall>q \<in> set qs. allow sprintf (Input_json (BuildInput q (Some (w_heap (srv_world srv) 0)))))"
  using forwarded_granted [OF assms(1-4,8-10)] startup_runs_policy [OF assms(1,5-7)] by blast

lemma item_no_introspection:
  assumes "item_query env h b = Some q" and "parse_query env = Parse ParseQuery FragForName"
    and "leaf ` set (FieldPaths q) \<inter> set introspection_fields = {}"
  shows "\<exists>doc. ParseQuery (Query b) = Some doc \<and>
    (\<forall>op \<in> set (Operations doc). \<forall>ns. selects (FragForName (Fragments doc)) (op_SelectionSet op) ns \<longrightarrow>
       set ns \<inter> set introspection_fields = {})"
proof -
  obtain info where info: "parseGraphQL ParseQuery FragForName (Query b) = Some (Inr info)" "FieldPaths q = FieldPaths info"
    using item_query_parsed [OF assms(1,2)] .
  obtain doc where doc: "ParseQuery (Query b) = Some doc" using info(1) by (rule parseGraphQL_Inr)
  have "x \<notin> set introspection_fields"
    if sel: "op \<in> set (Operations doc)" "selects (FragForName (Fragments doc)) (op_SelectionSet op) ns" "x \<in> set ns" for op ns x
  proof
    assume x: "x \<in> set introspection_fields"
    obtain prefix where "join_path prefix x \<in> set (FieldPaths q)"
      using parseGraphQL_records_names [OF info(1) doc sel] info(2) by auto
    moreover have "leaf (join_path prefix x) = x"
      using leaf_plain [OF introspection_plain [OF x]] by (simp add: join_path_def)
    ultimately show False using x assms(3) by force
  qed
  with doc show ?thesis by blast
qed

text \<open>A server with the policy embedded.\<close>

definition policy_flags :: flags where
  "policy_flags = demo_flags\<lparr>f_opa := [], f_opa_embed := ''graphql.rego''\<rparr>"

definition policy_outside :: "unit outside" where
  "policy_outside = demo_outside\<lparr>ReadFile := (\<lambda>_. Some ''package graphql''), Prepare := sample_engine\<rparr>"

definition policy_evaluator_value :: EmbeddedEvaluator where
  "policy_evaluator_value =
     \<lparr>prepared = sample_engine ''data.graphql.allow'' [], preparedDeny = sample_engine ''data.graphql.deny'' [],
      store = 0, policy = ''package graphql''\<rparr>"

definition policy_server :: server where
  "policy_server =
     demo_server\<lparr>srv_world := (srv_world demo_server)\<lparr>w_eval := (w_eval (srv_world demo_server))
       \<lparr>opa := Embedded policy_evaluator_value\<rparr>\<rparr>\<rparr>"

lemma policy_startup: "startup policy_outside int policy_flags = Inr policy_server"
proof -
  have "build_opa policy_outside policy_flags NewDataStore = Inr (Embedded policy_evaluator_value, NewDataStore)"
    by (simp add: build_opa_def policy_outside_def policy_flags_def demo_flags_def load_params_def apply_operation_names_def
        NewEmbedded_def embed_compile_def sample_engine_def policy_evaluator_value_def)
  moreover have "max_body_bytes policy_flags = DefaultMaxBodyBytes"
    by (simp add: max_body_bytes_def policy_flags_def demo_flags_def DefaultMaxBodyBytes_def)
  moreover have "burst_size policy_flags = 2" by (simp add: burst_size_def policy_flags_def demo_flags_def)
  moreover have "sint (f_max_body_mb policy_flags) = 1" by (simp add: policy_flags_def demo_flags_def)
  moreover have "parse_url policy_outside = (\<lambda>_. Some demo_target)" by (simp add: policy_outside_def demo_outside_def)
  ultimately show ?thesis
    by (simp add: startup_def validate_flags_def load_schema_def New_def build_limiter_def policy_server_def demo_server_def
        demo_limiter_def demo_handler_def demo_target_def)
      (simp add: policy_flags_def demo_flags_def demo_target_def)
qed

lemma demo_query_allowed:
  "allow (\<lambda>f as. f) (Input_json (BuildInput (with_tenant r (demo_info query)) (Some NewDataStore)))"
proof -
  let ?i = "BuildInput (with_tenant r (demo_info query)) (Some NewDataStore)"
  have i: "in_Params ?i = Some []" "in_TenantConfig ?i = None" "in_FieldPaths ?i = [''user'', ''user.name'', ''user.p'']"
    "in_OperationName ?i = ''Get''"
    by (auto simp: BuildInput_def with_tenant_def demo_info_def GetParams_def GetTenant_def NewDataStore_def)
  have "within_limits ?i" "name_allowed ?i"
    unfolding within_limits_def name_allowed_def tenant_within_def i
    by (simp_all add: at_most_def strings_of_def List.map_filter_def elems_def leaf_def introspection_fields_def Let_def)
  then show ?thesis by (subst allow_iff_within) (simp_all add: i documented_def limit_param_def names_param_def list_all_iff)
qed

lemma policy_server_forwards:
  "\<exists>hdrs req srv'. serve_main find_field no_post (demo_arrival (post_request ''a'' demo_body) 0) policy_server =
     (Proxied (Some (Forward hdrs req)), srv')"
  by (rule demo_forwards)
    (simp_all add: composite_eval_def policy_server_def demo_server_def Let_def case_prod_beta Evaluate_def
      Evaluate_policy_def cache_lookup_def judge_def embedded_Evaluate_def policy_evaluator_value_def sample_engine_def
      first_expression_def demo_query_allowed)

lemma policy_flags_simps:
  "f_fail_closed policy_flags" "\<not> f_audit_only policy_flags" "f_cache_ttl policy_flags = 0" "f_opa policy_flags = []"
  by (simp_all add: policy_flags_def demo_flags_def)

lemma policy_engine: "runs_policy (\<lambda>f as. f) (Prepare policy_outside) ''package graphql''"
  by (simp add: policy_outside_def sample_engine_runs)

lemma demo_path: "isGraphQLPath (Path (URL (ar_request (demo_arrival (post_request ''a'' demo_body) 0))))"
  by (simp add: demo_arrival_def post_request_simps)

text \<open>
  C3: with its own policy embedded, fail-closed, enforcing and without a decision cache, the firewall keeps every
  limit, if the engine runs the policy: in every reachable state in which the stored parameters and tenant
  configurations have the documented types, each query of a forwarded GraphQL request is within
  all limits, blocklists, allowlists and switches of the parameters and of the configuration of its tenant at that moment, save that
  an anonymous operation passes the allowlist of operation names. The tenant is that of the API key for a single
  query; the items of a batch have none, so that no tenant configuration applies to them.
\<close>

theorem forwarded_within_policy:
  assumes "startup out clock f = Inr srv0" and "f_fail_closed f" and "\<not> f_audit_only f" and "f_cache_ttl f \<le> 0"
    and "f_opa f = []" and "ReadFile out (f_opa_embed f) = Some src" and "runs_policy sprintf (Prepare out) src"
    and "server_reachable ForName srv0 srv"
    and "serve_main ForName Post a srv = (Proxied (Some (Forward hdrs req)), srv')"
    and "isGraphQLPath (Path (URL (ar_request a)))" and s: "s = w_heap (srv_world srv) 0"
    and ps: "documented (Some (GetParams s))" and ts: "\<And>t. documented (GetTenant s t)"
    and env: "parse_query (ar_env a) = Parse ParseQuery FragForName"
    and key: "key = Header_Get (Header (ar_request a)) ''X-API-Key''"
  shows "\<exists>qs. inspected (ar_env a) (srv_handler srv0) (ar_request a) = Some qs \<and> qs \<noteq> [] \<and>
    (\<forall>q \<in> set qs. within_limits (BuildInput q (Some s)) \<and>
       (OperationName q \<noteq> [] \<longrightarrow> within_policy (BuildInput q (Some s))) \<and>
       TenantID q = (if batched (ar_request a) \<or> key = [] then [] else extractTenantID key) \<and>
       in_TenantConfig (BuildInput q (Some s)) = (if TenantID q = [] then None else GetTenant s (TenantID q)))"
proof -
  have within: "within_limits (BuildInput q (Some s)) \<and> (OperationName q \<noteq> [] \<longrightarrow> within_policy (BuildInput q (Some s)))"
    if "allow sprintf (Input_json (BuildInput q (Some s)))" for q
  proof -
    have "documented (in_Params (BuildInput q (Some s)))" "documented (in_TenantConfig (BuildInput q (Some s)))"
      "in_OperationName (BuildInput q (Some s)) = OperationName q"
      using ps ts by (simp_all add: BuildInput_def)
    with that show ?thesis by (auto simp: allow_iff_within within_policy_def)
  qed
  obtain qs where qs: "inspected (ar_env a) (srv_handler srv0) (ar_request a) = Some qs" "qs \<noteq> []"
    and allowed: "\<And>q. q \<in> set qs \<Longrightarrow> allow sprintf (Input_json (BuildInput q (Some s)))"
    using forwarded_allowed [OF assms(1-10)] unfolding s by blast
  have "TenantID q = (if batched (ar_request a) \<or> key = [] then [] else extractTenantID key)" if "q \<in> set qs" for q
    using batch_has_no_tenant [OF env qs(1) that] by (simp add: key)
  moreover have "in_TenantConfig (BuildInput q (Some s)) = (if TenantID q = [] then None else GetTenant s (TenantID q))" for q
    by (simp add: BuildInput_def)
  ultimately show ?thesis using qs within [OF allowed] by blast
qed

theorem forwarded_within_policy_witness:
  "within_policy (BuildInput (with_tenant (post_request ''a'' demo_body) (demo_info ''{a}'')) (Some NewDataStore))"
proof -
  obtain hdrs req srv' where s: "serve_main find_field no_post (demo_arrival (post_request ''a'' demo_body) 0) policy_server =
     (Proxied (Some (Forward hdrs req)), srv')"
    using policy_server_forwards by blast
  have h: "w_heap (srv_world policy_server) 0 = NewDataStore" by (simp add: policy_server_def demo_server_def)
  have d: "documented (Some (GetParams NewDataStore))" "documented (GetTenant NewDataStore t)" for t
    by (simp_all add: GetParams_def GetTenant_def NewDataStore_def documented_def limit_param_def names_param_def list_all_iff)
  have env: "parse_query (ar_env (demo_arrival (post_request ''a'' demo_body) 0)) = Parse (\<lambda>_. Some demo_document) find_fragment"
    by (simp add: demo_arrival_def demo_env_def)
  have "OperationName (with_tenant r (demo_info q)) \<noteq> []" for r q by (simp add: with_tenant_def demo_info_def)
  with forwarded_within_policy [OF policy_startup _ _ _ _ _ policy_engine started s demo_path h [symmetric] d env refl]
  show ?thesis
    by (auto simp: policy_flags_simps policy_outside_def demo_arrival_def policy_server_def demo_server_def demo_inspected)
qed

text \<open>
  C6: introspection cannot be smuggled through, with the policy of the repository embedded, fail-closed, enforcing
  and without a decision cache: in every reachable state and whatever the parameters are,
  no operation in a forwarded GraphQL request selects an introspection field, at any depth and through any chain
  of fragments, under its own name. With a cache this does not hold, as different queries can share a
  cache key, nor in audit-only mode.
\<close>

theorem forwarded_no_introspection:
  assumes "startup out clock f = Inr srv0" and "f_fail_closed f" and "\<not> f_audit_only f" and "f_cache_ttl f \<le> 0"
    and "f_opa f = []" and "ReadFile out (f_opa_embed f) = Some src" and "runs_policy sprintf (Prepare out) src"
    and "server_reachable ForName srv0 srv"
    and "serve_main ForName Post a srv = (Proxied (Some (Forward hdrs req)), srv')"
    and "isGraphQLPath (Path (URL (ar_request a)))"
    and env: "parse_query (ar_env a) = Parse ParseQuery FragForName"
  shows "\<exists>bs. carried (srv_handler srv0) (ar_request a) = Some bs \<and> bs \<noteq> [] \<and>
    (\<forall>b \<in> set bs. \<exists>doc. ParseQuery (Query b) = Some doc \<and>
       (\<forall>op \<in> set (Operations doc). \<forall>ns. selects (FragForName (Fragments doc)) (op_SelectionSet op) ns \<longrightarrow>
          set ns \<inter> set introspection_fields = {}))"
proof -
  let ?st = "Some (w_heap (srv_world srv) 0)"
  obtain qs where qs: "inspected (ar_env a) (srv_handler srv0) (ar_request a) = Some qs" "qs \<noteq> []"
    and allowed: "\<And>q. q \<in> set qs \<Longrightarrow> allow sprintf (Input_json (BuildInput q ?st))"
    using forwarded_allowed [OF assms(1-10)] by blast
  obtain bs where bs: "carried (srv_handler srv0) (ar_request a) = Some bs"
    and items: "list_all2 (\<lambda>b q. \<exists>p. item_query (ar_env a) (srv_handler srv0) b = Some p \<and> FieldPaths q = FieldPaths p \<and>
      OperationType q = OperationType p) bs qs"
    using inspected_carried [OF qs(1)] by blast
  have "\<exists>doc. ParseQuery (Query b) = Some doc \<and>
       (\<forall>op \<in> set (Operations doc). \<forall>ns. selects (FragForName (Fragments doc)) (op_SelectionSet op) ns \<longrightarrow>
          set ns \<inter> set introspection_fields = {})" if "b \<in> set bs" for b
  proof -
    obtain q p where q: "q \<in> set qs" "item_query (ar_env a) (srv_handler srv0) b = Some p" "FieldPaths q = FieldPaths p"
      using items \<open>b \<in> set bs\<close> unfolding list_all2_conv_all_nth in_set_conv_nth by metis
    have "leaf ` set (FieldPaths p) \<inter> set introspection_fields = {}"
      using allowed [OF q(1)] deny_introspection_none [of sprintf "BuildInput q ?st"] q(3)
      by (simp add: allow_def deny_def BuildInput_def)
    with q(2) env show ?thesis by (rule item_no_introspection)
  qed
  moreover have "bs \<noteq> []" using items qs(2) by auto
  ultimately show ?thesis using bs by blast
qed

theorem forwarded_no_introspection_witness:
  "(\<exists>hdrs req srv'. serve_main find_field no_post (demo_arrival (post_request ''a'' demo_body) 0) policy_server =
     (Proxied (Some (Forward hdrs req)), srv')) \<and> set [''user'', ''name''] \<inter> set introspection_fields = {}"
proof -
  obtain hdrs req srv' where s: "serve_main find_field no_post (demo_arrival (post_request ''a'' demo_body) 0) policy_server =
     (Proxied (Some (Forward hdrs req)), srv')"
    using policy_server_forwards by blast
  have env: "parse_query (ar_env (demo_arrival (post_request ''a'' demo_body) 0)) = Parse (\<lambda>_. Some demo_document) find_fragment"
    by (simp add: demo_arrival_def demo_env_def)
  obtain bs where "bs \<noteq> []" and bs: "\<And>b. b \<in> set bs \<Longrightarrow> \<forall>op \<in> set (Operations demo_document). \<forall>ns.
      selects (find_fragment (Fragments demo_document)) (op_SelectionSet op) ns \<longrightarrow> set ns \<inter> set introspection_fields = {}"
    using forwarded_no_introspection [OF policy_startup _ _ _ _ _ policy_engine started s demo_path env]
    by (auto simp: policy_flags_simps policy_outside_def)
  moreover have "selects (find_fragment (Fragments demo_document)) [Field ''name'' '''' [] [] [], Field ''posts'' ''p'' [] [] []] [''name'']"
    using sel_field [of _ "''name''" "''''"] by (simp add: response_name_def)
  from sel_sub [OF this, of "''user''" "''''"]
  have "selects (find_fragment (Fragments demo_document)) (op_SelectionSet demo_operation) [''user'', ''name'']"
    by (simp add: demo_operation_def response_name_def)
  moreover have "demo_operation \<in> set (Operations demo_document)" by (simp add: demo_document_def)
  ultimately have "set [''user'', ''name''] \<inter> set introspection_fields = {}" using bs [of "hd bs"] by (meson hd_in_set)
  with s show ?thesis by blast
qed

end
