(* ===== verification/Lifecycle.thy ===== *)
theory Lifecycle
  imports Running_Server
begin

text \<open>
  \<open>main\<close> of \<open>cmd/server/main.go\<close> from the start to the end of the process: what listens where
  (with \<open>startAdminAPI\<close>), and the goroutines that decide when the process ends: the one of \<open>main\<close> in
  \<open>ListenAndServe\<close>, the one that registers for SIGINT and SIGTERM, waits for one and calls \<open>Shutdown\<close>, and
  the goroutines of the parser, whose panic nothing recovers. The documented behaviour of \<open>http.Server\<close> is part of the
  step function \<open>life\<close>: \<open>ListenAndServe\<close> first looks whether \<open>Shutdown\<close> has been called, then opens the port,
  which may fail, then accepts connections until the port is closed or fails; \<open>Shutdown\<close> sets its flag, closes the
  port, and waits for connections and requests for thirty seconds at most. Requests that were
  accepted are answered by the server of \<open>Running_Server\<close> in any order. The ports of the admin API and of the
  metrics are never shut down.
\<close>

section \<open>Listeners\<close>

abbreviation go_second :: duration where
  "go_second \<equiv> 1000000000"

text \<open>The fields of \<open>http.Server\<close> that the program sets; a timeout of 0 is none.\<close>

record http_server =
  Addr :: string
  ReadTimeout :: duration
  ReadHeaderTimeout :: duration
  WriteTimeout :: duration
  IdleTimeout :: duration

datatype transport = PlainHTTP | TLS string string

record listener =
  ls_server :: http_server
  ls_transport :: transport
  ls_patterns :: "string list"

definition tls_transport :: "flags \<Rightarrow> transport" where
  "tls_transport f = (if f_tls_cert f \<noteq> [] \<and> f_tls_key f \<noteq> [] then TLS (f_tls_cert f) (f_tls_key f) else PlainHTTP)"

definition startAdminAPI :: "string \<Rightarrow> listener" where
  "startAdminAPI addr =
     \<lparr>ls_server = \<lparr>Addr = addr, ReadTimeout = 10 * go_second, ReadHeaderTimeout = 5 * go_second,
                   WriteTimeout = 10 * go_second, IdleTimeout = 30 * go_second\<rparr>,
      ls_transport = PlainHTTP, ls_patterns = admin_patterns\<rparr>"

definition metrics_listener :: "flags \<Rightarrow> listener" where
  "metrics_listener f =
     \<lparr>ls_server = \<lparr>Addr = f_metrics_listen f, ReadTimeout = 0, ReadHeaderTimeout = 5 * go_second,
                   WriteTimeout = 0, IdleTimeout = 30 * go_second\<rparr>,
      ls_transport = tls_transport f, ls_patterns = [''/metrics'']\<rparr>"

definition main_listener :: "flags \<Rightarrow> server \<Rightarrow> listener" where
  "main_listener f srv =
     \<lparr>ls_server = \<lparr>Addr = f_listen f, ReadTimeout = 10 * go_second, ReadHeaderTimeout = 5 * go_second,
                   WriteTimeout = 10 * go_second, IdleTimeout = 30 * go_second\<rparr>,
      ls_transport = tls_transport f, ls_patterns = srv_patterns srv\<rparr>"

definition listeners :: "flags \<Rightarrow> server \<Rightarrow> listener list" where
  "listeners f srv =
     (if f_admin f \<noteq> [] then [startAdminAPI (f_admin f)] else []) @
     (if f_metrics_listen f \<noteq> [] then [metrics_listener f] else []) @ [main_listener f srv]"

section \<open>The process\<close>

text \<open>
  Where the goroutine of \<open>main\<close> stands: before \<open>ListenAndServe\<close> looks for a shutdown, opening the port (and reading
  the certificate), in the accept loop, after \<open>ListenAndServe\<close> has returned \<open>ErrServerClosed\<close>; or how the process ended:
  with an exit status, or by a signal that was not handled.
\<close>

datatype phase = Binding | Opening | Serving | Closed | Exited nat | Killed

text \<open>
  The goroutine that waits for a signal: not registered for it yet, registered, after the signal and before
  \<open>Shutdown\<close>, and in \<open>Shutdown\<close> with its deadline, before and after the port is closed.
\<close>

datatype shutdown = Unregistered | Waiting | Received | ShuttingDown instant | Draining instant | Shut

record process =
  pr_server :: server
  pr_phase :: phase
  pr_shutdown :: shutdown
  pr_now :: instant
  pr_conns :: nat
  pr_pending :: "arrival list"
  pr_answered :: "(arrival \<times> served) list"

definition main_program :: "'d outside \<Rightarrow> (nat \<Rightarrow> instant) \<Rightarrow> flags \<Rightarrow> fatal + process" where
  "main_program out clock f =
     (case startup out clock f of
        Inl e \<Rightarrow> Inl e
      | Inr srv \<Rightarrow> Inr \<lparr>pr_server = srv, pr_phase = Binding, pr_shutdown = Unregistered, pr_now = 0, pr_conns = 0,
                        pr_pending = [], pr_answered = []\<rparr>)"

datatype life_event =
    Opens
  | Listen
  | ListenFails
  | ListenReturns
  | MainReturns
  | Notified
  | Signalled
  | ShutdownCalled
  | PortClosed
  | ShutdownReturns
  | Connect
  | Disconnect
  | Accept arrival
  | Answer nat http_post
  | LatePanic nat string
  | Cleaned instant
  | Administered admin_env http_request
  | Pass nat

definition running :: "process \<Rightarrow> bool" where
  "running p \<longleftrightarrow> (case pr_phase p of Exited _ \<Rightarrow> False | Killed \<Rightarrow> False | _ \<Rightarrow> True)"

text \<open>The flag that \<open>Shutdown\<close> sets first.\<close>

fun in_shutdown :: "shutdown \<Rightarrow> bool" where
  "in_shutdown (ShuttingDown d) = True"
| "in_shutdown (Draining d) = True"
| "in_shutdown Shut = True"
| "in_shutdown _ = False"

fun port_closed :: "shutdown \<Rightarrow> bool" where
  "port_closed (Draining d) = True"
| "port_closed Shut = True"
| "port_closed _ = False"

text \<open>
  One event; \<open>None\<close> when it cannot happen. An open connection may carry any number of requests, also after
  the port has been closed. \<open>log.Fatalf\<close> ends the process with status 1 and without deferred calls, a panic
  that nothing recovers with status 2; a return of \<open>main\<close> runs \<open>rl.Stop()\<close> and ends it with status 0. A parser
  that the timer has left behind may still panic after the answer (\<open>LatePanic\<close>).
\<close>

fun life :: "field_lookup \<Rightarrow> life_event \<Rightarrow> process \<Rightarrow> process option" where
  "life ForName Opens p =
     (if pr_phase p = Binding \<and> \<not> in_shutdown (pr_shutdown p) then Some (p\<lparr>pr_phase := Opening\<rparr>) else None)"
| "life ForName Listen p =
     (if pr_phase p = Opening \<and> \<not> in_shutdown (pr_shutdown p) then Some (p\<lparr>pr_phase := Serving\<rparr>) else None)"
| "life ForName ListenFails p =
     (if pr_phase p = Opening \<or> pr_phase p = Serving \<and> \<not> in_shutdown (pr_shutdown p)
      then Some (p\<lparr>pr_phase := Exited 1\<rparr>) else None)"
| "life ForName ListenReturns p =
     (if pr_phase p \<in> {Binding, Opening, Serving} \<and> in_shutdown (pr_shutdown p) then Some (p\<lparr>pr_phase := Closed\<rparr>) else None)"
| "life ForName MainReturns p =
     (if pr_phase p \<noteq> Closed then None
      else case srv_limiter (pr_server p) of
        None \<Rightarrow> Some (p\<lparr>pr_phase := Exited 0\<rparr>)
      | Some l \<Rightarrow>
          (case Stop l of
             None \<Rightarrow> Some (p\<lparr>pr_phase := Exited 2\<rparr>)
           | Some l' \<Rightarrow> Some (p\<lparr>pr_server := (pr_server p)\<lparr>srv_limiter := Some l'\<rparr>, pr_phase := Exited 0\<rparr>)))"
| "life ForName Notified p =
     (if running p \<and> pr_shutdown p = Unregistered then Some (p\<lparr>pr_shutdown := Waiting\<rparr>) else None)"
| "life ForName Signalled p =
     (if \<not> running p then None
      else if pr_shutdown p = Unregistered then Some (p\<lparr>pr_phase := Killed\<rparr>)
      else if pr_shutdown p = Waiting then Some (p\<lparr>pr_shutdown := Received\<rparr>) else Some p)"
| "life ForName ShutdownCalled p =
     (if running p \<and> pr_shutdown p = Received then Some (p\<lparr>pr_shutdown := ShuttingDown (pr_now p + 30 * go_second)\<rparr>) else None)"
| "life ForName PortClosed p =
     (case pr_shutdown p of
        ShuttingDown deadline \<Rightarrow> if running p then Some (p\<lparr>pr_shutdown := Draining deadline\<rparr>) else None
      | _ \<Rightarrow> None)"
| "life ForName ShutdownReturns p =
     (case pr_shutdown p of
        Draining deadline \<Rightarrow>
          if running p \<and> pr_phase p \<noteq> Serving \<and> (pr_pending p = [] \<and> pr_conns p = 0 \<or> deadline \<le> pr_now p)
          then Some (p\<lparr>pr_shutdown := Shut\<rparr>) else None
      | _ \<Rightarrow> None)"
| "life ForName Connect p =
     (if pr_phase p = Serving \<and> \<not> port_closed (pr_shutdown p) then Some (p\<lparr>pr_conns := Suc (pr_conns p)\<rparr>) else None)"
| "life ForName Disconnect p =
     (if running p \<and> 0 < pr_conns p then Some (p\<lparr>pr_conns := pr_conns p - 1\<rparr>) else None)"
| "life ForName (Accept a) p =
     (if running p \<and> 0 < pr_conns p then Some (p\<lparr>pr_pending := pr_pending p @ [a]\<rparr>) else None)"
| "life ForName (Answer i Post) p =
     (if running p \<and> i < length (pr_pending p)
      then let a = pr_pending p ! i; (out, srv) = serve_main ForName Post a (pr_server p)
           in if out = Proxied (Some Crash) then Some (p\<lparr>pr_phase := Exited 2\<rparr>)
              else Some (p\<lparr>pr_server := srv, pr_pending := take i (pr_pending p) @ drop (Suc i) (pr_pending p),
                      pr_answered := pr_answered p @ [(a, out)]\<rparr>)
      else None)"
| "life ForName (LatePanic i query) p =
     (if running p \<and> i < length (pr_answered p)
      then let env = ar_env (fst (pr_answered p ! i))
           in if parse_panics env query \<and> parse_late env query (ParseTimeout (srv_handler (pr_server p)))
              then Some (p\<lparr>pr_phase := Exited 2\<rparr>) else None
      else None)"
| "life ForName (Cleaned now) p =
     (if running p
      then Some (p\<lparr>pr_server := (pr_server p)\<lparr>srv_limiter := map_option (\<lambda>l. cleanup_tick l now) (srv_limiter (pr_server p))\<rparr>\<rparr>)
      else None)"
| "life ForName (Administered env r) p =
     (case srv_admin (pr_server p) of
        None \<Rightarrow> None
      | Some token \<Rightarrow> if running p then Some (p\<lparr>pr_server := administer token env r (pr_server p)\<rparr>) else None)"
| "life ForName (Pass n) p = Some (p\<lparr>pr_now := pr_now p + int n\<rparr>)"

inductive lives :: "field_lookup \<Rightarrow> process \<Rightarrow> process \<Rightarrow> bool" for ForName p0 where
    born: "lives ForName p0 p0"
  | event: "lives ForName p0 p \<Longrightarrow> life ForName e p = Some p' \<Longrightarrow> lives ForName p0 p'"

fun run_life :: "field_lookup \<Rightarrow> life_event list \<Rightarrow> process \<Rightarrow> process option" where
  "run_life ForName [] p = Some p"
| "run_life ForName (e # es) p = Option.bind (life ForName e p) (run_life ForName es)"

lemma run_life_append: "run_life ForName (es @ fs) p = Option.bind (run_life ForName es p) (run_life ForName fs)"
proof (induction es arbitrary: p)
  case (Cons e es)
  then show ?case by (cases "life ForName e p") simp_all
qed simp

lemma lives_run: "lives ForName p0 p \<Longrightarrow> run_life ForName es p = Some p' \<Longrightarrow> lives ForName p0 p'"
  by (induction es arbitrary: p) (auto simp: bind_eq_Some_conv intro: event)

lemma lives_events: "lives ForName p0 p \<Longrightarrow> \<exists>es. run_life ForName es p0 = Some p"
proof (induction rule: lives.induct)
  case born
  show ?case by (intro exI [of _ "[]"]) simp
next
  case (event p e p')
  then obtain es where "run_life ForName es p0 = Some p" by blast
  with event show ?case by (intro exI [of _ "es @ [e]"]) (simp add: run_life_append)
qed

section \<open>The limiter is stopped once\<close>

definition unstopped :: "server \<Rightarrow> bool" where
  "unstopped srv \<longleftrightarrow> (case srv_limiter srv of None \<Rightarrow> True | Some l \<Rightarrow> \<not> stopped l)"

lemma stopped_frame [simp]: "stopped (snd (Allow l k t1 t2)) = stopped l" "stopped (cleanup_tick l now) = stopped l"
  by (simp_all add: Allow_def cleanup_tick_def Let_def)

lemma startup_unstopped: "startup out clock f = Inr srv \<Longrightarrow> unstopped srv"
  by (auto simp: startup_def Let_def unstopped_def build_limiter_def New_limiter_def
      split: option.splits sum.splits prod.splits if_splits)

lemma serve_main_unstopped: "unstopped srv \<Longrightarrow> unstopped (snd (serve_main ForName Post a srv))"
  by (auto simp: serve_main_def rateLimitMiddleware_def unstopped_def Let_def case_prod_beta
      split: route.split option.split sum.split prod.split if_split)

lemma reachable_unstopped: "server_reachable ForName srv0 srv \<Longrightarrow> unstopped srv0 \<Longrightarrow> unstopped srv"
proof (induction rule: server_reachable.induct)
  case (cleaned srv now)
  then show ?case by (auto simp: unstopped_def split: option.splits)
next
  case (administered srv token env r)
  then show ?case by (simp add: unstopped_def administer_def Let_def)
qed (simp_all add: serve_main_unstopped)

section \<open>Invariants of a run\<close>

lemma serve_main_crash:
  assumes "fst (serve_main ForName Post a srv) = Proxied (Some Crash)"
  shows "\<exists>q. parse_panics (ar_env a) q"
  using serve_main_proxied [OF assms] ServeHTTP_crash serve_crash by metis

text \<open>How a process that ended came to its end, given the events so far.\<close>

definition panicked :: "life_event list \<Rightarrow> bool" where
  "panicked es \<longleftrightarrow> (\<exists>a q. Accept a \<in> set es \<and> parse_panics (ar_env a) q)"

definition ended_ok :: "life_event list \<Rightarrow> process \<Rightarrow> bool" where
  "ended_ok es p \<longleftrightarrow>
     (case pr_phase p of
        Closed \<Rightarrow> in_shutdown (pr_shutdown p)
      | Exited n \<Rightarrow> n = 0 \<and> in_shutdown (pr_shutdown p) \<or> n = 1 \<and> ListenFails \<in> set es \<or> n = 2 \<and> panicked es
      | Killed \<Rightarrow> pr_shutdown p = Unregistered \<and> Signalled \<in> set es
      | _ \<Rightarrow> True)"

definition shutdown_ok :: "life_event list \<Rightarrow> process \<Rightarrow> bool" where
  "shutdown_ok es p \<longleftrightarrow>
     (pr_shutdown p \<notin> {Unregistered, Waiting} \<longrightarrow> Signalled \<in> set es) \<and>
     (in_shutdown (pr_shutdown p) \<longrightarrow> ShutdownCalled \<in> set es)"

definition answers_ok :: "field_lookup \<Rightarrow> server \<Rightarrow> life_event list \<Rightarrow> process \<Rightarrow> bool" where
  "answers_ok ForName srv0 es p \<longleftrightarrow>
     (running p \<longrightarrow> server_reachable ForName srv0 (pr_server p)) \<and>
     (\<forall>a \<in> set (pr_pending p). Accept a \<in> set es) \<and>
     (\<forall>(a, out) \<in> set (pr_answered p). Accept a \<in> set es \<and> out \<noteq> Proxied (Some Crash) \<and>
        (\<exists>srv Post. server_reachable ForName srv0 srv \<and> fst (serve_main ForName Post a srv) = out))"

definition life_ok :: "field_lookup \<Rightarrow> server \<Rightarrow> life_event list \<Rightarrow> process \<Rightarrow> bool" where
  "life_ok ForName srv0 es p \<longleftrightarrow> answers_ok ForName srv0 es p \<and> shutdown_ok es p \<and> ended_ok es p"

lemmas life_ok_defs = life_ok_def answers_ok_def shutdown_ok_def ended_ok_def panicked_def

lemma running_simps [simp]:
  "running (p\<lparr>pr_server := s\<rparr>) = running p" "running (p\<lparr>pr_shutdown := x\<rparr>) = running p" "running (p\<lparr>pr_now := n\<rparr>) = running p"
  "running (p\<lparr>pr_pending := q\<rparr>) = running p" "running (p\<lparr>pr_answered := w\<rparr>) = running p" "running (p\<lparr>pr_conns := c\<rparr>) = running p"
  by (simp_all add: running_def)

lemma answer_cases:
  assumes "life ForName (Answer i Post) p = Some p'"
  obtains a out srv where "running p" "i < length (pr_pending p)" "a = pr_pending p ! i"
    "serve_main ForName Post a (pr_server p) = (out, srv)"
    "p' = (if out = Proxied (Some Crash) then p\<lparr>pr_phase := Exited 2\<rparr>
       else p\<lparr>pr_server := srv, pr_pending := take i (pr_pending p) @ drop (Suc i) (pr_pending p), pr_answered := pr_answered p @ [(a, out)]\<rparr>)"
  using assms that by (cases "serve_main ForName Post (pr_pending p ! i) (pr_server p)") (auto simp: Let_def split: if_splits)

lemma answer_preserves:
  assumes e: "life ForName (Answer i Post) p = Some p'" and ok: "life_ok ForName srv0 es p"
  shows "life_ok ForName srv0 (es @ [Answer i Post]) p'"
  using e
proof (cases rule: answer_cases)
  case (1 a out srv)
  have a: "Accept a \<in> set es" and r: "server_reachable ForName srv0 (pr_server p)"
    using ok 1(1-3) by (auto simp: life_ok_defs)
  have out: "fst (serve_main ForName Post a (pr_server p)) = out" "snd (serve_main ForName Post a (pr_server p)) = srv"
    using 1(4) by simp_all
  show ?thesis
  proof (cases "out = Proxied (Some Crash)")
    case True
    then have "panicked es" using serve_main_crash [of ForName Post a "pr_server p"] a out by (auto simp: panicked_def)
    with True ok 1(5) show ?thesis by (auto simp: life_ok_defs running_def)
  next
    case False
    have "server_reachable ForName srv0 srv" using served [OF r, of Post a] out by simp
    moreover have "set (take i (pr_pending p) @ drop (Suc i) (pr_pending p)) \<subseteq> set (pr_pending p)"
      by (auto dest: in_set_takeD in_set_dropD)
    moreover have "running p' \<longleftrightarrow> running p" using 1(5) False by simp
    ultimately show ?thesis
      using False ok 1(1,5) a r out unfolding life_ok_defs by (auto split: phase.splits)
  qed
qed

text \<open>The other events leave the answers alone.\<close>

fun is_answer :: "life_event \<Rightarrow> bool" where
  "is_answer (Answer i Post) \<longleftrightarrow> True"
| "is_answer _ \<longleftrightarrow> False"

lemma life_frame:
  assumes "life ForName e p = Some p'" and "\<not> is_answer e"
  shows "pr_answered p' = pr_answered p"
    and "set (pr_pending p') \<subseteq> set (pr_pending p) \<union> {a. e = Accept a}"
    and "running p' \<Longrightarrow> running p"
    and "running p' \<Longrightarrow> server_reachable ForName srv0 (pr_server p) \<Longrightarrow> server_reachable ForName srv0 (pr_server p')"
proof -
  show "pr_answered p' = pr_answered p" "set (pr_pending p') \<subseteq> set (pr_pending p) \<union> {a. e = Accept a}"
    using assms by (cases e; auto simp: Let_def split: if_splits option.splits shutdown.splits)+
  show "running p' \<Longrightarrow> running p"
    using assms by (cases e) (auto simp: running_def Let_def split: if_splits option.splits shutdown.splits)
  show "running p' \<Longrightarrow> server_reachable ForName srv0 (pr_server p) \<Longrightarrow> server_reachable ForName srv0 (pr_server p')"
    using assms
    by (cases e) (auto simp: running_def Let_def split: if_splits option.splits shutdown.splits intro: cleaned administered)
qed

lemma life_shutdown:
  assumes "life ForName e p = Some p'" and "shutdown_ok es p"
  shows "shutdown_ok (es @ [e]) p'"
  using assms
  by (cases e) (auto simp: shutdown_ok_def Let_def case_prod_beta split: if_splits option.splits shutdown.splits)

lemma life_ended:
  assumes "life ForName e p = Some p'" and "ended_ok es p" and "\<not> is_answer e"
    and "\<And>i q. e = LatePanic i q \<Longrightarrow> panicked es" and "e = MainReturns \<Longrightarrow> unstopped (pr_server p)"
  shows "ended_ok (es @ [e]) p'"
proof -
  have grow: "panicked es \<Longrightarrow> panicked (es @ [e])" by (auto simp: panicked_def)
  show ?thesis
    using assms grow
    by (cases e; cases "pr_phase p")
      (auto simp: ended_ok_def running_def unstopped_def Stop_def Let_def split: if_splits option.splits shutdown.splits)
qed

lemma life_preserves:
  assumes e: "life ForName e p = Some p'" and ok: "life_ok ForName srv0 es p" and "unstopped srv0"
  shows "life_ok ForName srv0 (es @ [e]) p'"
proof (cases "is_answer e")
  case True
  then show ?thesis using answer_preserves ok e by (cases e) auto
next
  case False
  note frame = life_frame [OF e False]
  have p: "answers_ok ForName srv0 es p" "shutdown_ok es p" "ended_ok es p" using ok by (simp_all add: life_ok_def)
  have "panicked es" if "e = LatePanic i query" for i query
  proof -
    have i: "i < length (pr_answered p)" "parse_panics (ar_env (fst (pr_answered p ! i))) query"
      using e that by (auto simp: Let_def split: if_splits)
    then have "pr_answered p ! i \<in> set (pr_answered p)" by simp
    then have "Accept (fst (pr_answered p ! i)) \<in> set es" using p(1) by (auto simp: answers_ok_def)
    then show ?thesis using i(2) by (auto simp: panicked_def)
  qed
  moreover have "unstopped (pr_server p)" if "e = MainReturns"
  proof -
    have "running p" using e that by (auto simp: running_def split: if_splits)
    then show ?thesis using p(1) assms(3) reachable_unstopped by (auto simp: answers_ok_def)
  qed
  ultimately have "ended_ok (es @ [e]) p'" using life_ended [OF e p(3) False] by blast
  moreover have "answers_ok ForName srv0 (es @ [e]) p'"
    using p(1) frame unfolding answers_ok_def by auto
  ultimately show ?thesis using life_shutdown [OF e p(2)] by (simp add: life_ok_def)
qed

lemma run_life_ok:
  assumes "main_program out clock f = Inr p0" and "startup out clock f = Inr srv0" and "run_life ForName es p0 = Some p"
  shows "life_ok ForName srv0 es p"
  using assms(3)
proof (induction es arbitrary: p rule: rev_induct)
  case Nil
  then show ?case using assms(1,2) by (auto simp: main_program_def life_ok_defs intro: started)
next
  case (snoc e es)
  then obtain q where "run_life ForName es p0 = Some q" "life ForName e q = Some p"
    by (auto simp: run_life_append bind_eq_Some_conv)
  with snoc.IH life_preserves startup_unstopped [OF assms(2)] show ?case by blast
qed

section \<open>Properties\<close>


definition demo_process :: process where
  "demo_process = \<lparr>pr_server = demo_server, pr_phase = Binding, pr_shutdown = Unregistered, pr_now = 0, pr_conns = 0,
     pr_pending = [], pr_answered = []\<rparr>"

lemma demo_program: "main_program demo_outside int demo_flags = Inr demo_process"
  by (simp add: main_program_def demo_startup demo_process_def)

lemma main_returns:
  assumes "pr_phase p = Closed"
  obtains p' n where "life ForName MainReturns p = Some p'" and "pr_phase p' = Exited n" and "pr_shutdown p' = pr_shutdown p"
    and "pr_pending p' = pr_pending p" and "pr_answered p' = pr_answered p"
proof -
  have "\<exists>p' n. life ForName MainReturns p = Some p' \<and> pr_phase p' = Exited n \<and> pr_shutdown p' = pr_shutdown p \<and>
      pr_pending p' = pr_pending p \<and> pr_answered p' = pr_answered p"
    using assms by (simp split: option.split)
  then show thesis using that by blast
qed


text \<open>The steps that the goroutine of the signal and the one of \<open>main\<close> still have to make.\<close>

fun signal_steps_left :: "shutdown \<Rightarrow> nat" where
  "signal_steps_left Received = 2"
| "signal_steps_left (ShuttingDown d) = 1"
| "signal_steps_left _ = 0"

fun main_steps_left :: "phase \<Rightarrow> nat" where
  "main_steps_left Binding = 4"
| "main_steps_left Opening = 3"
| "main_steps_left Serving = 2"
| "main_steps_left Closed = 1"
| "main_steps_left _ = 0"

definition closing_left :: "process \<Rightarrow> nat" where
  "closing_left p = signal_steps_left (pr_shutdown p) + main_steps_left (pr_phase p)"

definition closing_step :: "life_event \<Rightarrow> bool" where
  "closing_step e \<longleftrightarrow> (case e of Opens \<Rightarrow> True | Listen \<Rightarrow> True | ListenFails \<Rightarrow> True | ListenReturns \<Rightarrow> True | MainReturns \<Rightarrow> True
     | ShutdownCalled \<Rightarrow> True | PortClosed \<Rightarrow> True | _ \<Rightarrow> False)"

definition signalled :: "process \<Rightarrow> bool" where
  "signalled p \<longleftrightarrow> pr_shutdown p \<notin> {Unregistered, Waiting}"

lemma life_after_signal:
  assumes "life ForName e p = Some p'" and "signalled p"
  shows "signalled p' \<and> (if closing_step e then Suc (closing_left p') \<le> closing_left p else closing_left p' \<le> closing_left p)"
  using assms
  by (cases e) (auto simp: closing_step_def closing_left_def signalled_def running_def Let_def case_prod_beta
      split: if_splits option.splits shutdown.splits phase.splits)

lemma run_after_signal:
  "run_life ForName es p = Some p' \<Longrightarrow> signalled p \<Longrightarrow>
   signalled p' \<and> closing_left p' + length (filter closing_step es) \<le> closing_left p"
proof (induction es arbitrary: p)
  case (Cons e es)
  then obtain q where q: "life ForName e p = Some q" "run_life ForName es q = Some p'" by (auto simp: bind_eq_Some_conv)
  from Cons.IH [OF q(2)] life_after_signal [OF q(1) Cons.prems(2)] show ?case by (auto split: if_splits)
qed simp

lemma closing_left_bound: "closing_left p \<le> 6"
proof -
  have "signal_steps_left s \<le> 2" for s by (cases s) auto
  moreover have "main_steps_left x \<le> 4" for x by (cases x) auto
  ultimately show ?thesis unfolding closing_left_def using add_mono [of _ 2 _ 4] by fastforce
qed

lemma closing_progress:
  assumes "running p" and "signalled p"
  shows "\<exists>e p'. closing_step e \<and> life ForName e p = Some p'"
proof (cases "in_shutdown (pr_shutdown p)")
  case True
  show ?thesis
  proof (cases "pr_phase p = Closed")
    case closed: True
    then obtain p' where "life ForName MainReturns p = Some p'" using main_returns by metis
    then show ?thesis by (intro exI [of _ MainReturns]) (simp add: closing_step_def)
  next
    case False
    then have "pr_phase p \<in> {Binding, Opening, Serving}" using assms(1) by (cases "pr_phase p") (simp_all add: running_def)
    with True show ?thesis by (intro exI [of _ ListenReturns]) (simp add: closing_step_def)
  qed
next
  case False
  then have "pr_shutdown p = Received" using assms(2) by (cases "pr_shutdown p") (simp_all add: signalled_def)
  with assms(1) show ?thesis by (intro exI [of _ ShutdownCalled]) (simp add: closing_step_def)
qed



text \<open>
  C37: the shutdown is not graceful. \<open>ListenAndServe\<close> returns as soon as \<open>Shutdown\<close> is called, and
  \<open>main\<close> does not wait for \<open>Shutdown\<close>: whatever requests are being served when the signal arrives, the process
  can end at once with status 0, and none of them is ever answered.
\<close>

theorem shutdown_drops_pending:
  assumes "main_program out clock f = Inr p0" and "lives ForName p0 p" and "pr_phase p = Serving" and "pr_shutdown p = Waiting"
  shows "\<exists>p'. run_life ForName [Signalled, ShutdownCalled, PortClosed, ListenReturns, MainReturns] p = Some p' \<and>
    pr_phase p' = Exited 0 \<and> pr_pending p' = pr_pending p \<and> pr_answered p' = pr_answered p \<and>
    (\<forall>es q. run_life ForName es p' = Some q \<longrightarrow> pr_answered q = pr_answered p)"
proof -
  have stuck: "pr_answered q = pr_answered x" if "run_life ForName es x = Some q" "pr_phase x = Exited 0" for es x q
    using that
  proof (induction es arbitrary: x)
    case (Cons e es)
    then obtain y where y: "life ForName e x = Some y" "run_life ForName es y = Some q" by (auto simp: bind_eq_Some_conv)
    have "pr_phase y = Exited 0 \<and> pr_answered y = pr_answered x"
      using y(1) Cons.prems(2) by (cases e) (auto simp: running_def split: if_splits option.splits shutdown.splits)
    with Cons.IH [OF y(2)] show ?case by simp
  qed simp
  let ?c = "p\<lparr>pr_shutdown := Draining (pr_now p + 30 * go_second), pr_phase := Closed\<rparr>"
  let ?fs = "[Signalled, ShutdownCalled, PortClosed, ListenReturns, MainReturns]"
  obtain p' n where m: "life ForName MainReturns ?c = Some p'" "pr_phase p' = Exited n" "pr_shutdown p' = pr_shutdown ?c"
    and same: "pr_pending p' = pr_pending p" "pr_answered p' = pr_answered p"
    using main_returns [of ?c ForName] by auto
  have r: "run_life ForName ?fs p = Some p'"
    using assms(3,4) m(1) by (simp add: running_def del: life.simps(5))
  obtain srv0 where s: "startup out clock f = Inr srv0"
    using assms(1) by (auto simp: main_program_def split: sum.splits)
  obtain es where es: "run_life ForName es p0 = Some p" using lives_events [OF assms(2)] by blast
  have reach: "server_reachable ForName srv0 (pr_server p)"
    using run_life_ok [OF assms(1) s es] assms(3) by (simp add: life_ok_defs running_def)
  then have "unstopped (pr_server ?c)" using reachable_unstopped startup_unstopped [OF s] by simp
  then have "pr_phase p' = Exited 0" using m(1) by (auto simp: unstopped_def Stop_def split: option.splits if_splits)
  with r same stuck show ?thesis by metis
qed

theorem shutdown_drops_pending_witness:
  "\<exists>p p'. run_life find_field [Notified, Opens, Listen, Connect, Accept (demo_arrival (post_request ''a'' demo_body) 0)] demo_process = Some p \<and>
     run_life find_field [Signalled, ShutdownCalled, PortClosed, ListenReturns, MainReturns] p = Some p' \<and>
     pr_pending p' = [demo_arrival (post_request ''a'' demo_body) 0] \<and> pr_answered p' = []"
proof -
  let ?es = "[Notified, Opens, Listen, Connect, Accept (demo_arrival (post_request ''a'' demo_body) 0)]"
  obtain p where r: "run_life find_field ?es demo_process = Some p" and p: "pr_phase p = Serving" "pr_shutdown p = Waiting"
    "pr_pending p = [demo_arrival (post_request ''a'' demo_body) 0]" "pr_answered p = []"
    by (simp add: demo_process_def running_def)
  from shutdown_drops_pending [OF demo_program lives_run [OF born r] p(1,2)] show ?thesis
    using r p(3,4) by (auto simp del: run_life.simps)
qed

end
