(* ===== verification/Concurrent_Evaluation.thy ===== *)
theory Concurrent_Evaluation
  imports Composite_Evaluator
begin

text \<open>
  Concurrent calls of the composite evaluator. The HTTP server runs every request in a goroutine of its
  own, and \<open>Evaluate\<close> holds the lock of the cache only while it looks a decision up and while it
  stores one; \<open>BuildInput\<close> takes the lock of the data store twice. An evaluation in progress is
  therefore a value that says where it stands, each critical section is one step on the shared
  state, and a run is any sequence of steps of any evaluations, of updates of the stores and of
  movements of the clock. The configuration is read under the lock too, but nothing writes it.

  The record \<open>log\<close> is auxiliary: it keeps what happened in a run, so that the invariant can say what
  an answer rests on. The contract \<open>ttl_cache\<close> of the decision cache carries the proof.
\<close>

section \<open>Evaluations in progress\<close>

record shared =
  sh_eval :: compositeEvaluator
  sh_heap :: "nat \<Rightarrow> DataStore"
  sh_metrics :: Metrics
  sh_now :: instant

text \<open>Where a goroutine stands in \<open>Evaluate\<close>, with its local variables.\<close>

datatype evaluation =
    Entered QueryInfo
  | Reading QueryInfo Input
  | Looking QueryInfo Input
  | Asking QueryInfo Input
  | Keeping QueryInfo Result
  | Answered QueryInfo Result

definition live_store :: "shared \<Rightarrow> DataStore option" where
  "live_store sh = map_option (sh_heap sh) (opaStore (sh_eval sh))"

text \<open>\<open>BuildInput\<close> takes the lock of the store twice, for the parameters and for the tenant.\<close>

definition read_params :: "QueryInfo \<Rightarrow> DataStore option \<Rightarrow> Input" where
  "read_params info st = (BuildInput info st)\<lparr>in_TenantConfig := None\<rparr>"

definition read_tenant :: "QueryInfo \<Rightarrow> DataStore option \<Rightarrow> Input \<Rightarrow> Input" where
  "read_tenant info st i =
     (case st of
        None \<Rightarrow> i
      | Some s \<Rightarrow> if TenantID info \<noteq> [] then i\<lparr>in_TenantConfig := GetTenant s (TenantID info)\<rparr> else i)"

fun advance :: "field_lookup \<Rightarrow> http_post \<Rightarrow> evaluation \<Rightarrow> shared \<Rightarrow> evaluation \<times> shared" where
  "advance ForName Post (Entered info) sh =
     (case schema (sh_eval sh) of
        None \<Rightarrow> (Reading info (read_params info (live_store sh)), sh)
      | Some s \<Rightarrow>
          (let (allowed, reason) = Validate ForName s info in
           if \<not> allowed
           then (Answered info \<lparr>Allowed = False, Reason = reason\<rparr>, sh\<lparr>sh_metrics := RecordBlock reason (sh_metrics sh)\<rparr>)
           else (Reading info (read_params info (live_store sh)), sh)))"
| "advance ForName Post (Reading info i) sh = (Looking info (read_tenant info (live_store sh) i), sh)"
| "advance ForName Post (Looking info i) sh =
     (case cache_lookup (sh_eval sh) (decisionCacheKey info) (sh_now sh) of
        Some d \<Rightarrow>
          (let (r, m) = serve_cached (opaAuditOnly (sh_eval sh)) (result d) (sh_metrics sh)
           in (Answered info r, sh\<lparr>sh_metrics := m\<rparr>))
      | None \<Rightarrow> (Asking info i, sh))"
| "advance ForName Post (Asking info i) sh =
     (case opa_Evaluate Post (opa (sh_eval sh)) i of
        Inl err \<Rightarrow>
          (Answered info (if opaFailClosed (sh_eval sh) then unavailable_result else allow_result),
           sh\<lparr>sh_metrics := RecordOPA ''error'' (sh_metrics sh)\<rparr>)
      | Inr r0 \<Rightarrow>
          (let (r, m) = judge (opaAuditOnly (sh_eval sh)) r0 (RecordOPA ''evaluated'' (sh_metrics sh))
           in (Keeping info r, sh\<lparr>sh_metrics := m\<rparr>)))"
| "advance ForName Post (Keeping info r) sh =
     (Answered info r, sh\<lparr>sh_eval := cache_store (decisionCacheKey info) r (sh_now sh) (sh_eval sh)\<rparr>)"
| "advance ForName Post (Answered info r) sh = (Answered info r, sh)"

section \<open>Schedules\<close>

record system =
  sy_shared :: shared
  sy_evals :: "evaluation list"

datatype action = Arrive QueryInfo | Step nat http_post | SetStores "nat \<Rightarrow> DataStore" | Tick nat

fun act :: "field_lookup \<Rightarrow> action \<Rightarrow> system \<Rightarrow> system" where
  "act ForName (Arrive info) s = s\<lparr>sy_evals := sy_evals s @ [Entered info]\<rparr>"
| "act ForName (Step i Post) s =
     (if i < length (sy_evals s)
      then let (e, sh) = advance ForName Post (sy_evals s ! i) (sy_shared s)
           in s\<lparr>sy_shared := sh, sy_evals := (sy_evals s)[i := e]\<rparr>
      else s)"
| "act ForName (SetStores heap) s = s\<lparr>sy_shared := (sy_shared s)\<lparr>sh_heap := heap\<rparr>\<rparr>"
| "act ForName (Tick n) s = s\<lparr>sy_shared := (sy_shared s)\<lparr>sh_now := sh_now (sy_shared s) + int n\<rparr>\<rparr>"

fun run_system :: "field_lookup \<Rightarrow> action list \<Rightarrow> system \<Rightarrow> system" where
  "run_system ForName [] s = s"
| "run_system ForName (a # as) s = run_system ForName as (act ForName a s)"

section \<open>Alone, an evaluation is Evaluate\<close>

lemma read_both: "read_tenant info st (read_params info st) = BuildInput info st"
  by (simp add: read_tenant_def read_params_def BuildInput_def split: option.split)

lemma run_append: "run_system ForName (as @ bs) s = run_system ForName bs (run_system ForName as s)"
  by (induction as arbitrary: s) auto

definition advances :: "field_lookup \<Rightarrow> http_post \<Rightarrow> nat \<Rightarrow> nat \<Rightarrow> evaluation \<times> shared \<Rightarrow> evaluation \<times> shared" where
  "advances ForName Post d1 d2 es =
    (let adv = (\<lambda>(e, sh). advance ForName Post e sh);
         wait = (\<lambda>d (e, sh). (e :: evaluation, sh\<lparr>sh_now := sh_now sh + int d\<rparr>))
     in adv (wait d2 (adv (adv (wait d1 (adv (adv es)))))))"

lemma Evaluate_alone:
  "\<exists>c m r. Evaluate ForName Post (live_store sh) (sh_now sh + int d1) (sh_now sh + int d1 + int d2) info (sh_eval sh) (sh_metrics sh) = (r, c, m) \<and>
   advances ForName Post d1 d2 (Entered info, sh) =
     (Answered info r, sh\<lparr>sh_eval := c, sh_metrics := m, sh_now := sh_now sh + int d1 + int d2\<rparr>)"
  by (auto simp: advances_def Let_def Evaluate_def Evaluate_policy_def case_prod_beta read_both live_store_def
      split: option.split sum.split)

section \<open>Every evaluation gets its answer\<close>

fun steps_left :: "evaluation \<Rightarrow> nat" where
  "steps_left (Entered info) = 5"
| "steps_left (Reading info i) = 4"
| "steps_left (Looking info i) = 3"
| "steps_left (Asking info i) = 2"
| "steps_left (Keeping info r) = 1"
| "steps_left (Answered info r) = 0"

fun query_of :: "evaluation \<Rightarrow> QueryInfo" where
  "query_of (Entered info) = info"
| "query_of (Reading info i) = info"
| "query_of (Looking info i) = info"
| "query_of (Asking info i) = info"
| "query_of (Keeping info r) = info"
| "query_of (Answered info r) = info"

fun is_step_of :: "nat \<Rightarrow> action \<Rightarrow> bool" where
  "is_step_of i (Step j Post) \<longleftrightarrow> j = i"
| "is_step_of i _ \<longleftrightarrow> False"

lemma advance_progress:
  "steps_left (fst (advance ForName Post e sh)) \<le> steps_left e - 1 \<and> query_of (fst (advance ForName Post e sh)) = query_of e"
  by (cases e) (auto simp: Let_def case_prod_beta split: option.split sum.split)

lemma steps_left_0: "steps_left e = 0 \<Longrightarrow> \<exists>r. e = Answered (query_of e) r"
  by (cases e) auto

lemma act_other:
  "i < length (sy_evals s) \<Longrightarrow> \<not> is_step_of i a \<Longrightarrow>
   sy_evals (act ForName a s) ! i = sy_evals s ! i \<and> i < length (sy_evals (act ForName a s))"
  by (cases a) (auto simp: nth_append Let_def case_prod_beta)

lemma act_own:
  "i < length (sy_evals s) \<Longrightarrow> is_step_of i a \<Longrightarrow>
   (\<exists>Post. sy_evals (act ForName a s) ! i = fst (advance ForName Post (sy_evals s ! i) (sy_shared s))) \<and>
   i < length (sy_evals (act ForName a s))"
  by (cases a) (auto simp: Let_def case_prod_beta)

lemma run_progress:
  "i < length (sy_evals s) \<Longrightarrow>
   steps_left (sy_evals (run_system ForName as s) ! i) \<le> steps_left (sy_evals s ! i) - length (filter (is_step_of i) as) \<and>
   query_of (sy_evals (run_system ForName as s) ! i) = query_of (sy_evals s ! i)"
proof (induction as arbitrary: s)
  case (Cons a as)
  show ?case
  proof (cases "is_step_of i a")
    case True
    with Cons.prems obtain Post where
      own: "sy_evals (act ForName a s) ! i = fst (advance ForName Post (sy_evals s ! i) (sy_shared s))"
      and "i < length (sy_evals (act ForName a s))"
      using act_own by blast
    then show ?thesis
      using Cons.IH [of "act ForName a s"] advance_progress [of ForName Post "sy_evals s ! i" "sy_shared s"] True
      by (auto simp: own)
  next
    case False
    then show ?thesis using Cons.IH [of "act ForName a s"] act_other [OF Cons.prems False, of ForName] by simp
  qed
qed simp

section \<open>What the answers rest on\<close>

text \<open>A record of a run: the stores it saw, the questions to the policy, the writes and the hits of the cache.\<close>

record log =
  lg_heaps :: "(nat \<Rightarrow> DataStore) set"
  lg_asked :: "(QueryInfo \<times> Input \<times> http_post) set"
  lg_kept :: "(string \<times> Result \<times> instant) set"
  lg_hits :: "(string \<times> Result \<times> instant) set"

definition note_step :: "evaluation \<Rightarrow> http_post \<Rightarrow> shared \<Rightarrow> log \<Rightarrow> log" where
  "note_step e Post sh l =
     (case e of
        Asking info i \<Rightarrow> l\<lparr>lg_asked := insert (info, i, Post) (lg_asked l)\<rparr>
      | Keeping info r \<Rightarrow> l\<lparr>lg_kept := insert (decisionCacheKey info, r, sh_now sh) (lg_kept l)\<rparr>
      | Looking info i \<Rightarrow>
          (case cache_lookup (sh_eval sh) (decisionCacheKey info) (sh_now sh) of
             Some d \<Rightarrow> l\<lparr>lg_hits := insert (decisionCacheKey info, result d, sh_now sh) (lg_hits l)\<rparr>
           | None \<Rightarrow> l)
      | _ \<Rightarrow> l)"

fun note_action :: "system \<Rightarrow> action \<Rightarrow> log \<Rightarrow> log" where
  "note_action s (Step i Post) l =
     (if i < length (sy_evals s) then note_step (sy_evals s ! i) Post (sy_shared s) l else l)"
| "note_action s (SetStores heap) l = l\<lparr>lg_heaps := insert heap (lg_heaps l)\<rparr>"
| "note_action s _ l = l"

inductive reaches :: "field_lookup \<Rightarrow> system \<Rightarrow> system \<Rightarrow> log \<Rightarrow> bool" for ForName s0 where
    begins: "reaches ForName s0 s0 \<lparr>lg_heaps = {sh_heap (sy_shared s0)}, lg_asked = {}, lg_kept = {}, lg_hits = {}\<rparr>"
  | acts: "reaches ForName s0 s l \<Longrightarrow> reaches ForName s0 (act ForName a s) (note_action s a l)"

text \<open>The policy answered a question about \<open>q\<close>, and this is its answer with audit mode applied.\<close>

definition policy_said :: "compositeEvaluator \<Rightarrow> log \<Rightarrow> QueryInfo \<Rightarrow> Result \<Rightarrow> bool" where
  "policy_said c l q r \<longleftrightarrow>
     (\<exists>i Post r0. (q, i, Post) \<in> lg_asked l \<and> opa_Evaluate Post (opa c) i = Inr r0 \<and> r = effective (opaAuditOnly c) r0)"

definition policy_silent :: "compositeEvaluator \<Rightarrow> log \<Rightarrow> QueryInfo \<Rightarrow> bool" where
  "policy_silent c l q \<longleftrightarrow> (\<exists>i Post err. (q, i, Post) \<in> lg_asked l \<and> opa_Evaluate Post (opa c) i = Inl err)"

definition from_cache :: "compositeEvaluator \<Rightarrow> log \<Rightarrow> string \<Rightarrow> Result \<Rightarrow> bool" where
  "from_cache c l k r \<longleftrightarrow>
     (\<exists>t t' q. (k, r, t) \<in> lg_hits l \<and> (k, r, t') \<in> lg_kept l \<and> t' \<le> t \<and> t < t' + cacheTTL c \<and>
        decisionCacheKey q = k \<and> policy_said c l q r)"

definition accounted_for :: "field_lookup \<Rightarrow> compositeEvaluator \<Rightarrow> log \<Rightarrow> QueryInfo \<Rightarrow> Result \<Rightarrow> bool" where
  "accounted_for ForName c l info r \<longleftrightarrow>
     (case schema_refusal ForName c info of
        Some reason \<Rightarrow> r = \<lparr>Allowed = False, Reason = reason\<rparr>
      | None \<Rightarrow>
          policy_said c l info r \<or> from_cache c l (decisionCacheKey info) r \<or>
          policy_silent c l info \<and> r = (if opaFailClosed c then unavailable_result else allow_result))"

definition built_from :: "compositeEvaluator \<Rightarrow> log \<Rightarrow> QueryInfo \<Rightarrow> Input \<Rightarrow> bool" where
  "built_from c l info i \<longleftrightarrow>
     (\<exists>h1 \<in> lg_heaps l. \<exists>h2 \<in> lg_heaps l.
        i = read_tenant info (map_option h2 (opaStore c)) (read_params info (map_option h1 (opaStore c))))"

fun eval_ok :: "field_lookup \<Rightarrow> compositeEvaluator \<Rightarrow> log \<Rightarrow> evaluation \<Rightarrow> bool" where
  "eval_ok ForName c l (Entered info) \<longleftrightarrow> True"
| "eval_ok ForName c l (Reading info i) \<longleftrightarrow> schema_refusal ForName c info = None \<and>
     (\<exists>h \<in> lg_heaps l. i = read_params info (map_option h (opaStore c)))"
| "eval_ok ForName c l (Looking info i) \<longleftrightarrow> schema_refusal ForName c info = None \<and> built_from c l info i"
| "eval_ok ForName c l (Asking info i) \<longleftrightarrow> schema_refusal ForName c info = None \<and> built_from c l info i"
| "eval_ok ForName c l (Keeping info r) \<longleftrightarrow> schema_refusal ForName c info = None \<and> policy_said c l info r"
| "eval_ok ForName c l (Answered info r) \<longleftrightarrow> accounted_for ForName c l info r"

definition log_ok :: "field_lookup \<Rightarrow> compositeEvaluator \<Rightarrow> instant \<Rightarrow> log \<Rightarrow> bool" where
  "log_ok ForName c now l \<longleftrightarrow>
     (\<forall>(q, i, Post) \<in> lg_asked l. schema_refusal ForName c q = None \<and> built_from c l q i) \<and>
     (\<forall>(k, r, t) \<in> lg_kept l. t \<le> now \<and> (\<exists>q. decisionCacheKey q = k \<and> policy_said c l q r)) \<and>
     (\<forall>(k, r, t) \<in> lg_hits l. from_cache c l k r)"

definition system_ok :: "field_lookup \<Rightarrow> compositeEvaluator \<Rightarrow> log \<Rightarrow> system \<Rightarrow> bool" where
  "system_ok ForName c l s \<longleftrightarrow>
     same_config c (sh_eval (sy_shared s)) \<and> sh_heap (sy_shared s) \<in> lg_heaps l \<and>
     decisions.filled_by (lg_kept l) (sh_eval (sy_shared s)) \<and> log_ok ForName c (sh_now (sy_shared s)) l \<and>
     (\<forall>e \<in> set (sy_evals s). eval_ok ForName c l e)"

definition log_grows :: "log \<Rightarrow> log \<Rightarrow> bool" where
  "log_grows l l' \<longleftrightarrow> lg_heaps l \<subseteq> lg_heaps l' \<and> lg_asked l \<subseteq> lg_asked l' \<and> lg_kept l \<subseteq> lg_kept l' \<and> lg_hits l \<subseteq> lg_hits l'"

lemma log_grows_mono:
  assumes "log_grows l l'"
  shows "policy_said c l q r \<Longrightarrow> policy_said c l' q r"
    and "policy_silent c l q \<Longrightarrow> policy_silent c l' q"
    and "from_cache c l k r \<Longrightarrow> from_cache c l' k r"
    and "built_from c l info i \<Longrightarrow> built_from c l' info i"
    and "eval_ok ForName c l e \<Longrightarrow> eval_ok ForName c l' e"
proof -
  show said: "policy_said c l q r \<Longrightarrow> policy_said c l' q r" for q r
    using assms by (auto simp: policy_said_def log_grows_def)
  show silent: "policy_silent c l q \<Longrightarrow> policy_silent c l' q" for q
    using assms by (auto simp: policy_silent_def log_grows_def)
  show hit: "from_cache c l k r \<Longrightarrow> from_cache c l' k r" for k r
    using assms said unfolding from_cache_def log_grows_def by blast
  show built: "built_from c l info i \<Longrightarrow> built_from c l' info i" for info i
    using assms unfolding built_from_def log_grows_def by blast
  show "eval_ok ForName c l e \<Longrightarrow> eval_ok ForName c l' e"
    using said silent hit built assms
    by (cases e) (auto simp: accounted_for_def log_grows_def split: option.splits)
qed

lemma note_grows: "log_grows l (note_action s a l)"
  by (cases a) (auto simp: log_grows_def note_step_def split: evaluation.split option.split)

lemma policy_said_effective: "policy_said c l q r \<Longrightarrow> effective (opaAuditOnly c) r = r"
  by (auto simp: policy_said_def)

lemma schema_refusal_config: "same_config c c' \<Longrightarrow> schema_refusal ForName c' info = schema_refusal ForName c info"
  by (simp add: same_config_def schema_refusal_def)

definition shared_ok :: "field_lookup \<Rightarrow> compositeEvaluator \<Rightarrow> log \<Rightarrow> shared \<Rightarrow> bool" where
  "shared_ok ForName c l sh \<longleftrightarrow>
     same_config c (sh_eval sh) \<and> sh_heap sh \<in> lg_heaps l \<and> decisions.filled_by (lg_kept l) (sh_eval sh) \<and>
     log_ok ForName c (sh_now sh) l"

lemma log_ok_grow:
  assumes ok: "log_ok ForName c now l" and g: "log_grows l l'"
    and asked: "\<And>q i Post. (q, i, Post) \<in> lg_asked l' \<Longrightarrow> (q, i, Post) \<notin> lg_asked l \<Longrightarrow>
      schema_refusal ForName c q = None \<and> built_from c l' q i"
    and kept: "\<And>k r t. (k, r, t) \<in> lg_kept l' \<Longrightarrow> (k, r, t) \<notin> lg_kept l \<Longrightarrow>
      t \<le> now \<and> (\<exists>q. decisionCacheKey q = k \<and> policy_said c l' q r)"
    and hits: "\<And>k r t. (k, r, t) \<in> lg_hits l' \<Longrightarrow> (k, r, t) \<notin> lg_hits l \<Longrightarrow> from_cache c l' k r"
  shows "log_ok ForName c now l'"
proof -
  have "schema_refusal ForName c q = None \<and> built_from c l' q i" if "(q, i, Post) \<in> lg_asked l'" for q i Post
    using asked [OF that] ok log_grows_mono(4) [OF g] unfolding log_ok_def by fast
  moreover have "t \<le> now \<and> (\<exists>q. decisionCacheKey q = k \<and> policy_said c l' q r)" if "(k, r, t) \<in> lg_kept l'" for k r t
    using kept [OF that] ok log_grows_mono(1) [OF g] unfolding log_ok_def by fast
  moreover have "from_cache c l' k r" if "(k, r, t) \<in> lg_hits l'" for k r t
    using hits [OF that] ok log_grows_mono(3) [OF g] unfolding log_ok_def by fast
  ultimately show ?thesis unfolding log_ok_def by fast
qed

lemma log_grows_inserts [simp]:
  "log_grows l (l\<lparr>lg_heaps := insert h (lg_heaps l)\<rparr>)" "log_grows l (l\<lparr>lg_asked := insert a (lg_asked l)\<rparr>)"
  "log_grows l (l\<lparr>lg_kept := insert k (lg_kept l)\<rparr>)" "log_grows l (l\<lparr>lg_hits := insert k (lg_hits l)\<rparr>)"
  by (auto simp: log_grows_def)

lemma log_ok_asked:
  assumes "log_ok ForName c now l" and "schema_refusal ForName c q = None" and "built_from c l q i"
  shows "log_ok ForName c now (l\<lparr>lg_asked := insert (q, i, Post) (lg_asked l)\<rparr>)"
  by (rule log_ok_grow [OF assms(1)]) (use assms log_grows_mono(4) [OF log_grows_inserts(2)] in auto)

lemma log_ok_kept:
  assumes "log_ok ForName c now l" and "policy_said c l q r"
  shows "log_ok ForName c now (l\<lparr>lg_kept := insert (decisionCacheKey q, r, now) (lg_kept l)\<rparr>)"
  by (rule log_ok_grow [OF assms(1)]) (use assms log_grows_mono(1) [OF log_grows_inserts(3)] in auto)

lemma log_ok_heap:
  assumes "log_ok ForName c now l"
  shows "log_ok ForName c now (l\<lparr>lg_heaps := insert h (lg_heaps l)\<rparr>)"
  by (rule log_ok_grow [OF assms]) auto

lemma log_ok_hit:
  assumes "log_ok ForName c now l" and "(k, r, t) \<in> lg_kept l" and "now < t + cacheTTL c"
  shows "log_ok ForName c now (l\<lparr>lg_hits := insert (k, r, now) (lg_hits l)\<rparr>)"
    and "from_cache c (l\<lparr>lg_hits := insert (k, r, now) (lg_hits l)\<rparr>) k r"
proof -
  let ?l = "l\<lparr>lg_hits := insert (k, r, now) (lg_hits l)\<rparr>"
  from assms(1,2) obtain q where "t \<le> now" "decisionCacheKey q = k" "policy_said c l q r"
    unfolding log_ok_def by fast
  with assms(2,3) log_grows_mono(1) [OF log_grows_inserts(4)] show h: "from_cache c ?l k r"
    unfolding from_cache_def by (intro exI [of _ now] exI [of _ t] exI [of _ q]) auto
  show "log_ok ForName c now ?l" by (rule log_ok_grow [OF assms(1)]) (use h in auto)
qed

lemma cache_hit_kept:
  assumes "shared_ok ForName c l sh" and "cache_lookup (sh_eval sh) k (sh_now sh) = Some d"
  obtains t where "(k, result d, t) \<in> lg_kept l" and "sh_now sh < t + cacheTTL c"
    and "effective (opaAuditOnly c) (result d) = result d"
proof -
  from assms have "decisions.filled_by (lg_kept l) (sh_eval sh)"
    and ttl: "cacheTTL (sh_eval sh) = cacheTTL c" by (auto simp: shared_ok_def same_config_def)
  with decisions.filled_byD [of "lg_kept l" "sh_eval sh" k "sh_now sh" "result d"] assms(2)
  obtain t where t: "(k, result d, t) \<in> lg_kept l" "sh_now sh < t + cacheTTL c" by auto
  moreover from t assms(1) obtain q where "policy_said c l q (result d)"
    unfolding shared_ok_def log_ok_def by fastforce
  ultimately show ?thesis using that policy_said_effective by blast
qed

lemma advance_ok:
  assumes sh: "shared_ok ForName c l sh" and e: "eval_ok ForName c l e"
  shows "shared_ok ForName c (note_step e Post sh l) (snd (advance ForName Post e sh)) \<and>
    eval_ok ForName c (note_step e Post sh l) (fst (advance ForName Post e sh))"
proof (cases e)
  case (Entered info)
  have "schema (sh_eval sh) = schema c" using sh by (simp add: shared_ok_def same_config_def)
  with Entered sh show ?thesis
    by (auto simp: note_step_def Let_def case_prod_beta schema_refusal_def accounted_for_def shared_ok_def live_store_def
        same_config_def split: option.split)
next
  case (Reading info i)
  with e obtain h where "h \<in> lg_heaps l" "i = read_params info (map_option h (opaStore c))" by auto
  moreover have "opaStore (sh_eval sh) = opaStore c" "sh_heap sh \<in> lg_heaps l"
    using sh by (auto simp: shared_ok_def same_config_def)
  ultimately show ?thesis using Reading e sh by (auto simp: note_step_def built_from_def live_store_def)
next
  case (Looking info i)
  show ?thesis
  proof (cases "cache_lookup (sh_eval sh) (decisionCacheKey info) (sh_now sh)")
    case None
    then show ?thesis using Looking e sh by (simp add: note_step_def)
  next
    case (Some d)
    then obtain t where t: "(decisionCacheKey info, result d, t) \<in> lg_kept l" "sh_now sh < t + cacheTTL c"
      and d: "effective (opaAuditOnly c) (result d) = result d"
      using cache_hit_kept [OF sh] by blast
    have "log_ok ForName c (sh_now sh) l" "opaAuditOnly (sh_eval sh) = opaAuditOnly c"
      using sh by (auto simp: shared_ok_def same_config_def)
    with log_ok_hit [OF this(1) t] Some d Looking e sh show ?thesis
      by (auto simp: note_step_def shared_ok_def accounted_for_def case_prod_beta)
  qed
next
  case (Asking info i)
  define l' where "l' = note_step e Post sh l"
  have l': "l' = l\<lparr>lg_asked := insert (info, i, Post) (lg_asked l)\<rparr>" using Asking by (simp add: l'_def note_step_def)
  have ok: "log_ok ForName c (sh_now sh) l'"
    unfolding l' using sh e Asking by (intro log_ok_asked) (auto simp: shared_ok_def)
  have frame: "lg_heaps l' = lg_heaps l" "lg_kept l' = lg_kept l" by (simp_all add: l')
  have "opa (sh_eval sh) = opa c" "opaAuditOnly (sh_eval sh) = opaAuditOnly c" "opaFailClosed (sh_eval sh) = opaFailClosed c"
    using sh by (auto simp: shared_ok_def same_config_def)
  moreover have "policy_silent c l' info" if "opa_Evaluate Post (opa c) i = Inl err" for err
    using that unfolding l' policy_silent_def by auto
  moreover have "policy_said c l' info (effective (opaAuditOnly c) r0)" if "opa_Evaluate Post (opa c) i = Inr r0" for r0
    using that unfolding l' policy_said_def by auto
  ultimately show ?thesis
    using Asking e sh ok unfolding l'_def [symmetric]
    by (cases "opa_Evaluate Post (opa c) i") (auto simp: shared_ok_def accounted_for_def case_prod_beta frame)
next
  case (Keeping info r)
  let ?l = "note_step e Post sh l"
  have l: "?l = l\<lparr>lg_kept := insert (decisionCacheKey info, r, sh_now sh) (lg_kept l)\<rparr>" using Keeping by (simp add: note_step_def)
  have g: "log_grows l ?l" unfolding l by (auto simp: log_grows_def)
  have ok: "log_ok ForName c (sh_now sh) ?l"
    unfolding l using sh e Keeping by (intro log_ok_kept) (auto simp: shared_ok_def)
  have "decisions.filled_by (lg_kept ?l) (cache_store (decisionCacheKey info) r (sh_now sh) (sh_eval sh))"
    unfolding l using sh by (auto simp: shared_ok_def intro: decisions.filled_by_insert)
  moreover have "same_config c (cache_store (decisionCacheKey info) r (sh_now sh) (sh_eval sh))"
    using sh same_config_trans same_config_store unfolding shared_ok_def by blast
  moreover have "accounted_for ForName c ?l info r"
    using e Keeping log_grows_mono(1) [OF g] by (auto simp: accounted_for_def)
  moreover have "sh_heap sh \<in> lg_heaps ?l" using sh g by (auto simp: shared_ok_def log_grows_def)
  ultimately show ?thesis using ok Keeping by (simp add: shared_ok_def)
next
  case (Answered info r)
  then show ?thesis using e sh by (simp add: note_step_def)
qed

lemma system_ok_shared: "system_ok ForName c l s \<longleftrightarrow> shared_ok ForName c l (sy_shared s) \<and> (\<forall>e \<in> set (sy_evals s). eval_ok ForName c l e)"
  by (auto simp: system_ok_def shared_ok_def)

lemma log_ok_later: "log_ok ForName c now l \<Longrightarrow> now \<le> now' \<Longrightarrow> log_ok ForName c now' l"
  unfolding log_ok_def by fastforce

lemma act_ok:
  assumes "system_ok ForName c l s"
  shows "system_ok ForName c (note_action s a l) (act ForName a s)"
proof -
  have sh: "shared_ok ForName c l (sy_shared s)" and es: "\<And>e. e \<in> set (sy_evals s) \<Longrightarrow> eval_ok ForName c l e"
    using assms by (auto simp: system_ok_shared)
  have keep: "eval_ok ForName c (note_action s a l) e" if "e \<in> set (sy_evals s)" for e
    using log_grows_mono(5) [OF note_grows es [OF that]] .
  show ?thesis
  proof (cases a)
    case (Arrive info)
    then show ?thesis using assms by (simp add: system_ok_shared)
  next
    case (Step i Post)
    show ?thesis
    proof (cases "i < length (sy_evals s)")
      case True
      with advance_ok [OF sh es [of "sy_evals s ! i"], of Post] keep Step show ?thesis
        by (auto simp: system_ok_shared Let_def case_prod_beta dest!: set_update_subset_insert [THEN subsetD])
    next
      case False
      then show ?thesis using assms Step by simp
    qed
  next
    case (SetStores heap)
    with sh keep log_ok_heap show ?thesis by (auto simp: system_ok_shared shared_ok_def)
  next
    case (Tick n)
    with sh es log_ok_later show ?thesis by (auto simp: system_ok_shared shared_ok_def)
  qed
qed

lemma filled_by_nil: "cache c = None \<Longrightarrow> decisions.filled_by H c"
proof -
  assume "cache c = None"
  then have "cache_lookup c k now = None" for k now by (simp add: cache_lookup_def)
  then show ?thesis by (simp add: decisions.filled_by_def)
qed

lemma reaches_ok:
  assumes "reaches ForName s0 s l" and "sy_evals s0 = []" and "cache (sh_eval (sy_shared s0)) = None"
  shows "system_ok ForName (sh_eval (sy_shared s0)) l s"
  using assms(1)
proof induction
  case begins
  then show ?case
    using assms(2,3) by (simp add: system_ok_def log_ok_def filled_by_nil)
next
  case (acts s l a)
  show ?case using acts.IH by (rule act_ok)
qed

section \<open>Properties\<close>

text \<open>
  C8: however evaluations interleave with each other, with updates of the stores and with
  the clock, every answer is accounted for: it is the refusal of the schema, the answer of the policy
  to a question about this very query, the default for a policy that failed on it, or a cached answer that
  the policy gave to a query with the same key and that was written less than the time-to-live
  before it was served. Every question to the policy was about a query that conforms to the schema, with the
  parameters and the tenant configuration that the store held at some moments of the run.
\<close>

theorem interleaved_answers_justified:
  assumes "reaches ForName s0 s l" and "sy_evals s0 = []" and "cache (sh_eval (sy_shared s0)) = None"
  shows "(\<forall>info r. Answered info r \<in> set (sy_evals s) \<longrightarrow> accounted_for ForName (sh_eval (sy_shared s0)) l info r) \<and>
    (\<forall>q i Post. (q, i, Post) \<in> lg_asked l \<longrightarrow>
      schema_refusal ForName (sh_eval (sy_shared s0)) q = None \<and> built_from (sh_eval (sy_shared s0)) l q i)"
  using reaches_ok [OF assms] by (fastforce simp: system_ok_def log_ok_def)

definition demo_system :: system where
  "demo_system =
     \<lparr>sy_shared = \<lparr>sh_eval = demo_composite 60 False, sh_heap = (\<lambda>_. NewDataStore), sh_metrics = zero_Metrics, sh_now = 0\<rparr>,
      sy_evals = []\<rparr>"

definition demo_schedule :: "action list" where
  "demo_schedule =
     [Arrive (tenant_info ''a''), Step 0 no_post, Arrive (tenant_info ''b''), Step 1 no_post, Step 0 no_post, Step 0 no_post,
      Step 0 no_post, Step 0 no_post, Tick 9, Step 1 no_post, Step 1 no_post]"

lemma demo_reads:
  "in_TenantID (read_params (tenant_info t) st) = t"
  "in_TenantID (read_tenant info st i) = in_TenantID i"
  by (simp_all add: read_params_def read_tenant_def BuildInput_def tenant_info_def split: option.split)

lemma demo_interleaving:
  "sy_evals (run_system ForName demo_schedule demo_system) =
     [Answered (tenant_info ''a'') allow_result, Answered (tenant_info ''b'') allow_result]"
proof -
  have key: "decisionCacheKey (tenant_info ''b'') = decisionCacheKey (tenant_info ''a'')"
    by (simp add: decisionCacheKey_def tenant_info_def)
  have hit: "cache_lookup (cache_store k r 0 (demo_composite 60 False)) k 9 = Some \<lparr>result = r, expiry = 60\<rparr>" for k r
    by (simp add: cache_lookup_def cache_store_def)
  show ?thesis
    by (simp add: demo_schedule_def demo_system_def Let_def case_prod_beta demo_composite_opa demo_reads key hit effective_def)
qed

lemma reaches_run: "reaches ForName s0 s l \<Longrightarrow> \<exists>l'. reaches ForName s0 (run_system ForName as s) l'"
proof (induction as arbitrary: s l)
  case (Cons a as)
  from Cons.IH [OF reaches.acts [OF Cons.prems, of a]] show ?case by simp
qed auto

theorem interleaved_answers_justified_witness:
  "\<exists>l. accounted_for find_field (demo_composite 60 False) l (tenant_info ''b'') allow_result"
proof -
  obtain l where "reaches find_field demo_system (run_system find_field demo_schedule demo_system) l"
    using reaches_run [OF begins] by blast
  from interleaved_answers_justified [OF this] show ?thesis
    using demo_interleaving [of find_field] by (auto simp: demo_system_def)
qed

lemma reached_allowed_granted:
  assumes "reaches ForName s0 s l" and "sy_evals s0 = []" and c: "sh_eval (sy_shared s0) = c"
    and "cache c = None" and "opaFailClosed c" and "\<not> opaAuditOnly c"
    and "Answered info r \<in> set (sy_evals s)" and "Allowed r"
  shows "schema_refusal ForName c info = None \<and>
    (\<exists>q i Post. decisionCacheKey q = decisionCacheKey info \<and> (q, i, Post) \<in> lg_asked l \<and> built_from c l q i \<and>
       opa_grants Post (opa c) i)"
proof -
  have ok: "system_ok ForName c l s" using reaches_ok [OF assms(1,2)] assms(4) c by simp
  then have w: "accounted_for ForName c l info r" using assms(7) by (fastforce simp: system_ok_def)
  then have conforms: "schema_refusal ForName c info = None"
    using assms(8) by (auto simp: accounted_for_def split: option.splits)
  with w assms(5,8) obtain q where q: "decisionCacheKey q = decisionCacheKey info" "policy_said c l q r"
    by (auto simp: accounted_for_def from_cache_def unavailable_result_def)
  then obtain i Post r0 where i: "(q, i, Post) \<in> lg_asked l" "opa_Evaluate Post (opa c) i = Inr r0" "r = effective (opaAuditOnly c) r0"
    by (auto simp: policy_said_def)
  with assms(6,8) have "opa_grants Post (opa c) i"
    using opa.allowed_iff [OF i(2)] by (simp add: effective_def)
  moreover have "built_from c l q i" using ok i(1) by (fastforce simp: system_ok_def log_ok_def)
  ultimately show ?thesis using conforms q(1) i(1) by blast
qed

text \<open>
  C7: fail-closed and enforcing, no interleaving lets anything pass that the policy did not grant:
  whenever an evaluation allows a query, the query conforms to the schema, and the policy granted this
  query or one with the same cache key.
\<close>

theorem interleaved_allowed_was_granted:
  assumes "reaches ForName s0 s l" and "sy_evals s0 = []" and c: "sh_eval (sy_shared s0) = c"
    and "cache c = None" and "opaFailClosed c" and "\<not> opaAuditOnly c"
    and "Answered info r \<in> set (sy_evals s)" and "Allowed r"
  shows "schema_refusal ForName c info = None \<and>
    (\<exists>q i Post. decisionCacheKey q = decisionCacheKey info \<and> (q, i, Post) \<in> lg_asked l \<and> built_from c l q i \<and>
       opa_grants Post (opa c) i)"
  by (rule reached_allowed_granted [OF assms])

theorem interleaved_allowed_was_granted_witness:
  "\<exists>i. opa_grants no_post (opa (demo_composite 60 False)) i"
proof -
  obtain l where r: "reaches find_field demo_system (run_system find_field demo_schedule demo_system) l"
    using reaches_run [OF begins] by blast
  have a: "Answered (tenant_info ''b'') allow_result \<in> set (sy_evals (run_system find_field demo_schedule demo_system))"
    by (simp add: demo_interleaving)
  show ?thesis
    using interleaved_allowed_was_granted [OF r _ _ _ _ _ a, of "demo_composite 60 False"]
    by (auto simp: demo_system_def demo_composite_def embedded_grants_def allow_result_def)
qed

text \<open>
  The locks never keep an evaluation from its answer: in any schedule, an evaluation that
  takes five steps of its own has answered the query it was called with, whatever the others do.
\<close>

theorem every_evaluation_answers:
  assumes "i < length (sy_evals s)" and "5 \<le> length (filter (is_step_of i) as)"
  shows "\<exists>r. sy_evals (run_system ForName as s) ! i = Answered (query_of (sy_evals s ! i)) r"
proof -
  have "steps_left (sy_evals s ! i) \<le> 5" by (cases "sy_evals s ! i") auto
  with run_progress [OF assms(1), of ForName as] assms(2) steps_left_0 show ?thesis by (metis diff_is_0_eq le_0_eq le_trans)
qed

theorem every_evaluation_answers_witness:
  "\<exists>r. sy_evals (run_system find_field demo_schedule (demo_system\<lparr>sy_evals := [Entered (tenant_info ''c'')]\<rparr>)) ! 0 =
     Answered (tenant_info ''c'') r"
proof -
  have "5 \<le> length (filter (is_step_of 0) demo_schedule)" by (simp add: demo_schedule_def)
  from every_evaluation_answers [OF _ this, of "demo_system\<lparr>sy_evals := [Entered (tenant_info ''c'')]\<rparr>" find_field]
  show ?thesis by simp
qed

text \<open>
  Without interference the steps of an evaluation add up to \<open>Evaluate\<close>, answer, cache and
  metrics alike; the clock may move before the cache is looked up and before the answer is kept.
\<close>

theorem undisturbed_is_Evaluate:
  assumes "i < length (sy_evals s)" and "sy_evals s ! i = Entered info" and sh: "sy_shared s = sh"
    and "Evaluate ForName Post (live_store sh) (sh_now sh + int d1) (sh_now sh + int d1 + int d2) info (sh_eval sh) (sh_metrics sh) =
      (r, c, m)"
  shows "run_system ForName [Step i Post, Step i Post, Tick d1, Step i Post, Step i Post, Tick d2, Step i Post] s =
    s\<lparr>sy_shared := sh\<lparr>sh_eval := c, sh_metrics := m, sh_now := sh_now sh + int d1 + int d2\<rparr>,
      sy_evals := (sy_evals s)[i := Answered info r]\<rparr>"
  using assms Evaluate_alone [of ForName Post sh d1 d2 info]
  by (auto simp: advances_def Let_def case_prod_beta)

theorem undisturbed_is_Evaluate_witness:
  "sy_evals (run_system find_field [Step 0 no_post, Step 0 no_post, Tick 1, Step 0 no_post, Step 0 no_post, Tick 2, Step 0 no_post]
     (demo_system\<lparr>sy_evals := [Entered (tenant_info ''b'')]\<rparr>)) =
   [Answered (tenant_info ''b'') \<lparr>Allowed = False, Reason = ''tenant blocked''\<rparr>]"
proof -
  let ?s = "demo_system\<lparr>sy_evals := [Entered (tenant_info ''b'')]\<rparr>"
  let ?sh = "sy_shared ?s" and ?r = "\<lparr>Allowed = False, Reason = ''tenant blocked''\<rparr>"
  let ?e = "Evaluate find_field no_post (live_store ?sh) (sh_now ?sh + int 1) (sh_now ?sh + int 1 + int 2) (tenant_info ''b'')
     (sh_eval ?sh) (sh_metrics ?sh)"
  have "schema (sh_eval ?sh) = None" by (simp add: demo_system_def)
  moreover have "cache_lookup (sh_eval ?sh) k now = None" for k now by (simp add: demo_system_def)
  moreover have "opa_Evaluate no_post (opa (sh_eval ?sh)) (BuildInput (tenant_info ''b'') st) = Inr ?r" for st
    by (simp add: demo_system_def demo_composite_opa BuildInput_def tenant_info_def)
  ultimately have "fst ?e = effective (opaAuditOnly (sh_eval ?sh)) ?r"
    by (simp add: Evaluate_def Evaluate_policy_def Let_def case_prod_beta)
  then have "fst ?e = ?r" by (simp add: demo_system_def effective_def)
  then obtain c m where e: "?e = (?r, c, m)" by (cases ?e) auto
  have "0 < length (sy_evals ?s)" "sy_evals ?s ! 0 = Entered (tenant_info ''b'')" by simp_all
  then show ?thesis by (subst undisturbed_is_Evaluate [OF _ _ refl e]) simp_all
qed

end
