(* ===== verification/Concurrent_Requests.thy ===== *)
theory Concurrent_Requests
  imports Concurrent_Evaluation Handler_Properties
begin

text \<open>
  Any number of requests in progress at once. Between its calls of the evaluator a handler only touches its own
  request (and counters), so where it stands is given by the answers it has heard: \<open>next_move\<close> runs
  \<open>serve\<close> on those answers up to the next question. A request in progress is resumed when its
  evaluation has answered; evaluations, updates of the stores and the clock run in between as in
  \<open>Concurrent_Evaluation\<close>. A run here may go on after a request whose outcome is the end of the process; the
  runs of the program are among them, stopped there.
\<close>

section \<open>A handler that waits for its answers\<close>

text \<open>
  An evaluator that gives the answers already heard, each to the question it answers, and stops the handler at the
  first question without one.
\<close>

type_synonym heard = "(QueryInfo \<times> Result) list"

fun replay :: "(heard \<times> QueryInfo option) evaluator" where
  "replay q (([], w), m) = (EvalPanics, ([], Some q), m)"
| "replay q (((p, r) # rest, w), m) =
     (if p = q then (Returned r, (rest, w), m) else (EvalPanics, ((p, r) # rest, Some q), m))"

text \<open>What a handler does next after the answers it has heard: ask a question, or finish.\<close>

definition next_move :: "environment \<Rightarrow> Handler \<Rightarrow> http_request \<Rightarrow> heard \<Rightarrow> QueryInfo + outcome option" where
  "next_move env h r ans =
     (case serve replay env h r ((ans, None), zero_Metrics) of
        (out, (_, Some q), _) \<Rightarrow> Inl q
      | (out, (_, None), _) \<Rightarrow> Inr out)"

section \<open>Requests in progress\<close>

record job =
  jb_request :: http_request
  jb_env :: environment
  jb_calls :: "nat list"
  jb_outcome :: "outcome option option"

record service =
  sv_system :: system
  sv_jobs :: "job list"

definition answer_at :: "evaluation list \<Rightarrow> nat \<Rightarrow> (QueryInfo \<times> Result) option" where
  "answer_at evals i = (if i < length evals then case evals ! i of Answered q r \<Rightarrow> Some (q, r) | _ \<Rightarrow> None else None)"

abbreviation answers_to :: "evaluation list \<Rightarrow> nat list \<Rightarrow> heard option" where
  "answers_to evals calls \<equiv> those (map (answer_at evals) calls)"

datatype service_action = Request http_request environment | Resume nat | Background action

text \<open>
  A request that is resumed when all its evaluations have answered makes its next move: it calls the evaluator, which is
  a new evaluation in progress, or it is done.
\<close>

fun perform :: "field_lookup \<Rightarrow> Handler \<Rightarrow> service_action \<Rightarrow> service \<Rightarrow> service" where
  "perform ForName h (Request r env) s =
     s\<lparr>sv_jobs := sv_jobs s @ [\<lparr>jb_request = r, jb_env = env, jb_calls = [], jb_outcome = None\<rparr>]\<rparr>"
| "perform ForName h (Resume j) s =
     (if j < length (sv_jobs s) \<and> jb_outcome (sv_jobs s ! j) = None then
        let b = sv_jobs s ! j in
        (case answers_to (sy_evals (sv_system s)) (jb_calls b) of
           None \<Rightarrow> s
         | Some ans \<Rightarrow>
             (case next_move (jb_env b) h (jb_request b) ans of
                Inl q \<Rightarrow>
                  s\<lparr>sv_system := act ForName (Arrive q) (sv_system s),
                    sv_jobs := (sv_jobs s)[j := b\<lparr>jb_calls := jb_calls b @ [length (sy_evals (sv_system s))]\<rparr>]\<rparr>
              | Inr out \<Rightarrow> s\<lparr>sv_jobs := (sv_jobs s)[j := b\<lparr>jb_outcome := Some out\<rparr>]\<rparr>))
      else s)"
| "perform ForName h (Background a) s = s\<lparr>sv_system := act ForName a (sv_system s)\<rparr>"

fun perform_all :: "field_lookup \<Rightarrow> Handler \<Rightarrow> service_action list \<Rightarrow> service \<Rightarrow> service" where
  "perform_all ForName h [] s = s"
| "perform_all ForName h (a # as) s = perform_all ForName h as (perform ForName h a s)"

section \<open>What a finished request rests on\<close>

lemma act_keeps_answers:
  "Answered q r \<in> set (sy_evals s) \<Longrightarrow> Answered q r \<in> set (sy_evals (act ForName a s))"
proof (cases a)
  case (Step i Post)
  assume "Answered q r \<in> set (sy_evals s)"
  then obtain k where k: "k < length (sy_evals s)" "sy_evals s ! k = Answered q r" by (auto simp: in_set_conv_nth)
  then have "sy_evals (act ForName a s) ! k = Answered q r" "k < length (sy_evals (act ForName a s))"
    by (auto simp: Step Let_def case_prod_beta nth_list_update)
  then show ?thesis by (metis nth_mem)
qed auto

text \<open>A request is done when the handler, given answers that evaluations of the run gave, is done.\<close>

definition job_ok :: "Handler \<Rightarrow> system \<Rightarrow> job \<Rightarrow> bool" where
  "job_ok h s b \<longleftrightarrow>
     (\<forall>out. jb_outcome b = Some out \<longrightarrow>
        (\<exists>ans. next_move (jb_env b) h (jb_request b) ans = Inr out \<and> (\<forall>(q, r) \<in> set ans. Answered q r \<in> set (sy_evals s))))"

lemma those_mem: "those xs = Some ys \<Longrightarrow> y \<in> set ys \<Longrightarrow> Some y \<in> set xs"
  by (induction xs arbitrary: ys) (auto split: option.splits)

lemma answer_at_mem: "answer_at evals i = Some (q, r) \<Longrightarrow> Answered q r \<in> set evals"
  by (auto simp: answer_at_def split: if_splits evaluation.splits) (metis nth_mem)

lemma job_ok_act: "job_ok h s b \<Longrightarrow> job_ok h (act ForName a s) b"
  unfolding job_ok_def using act_keeps_answers by fastforce

lemma resume_cases:
  fixes s :: service
  obtains
    (idle) "perform ForName h (Resume j) s = s"
      "\<not> (j < length (sv_jobs s) \<and> jb_outcome (sv_jobs s ! j) = None \<and> answers_to (sy_evals (sv_system s)) (jb_calls (sv_jobs s ! j)) \<noteq> None)"
  | (call) q ans where "j < length (sv_jobs s)" "jb_outcome (sv_jobs s ! j) = None"
      "answers_to (sy_evals (sv_system s)) (jb_calls (sv_jobs s ! j)) = Some ans"
      "next_move (jb_env (sv_jobs s ! j)) h (jb_request (sv_jobs s ! j)) ans = Inl q"
      "perform ForName h (Resume j) s = s\<lparr>sv_system := act ForName (Arrive q) (sv_system s),
         sv_jobs := (sv_jobs s)[j := (sv_jobs s ! j)\<lparr>jb_calls := jb_calls (sv_jobs s ! j) @ [length (sy_evals (sv_system s))]\<rparr>]\<rparr>"
  | (finish) out ans where "j < length (sv_jobs s)" "jb_outcome (sv_jobs s ! j) = None"
      "answers_to (sy_evals (sv_system s)) (jb_calls (sv_jobs s ! j)) = Some ans"
      "next_move (jb_env (sv_jobs s ! j)) h (jb_request (sv_jobs s ! j)) ans = Inr out"
      "perform ForName h (Resume j) s = s\<lparr>sv_jobs := (sv_jobs s)[j := (sv_jobs s ! j)\<lparr>jb_outcome := Some out\<rparr>]\<rparr>"
proof (cases "j < length (sv_jobs s) \<and> jb_outcome (sv_jobs s ! j) = None")
  case True
  let ?b = "sv_jobs s ! j"
  show thesis
  proof (cases "answers_to (sy_evals (sv_system s)) (jb_calls ?b)")
    case None
    then show thesis using True idle by (simp add: Let_def)
  next
    case (Some ans)
    then show thesis
      using True call finish by (cases "next_move (jb_env ?b) h (jb_request ?b) ans") (simp_all add: Let_def)
  qed
next
  case False
  then have "perform ForName h (Resume j) s = s" by (metis perform.simps(2))
  with False show thesis using idle by blast
qed

lemma perform_ok:
  assumes "\<forall>b \<in> set (sv_jobs s). job_ok h (sv_system s) b" and "reaches ForName s0 (sv_system s) l"
  shows "(\<forall>b \<in> set (sv_jobs (perform ForName h a s)). job_ok h (sv_system (perform ForName h a s)) b) \<and>
    (\<exists>l'. reaches ForName s0 (sv_system (perform ForName h a s)) l')"
proof (cases a)
  case (Resume j)
  let ?b = "sv_jobs s ! j" and ?evals = "sy_evals (sv_system s)"
  show ?thesis
  proof (cases rule: resume_cases [of ForName h j s])
    case idle
    then show ?thesis using assms by (auto simp: Resume)
  next
    case (call q ans)
    have "job_ok h x (?b\<lparr>jb_calls := calls\<rparr>)" for x calls using call(2) by (simp add: job_ok_def)
    then show ?thesis
      using assms reaches.acts [OF assms(2), of "Arrive q"] unfolding Resume call(5)
      by (auto dest!: set_update_subset_insert [THEN subsetD] intro: job_ok_act simp del: act.simps)
  next
    case (finish out ans)
    have "Answered q r \<in> set ?evals" if "(q, r) \<in> set ans" for q r
      using those_mem [OF finish(3) that] answer_at_mem by (metis imageE image_set)
    then have "job_ok h (sv_system s) (?b\<lparr>jb_outcome := Some out\<rparr>)"
      using finish(4) by (auto simp: job_ok_def)
    then show ?thesis
      using assms unfolding Resume finish(5) by (auto dest!: set_update_subset_insert [THEN subsetD])
  qed
next
  case (Background x)
  then show ?thesis using assms reaches.acts [OF assms(2), of x] by (auto intro: job_ok_act)
qed (use assms in \<open>auto simp: job_ok_def\<close>)

lemma perform_all_ok:
  "\<forall>b \<in> set (sv_jobs s). job_ok h (sv_system s) b \<Longrightarrow> reaches ForName s0 (sv_system s) l \<Longrightarrow>
   (\<forall>b \<in> set (sv_jobs (perform_all ForName h as s)). job_ok h (sv_system (perform_all ForName h as s)) b) \<and>
   (\<exists>l'. reaches ForName s0 (sv_system (perform_all ForName h as s)) l')"
proof (induction as arbitrary: s l)
  case (Cons a as)
  from perform_ok [OF Cons.prems, of a] Cons.IH show ?case by auto
qed auto

lemma approved_replay:
  "approved replay qs ((ans, w), m) \<Longrightarrow> q \<in> set qs \<Longrightarrow> \<exists>r. (q, r) \<in> set ans \<and> Allowed r"
proof (induction qs arbitrary: ans w m)
  case (Cons p qs)
  then obtain r rest where a: "ans = (p, r) # rest" "Allowed r" "approved replay qs ((rest, w), m)"
    by (cases ans) (auto split: if_splits)
  then show ?case using Cons.IH [OF a(3)] Cons.prems(2) by auto
qed simp

lemma next_move_forward:
  assumes "next_move env h r ans = Inr (Some (Forward hdrs req))" and "isGraphQLPath (Path (URL r))"
  shows "\<exists>qs. inspected env h r = Some qs \<and> (\<forall>q \<in> set qs. \<exists>res. (q, res) \<in> set ans \<and> Allowed res)"
proof -
  have "forwards (serve replay env h r ((ans, None), zero_Metrics)) req"
    using assms(1) by (auto simp: next_move_def forwards_def split: prod.splits option.splits)
  with serve_forwards [OF assms(2), of replay env h "(ans, None)" zero_Metrics] approved_replay show ?thesis by blast
qed


section \<open>Properties\<close>

text \<open>
  C4: enforcement with any number of requests in progress at once. Fail-closed and enforcing, however the handlers,
  their evaluations, updates of the stores and the clock interleave: a request on a GraphQL path is forwarded only
  if every query it carries conforms to the schema and the policy granted that query, or one with the same
  cache key, on an input built from stores of the run.
\<close>

theorem concurrent_requests_enforced:
  assumes s: "s = perform_all ForName h as \<lparr>sv_system = s0, sv_jobs = []\<rparr>"
    and "sy_evals s0 = []" and "sh_eval (sy_shared s0) = c" and "cache c = None" and "opaFailClosed c" and "\<not> opaAuditOnly c"
    and b: "b \<in> set (sv_jobs s)" "jb_outcome b = Some (Some (Forward hdrs req))" "isGraphQLPath (Path (URL (jb_request b)))"
  shows "\<exists>l qs. reaches ForName s0 (sv_system s) l \<and> inspected (jb_env b) h (jb_request b) = Some qs \<and> qs \<noteq> [] \<and>
    (\<forall>q \<in> set qs. schema_refusal ForName c q = None \<and>
       (\<exists>q' i Post. decisionCacheKey q' = decisionCacheKey q \<and> (q', i, Post) \<in> lg_asked l \<and> built_from c l q' i \<and>
          opa_grants Post (opa c) i))"
proof -
  obtain l where l: "reaches ForName s0 (sv_system s) l" and "job_ok h (sv_system s) b"
    using perform_all_ok [of "\<lparr>sv_system = s0, sv_jobs = []\<rparr>" h ForName s0 _ as] begins [of ForName s0] b(1) unfolding s by fastforce
  then obtain ans where ans: "next_move (jb_env b) h (jb_request b) ans = Inr (Some (Forward hdrs req))"
    and evals: "\<And>q r. (q, r) \<in> set ans \<Longrightarrow> Answered q r \<in> set (sy_evals (sv_system s))"
    using b(2) by (fastforce simp: job_ok_def)
  obtain qs where qs: "inspected (jb_env b) h (jb_request b) = Some qs"
    and allowed: "\<And>q. q \<in> set qs \<Longrightarrow> \<exists>res. (q, res) \<in> set ans \<and> Allowed res"
    using next_move_forward [OF ans b(3)] by blast
  have "schema_refusal ForName c q = None \<and>
      (\<exists>q' i Post. decisionCacheKey q' = decisionCacheKey q \<and> (q', i, Post) \<in> lg_asked l \<and> built_from c l q' i \<and>
         opa_grants Post (opa c) i)" if "q \<in> set qs" for q
    using allowed [OF that] evals reached_allowed_granted [OF l assms(2-6)] by blast
  then show ?thesis using l qs inspected_nonempty [OF qs] by blast
qed


definition demo_query :: QueryInfo where
  "demo_query = with_tenant (post_request ''a'' demo_body) (demo_info ''{a}'')"

lemma demo_moves:
  "next_move demo_env demo_handler (post_request ''a'' demo_body) [] = Inl demo_query"
  "\<exists>hdrs req. next_move demo_env demo_handler (post_request ''a'' demo_body) [(demo_query, allow_result)] = Inr (Some (Forward hdrs req))"
proof -
  have i: "item_query demo_env demo_handler (zero_graphQLBody\<lparr>Query := ''{a}''\<rparr>) = Some (demo_info ''{a}'')"
    by (simp add: demo_item_query zero_graphQLBody_def)
  have s: "serve eval demo_env demo_handler (post_request ''a'' demo_body) sm =
      evaluateAndForward eval demo_env demo_handler (post_request ''a'' demo_body) demo_body (demo_info ''{a}'') sm" for eval sm
    by (simp add: serve_def post_request_simps handleGraphQL_def demo_read demo_body_facts single_evaluates [OF demo_body_facts(1) i])
  show "next_move demo_env demo_handler (post_request ''a'' demo_body) [] = Inl demo_query"
    by (simp add: next_move_def s evaluateAndForward_def demo_query_def with_tenant_def post_request_simps(3) Let_def)
  show "\<exists>hdrs req. next_move demo_env demo_handler (post_request ''a'' demo_body) [(demo_query, allow_result)] = Inr (Some (Forward hdrs req))"
    by (simp add: next_move_def s evaluateAndForward_def demo_query_def with_tenant_def allow_result_def pass_with_def
        forward_def post_request_simps(3) Let_def)
qed

lemma demo_query_tenant: "TenantID demo_query = ''a''"
proof -
  have "extractTenantID ''a'' = ''a''" by code_simp
  then show ?thesis by (simp add: demo_query_def with_tenant_def post_request_simps)
qed

theorem concurrent_requests_enforced_witness:
  "\<exists>(l :: log) b. b \<in> set (sv_jobs (perform_all find_field demo_handler
        ([Request (post_request ''a'' demo_body) demo_env, Resume 0] @ replicate 5 (Background (Step 0 no_post)) @ [Resume 0])
        \<lparr>sv_system = demo_system, sv_jobs = []\<rparr>)) \<and>
     inspected demo_env demo_handler (jb_request b) = Some [demo_query] \<and>
     (\<exists>q' i Post. decisionCacheKey q' = decisionCacheKey demo_query \<and> (q', i, Post) \<in> lg_asked l \<and>
        opa_grants Post (opa (demo_composite 60 False)) i)"
proof -
  let ?r = "post_request ''a'' demo_body"
  let ?as = "[Request ?r demo_env, Resume 0] @ replicate 5 (Background (Step 0 no_post)) @ [Resume 0]"
  define s where "s = perform_all find_field demo_handler ?as \<lparr>sv_system = demo_system, sv_jobs = []\<rparr>"
  obtain hdrs req where m: "next_move demo_env demo_handler ?r [(demo_query, allow_result)] = Inr (Some (Forward hdrs req))"
    using demo_moves(2) by blast
  have t: "in_TenantID (read_params demo_query st) = ''a''" for st
    by (simp add: read_params_def BuildInput_def demo_query_tenant)
  have "sv_jobs s = [\<lparr>jb_request = ?r, jb_env = demo_env, jb_calls = [0], jb_outcome = Some (Some (Forward hdrs req))\<rparr>]"
    unfolding s_def
    by (simp add: numeral_eq_Suc demo_moves(1) m demo_system_def answer_at_def Let_def case_prod_beta demo_composite_opa
        demo_reads(2) t effective_def)
  then obtain b where b: "b \<in> set (sv_jobs s)" "jb_outcome b = Some (Some (Forward hdrs req))" "jb_request b = ?r" "jb_env b = demo_env"
    by auto
  have g: "isGraphQLPath (Path (URL (jb_request b)))" using b(3) post_request_simps(1) by simp
  have s0: "sy_evals demo_system = []" "sh_eval (sy_shared demo_system) = demo_composite 60 False" by (simp_all add: demo_system_def)
  have c: "cache (demo_composite 60 False) = None" "opaFailClosed (demo_composite 60 False)" "\<not> opaAuditOnly (demo_composite 60 False)"
    by simp_all
  have i: "inspected (jb_env b) demo_handler (jb_request b) = Some [demo_query]"
    using b(3,4) demo_inspected [of "''a''"] by (simp add: demo_query_def)
  obtain l qs where "inspected (jb_env b) demo_handler (jb_request b) = Some qs"
    and q: "\<forall>q \<in> set qs. schema_refusal find_field (demo_composite 60 False) q = None \<and>
      (\<exists>q' i Post. decisionCacheKey q' = decisionCacheKey q \<and> (q', i, Post) \<in> lg_asked l \<and>
         built_from (demo_composite 60 False) l q' i \<and> opa_grants Post (opa (demo_composite 60 False)) i)"
    using concurrent_requests_enforced [OF s_def s0 c b(1,2) g] by blast
  then have "demo_query \<in> set qs" using i by auto
  with q obtain q' i' Post where "decisionCacheKey q' = decisionCacheKey demo_query" "(q', i', Post) \<in> lg_asked l"
    "opa_grants Post (opa (demo_composite 60 False)) i'" by blast
  moreover have "inspected demo_env demo_handler (jb_request b) = Some [demo_query]" using i b(4) by simp
  ultimately show ?thesis using b(1) unfolding s_def by blast
qed

end
