(* ===== verification/Request_Progress.thy ===== *)
theory Request_Progress
  imports Concurrent_Requests
begin

text \<open>
  Requests in progress come to an end. A request asks at most one question per query it carries, and a question is
  answered after at most five steps of its evaluation, so the work left of a request is a number that every
  move made for it lowers and that no action of the rest of the service raises. A handler that has no further
  question to ask has an outcome.
\<close>

section \<open>How many questions a request asks\<close>

definition question_of :: "'a \<times> (heard \<times> QueryInfo option) \<times> Metrics \<Rightarrow> QueryInfo option" where
  "question_of res = snd (fst (snd res))"

lemma question_of_simps [simp]:
  "question_of (fail_with env msg ty code ((ans, w), m)) = w" "question_of (block_with env ty reason ((ans, w), m)) = w"
  "question_of (pass_with env h ty r b ((ans, w), m)) = w" "question_of (out, (ans, w), m) = w"
  by (simp_all add: question_of_def fail_with_def block_with_def pass_with_def Let_def)

lemma next_move_question: "next_move env h r ans = Inl q \<longleftrightarrow> question_of (serve replay env h r ((ans, None), zero_Metrics)) = Some q"
  by (auto simp: next_move_def question_of_def split: prod.split option.split)

text \<open>The answers heard so far, each to the question that was open when it was asked.\<close>

definition in_turn :: "(heard \<Rightarrow> QueryInfo option) \<Rightarrow> heard \<Rightarrow> bool" where
  "in_turn question ans \<longleftrightarrow> (\<forall>k < length ans. question (take k ans) = Some (fst (ans ! k)))"

lemma in_turn_Cons:
  "in_turn question (a # ans) \<Longrightarrow> question [] = Some (fst a) \<and> in_turn (\<lambda>x. question (a # x)) ans"
  unfolding in_turn_def by (auto dest: spec [of _ "0 :: nat"] spec [of _ "Suc _"])

lemma batch_questions:
  assumes "in_turn (\<lambda>x. question_of (batch_loop replay env h r b i first bs ((x, None), m))) ans"
    and "question_of (batch_loop replay env h r b i first bs ((ans, None), m)) = Some q"
  shows "length ans < length bs"
  using assms
proof (induction bs arbitrary: i first ans)
  case (Cons req reqs)
  show ?case
  proof (cases "item_query env h req")
    case None
    then have "question_of (batch_loop replay env h r b i first (req # reqs) ((ans, None), m)) = None"
      by (simp add: item_query_def split: if_splits parse_reply.splits)
    with Cons.prems(2) show ?thesis by simp
  next
    case (Some p)
    note loop = batch_loop_Some [OF Some, of replay r b i first reqs]
    show ?thesis
    proof (cases ans)
      case (Cons a rest)
      note turn = in_turn_Cons [OF Cons.prems(1) [unfolded Cons]]
      have "fst a = p" using turn [THEN conjunct1] by (simp add: loop del: batch_loop.simps)
      then obtain res where a: "a = (p, res)" by (cases a) simp
      have allowed: "Allowed res"
        using Cons.prems(2) by (simp add: loop Cons a del: batch_loop.simps split: if_splits)
      have "length rest < length reqs"
      proof (rule Cons.IH)
        let ?first = "if i = 0 then OperationType p else first"
        show "in_turn (\<lambda>x. question_of (batch_loop replay env h r b (Suc i) ?first reqs ((x, None), m))) rest"
          using turn [THEN conjunct2] allowed by (simp add: loop a del: batch_loop.simps)
        show "question_of (batch_loop replay env h r b (Suc i) ?first reqs ((rest, None), m)) = Some q"
          using Cons.prems(2) allowed by (simp add: loop Cons a del: batch_loop.simps)
      qed
      then show ?thesis by (simp add: Cons)
    qed simp
  qed
qed simp

lemma single_questions:
  assumes "in_turn (\<lambda>x. question_of (evaluateAndForward replay env h r b q0 ((x, None), m))) ans"
    and "question_of (evaluateAndForward replay env h r b q0 ((ans, None), m)) = Some q"
  shows "ans = []"
proof (rule ccontr)
  assume "ans \<noteq> []"
  then obtain a rest where a: "ans = a # rest" by (cases ans) auto
  note turn = in_turn_Cons [OF assms(1) [unfolded a]]
  have e: "evaluateAndForward replay env h r b q0 ((x, None), m) =
      (case replay (with_tenant r q0) ((x, None), RecordRuleEval (''op_'' @ OperationType (with_tenant r q0)) m) of
         (EvalPanics, sm2) \<Rightarrow> (None, sm2)
       | (EvalFailed, sm2) \<Rightarrow> fail_with env (error_body (sanitizeError ''eval'')) (OperationType (with_tenant r q0)) 500 sm2
       | (Returned res, sm2) \<Rightarrow>
           if \<not> Allowed res then block_with env (OperationType (with_tenant r q0)) (Reason res) sm2
           else pass_with env h (OperationType (with_tenant r q0)) r b sm2)" for x
    by (simp only: evaluateAndForward_def with_tenant_def Let_def fst_conv snd_conv)
  have "fst a = with_tenant r q0" using turn [THEN conjunct1] by (simp add: e)
  then obtain res where "a = (with_tenant r q0, res)" by (cases a) simp
  with assms(2) show False by (simp add: a e split: if_splits)
qed

text \<open>The number of questions is bounded by the number of items of the request.\<close>

definition items :: "Handler \<Rightarrow> http_request \<Rightarrow> nat" where
  "items h r =
     (case read_limited (MaxBodyBytes h) r of
        Inr b \<Rightarrow> if is_batch b then (case unmarshal_batch b of Some bs \<Rightarrow> max 1 (length bs) | None \<Rightarrow> 1) else 1
      | Inl e \<Rightarrow> 1)"

lemma items_pos: "0 < items h r"
  by (simp add: items_def less_max_iff_disj split: sum.split option.split)

text \<open>A handler that asks at most one question.\<close>

definition asks_once :: "environment \<Rightarrow> Handler \<Rightarrow> http_request \<Rightarrow> (heard \<Rightarrow> 'a \<times> (heard \<times> QueryInfo option) \<times> Metrics) \<Rightarrow> bool" where
  "asks_once env h r f \<longleftrightarrow> (\<forall>ans q. in_turn (\<lambda>x. question_of (f x)) ans \<longrightarrow> question_of (f ans) = Some q \<longrightarrow> ans = [])"

lemma asks_once_simps [simp]:
  "asks_once env h r (\<lambda>x. fail_with env msg ty code ((x, None), m))"
  "asks_once env h r (\<lambda>x. (out, (x, None), m))"
  "asks_once env h r (\<lambda>x. evaluateAndForward replay env h r b q0 ((x, None), m))"
  using single_questions by (auto simp: asks_once_def)

lemma asks_once_if: "asks_once env h r f \<Longrightarrow> asks_once env h r g \<Longrightarrow> asks_once env h r (\<lambda>x. if P then f x else g x)"
  by (cases P) simp_all

lemma handleGraphQLSingle_asks: "asks_once env h r (\<lambda>x. handleGraphQLSingle replay env h r b ((x, None), m))"
proof (cases "Option.bind (json_prefix b) (\<lambda>(v, rest). map_option (\<lambda>b. (b, rest)) (decode_body True v))")
  case None
  then show ?thesis by (simp add: handleGraphQLSingle_def)
next
  case (Some g)
  obtain body rest where g: "g = (body, rest)" by (cases g)
  show ?thesis
    unfolding handleGraphQLSingle_def Some g option.case prod.case
    by (cases "parseQueryWithTimeout env (Query body) (ParseTimeout h)") (intro asks_once_if; simp add: Let_def)+
qed

lemma handleGraphQLGet_asks: "asks_once env h r (\<lambda>x. handleGraphQLGet replay env h r ((x, None), m))"
  unfolding handleGraphQLGet_def Let_def
  by (cases "parseQueryWithTimeout env (Values_Get (URL_Query (URL r)) ''query'') (ParseTimeout h)")
    (intro asks_once_if; simp)+

lemma serve_questions:
  assumes "in_turn (\<lambda>x. question_of (serve replay env h r ((x, None), m))) ans"
    and "question_of (serve replay env h r ((ans, None), m)) = Some q"
  shows "length ans < items h r"
proof -
  have once: ?thesis if "asks_once env h r (\<lambda>x. serve replay env h r ((x, None), m))"
    using that assms items_pos [of h r] by (auto simp: asks_once_def)
  show ?thesis
  proof (cases "isGraphQLPath (Path (URL r)) \<and> Method r = ''POST'' \<and> hasJSONContentType (Header r)")
    case post: True
    show ?thesis
    proof (cases "read_limited (MaxBodyBytes h) r")
      case (Inl e)
      then show ?thesis using post by (intro once, cases e) (simp_all add: serve_def handleGraphQL_def)
    next
      case (Inr b)
      show ?thesis
      proof (cases "is_batch b")
        case True
        have s: "serve replay env h r sm = handleGraphQLBatch replay env h r b sm" for sm
          using post Inr True by (simp add: serve_def handleGraphQL_def)
        show ?thesis
        proof (cases "unmarshal_batch b")
          case None
          then show ?thesis by (intro once) (simp add: s handleGraphQLBatch_def)
        next
          case (Some bs)
          then show ?thesis
            using assms batch_questions [of env h r b 0 "''unknown''" bs m ans q]
            by (cases "bs = []") (simp_all add: s handleGraphQLBatch_def items_def Inr True del: batch_loop.simps)
        qed
      next
        case False
        then show ?thesis
          using post Inr handleGraphQLSingle_asks by (intro once) (simp add: serve_def handleGraphQL_def)
      qed
    qed
  next
    case False
    then consider "\<not> isGraphQLPath (Path (URL r))" | "isGraphQLPath (Path (URL r))" "Method r = ''POST''" "\<not> hasJSONContentType (Header r)"
      | "isGraphQLPath (Path (URL r))" "Method r = ''GET''" | "isGraphQLPath (Path (URL r))" "Method r \<noteq> ''POST''" "Method r \<noteq> ''GET''"
      by blast
    then show ?thesis using handleGraphQLGet_asks by cases (rule once, simp add: serve_def)+
  qed
qed

section \<open>Progress of a request\<close>

text \<open>Every call was made in its turn: when all calls before it had answered, and with the question open then.\<close>

definition calls_ok :: "Handler \<Rightarrow> evaluation list \<Rightarrow> job \<Rightarrow> bool" where
  "calls_ok h evals b \<longleftrightarrow>
     (\<forall>k < length (jb_calls b). jb_calls b ! k < length evals \<and>
        (\<exists>ans. answers_to evals (take k (jb_calls b)) = Some ans \<and>
           next_move (jb_env b) h (jb_request b) ans = Inl (query_of (evals ! (jb_calls b ! k)))))"

lemma those_length: "those xs = Some ys \<Longrightarrow> length ys = length xs"
  by (induction xs arbitrary: ys) (auto split: option.splits)

lemma those_nth: "those xs = Some ys \<Longrightarrow> k < length ys \<Longrightarrow> xs ! k = Some (ys ! k)"
  by (induction xs arbitrary: ys k) (auto split: option.splits simp: nth_Cons' less_Suc_eq_0_disj)

lemma those_take: "those xs = Some ys \<Longrightarrow> those (take k xs) = Some (take k ys)"
  by (induction xs arbitrary: ys k) (auto split: option.splits simp: take_Cons')

lemma those_snoc: "those (xs @ [x]) = (case those xs of None \<Rightarrow> None | Some ys \<Rightarrow> map_option (\<lambda>y. ys @ [y]) x)"
  by (induction xs) (auto split: option.splits simp: option.map_comp comp_def)

lemma answer_at_query: "answer_at evals i = Some (q, r) \<Longrightarrow> query_of (evals ! i) = q"
  by (auto simp: answer_at_def split: if_splits evaluation.splits)

lemma calls_bounded:
  assumes ok: "calls_ok h evals b" and ans: "answers_to evals (jb_calls b) = Some ans"
    and q: "next_move (jb_env b) h (jb_request b) ans = Inl q"
  shows "length (jb_calls b) < items h (jb_request b)"
proof -
  let ?q = "\<lambda>x. question_of (serve replay (jb_env b) h (jb_request b) ((x, None), zero_Metrics))"
  have len: "length ans = length (jb_calls b)" using those_length [OF ans] by simp
  have "in_turn ?q ans"
    unfolding in_turn_def
  proof (intro allI impI)
    fix k assume k: "k < length ans"
    have "answer_at evals (jb_calls b ! k) = Some (ans ! k)" using those_nth [OF ans k] k len by simp
    then have "query_of (evals ! (jb_calls b ! k)) = fst (ans ! k)" by (cases "ans ! k") (auto dest: answer_at_query)
    moreover have "answers_to evals (take k (jb_calls b)) = Some (take k ans)" using those_take [OF ans, of k] by (simp add: take_map)
    ultimately show "?q (take k ans) = Some (fst (ans ! k))"
      using ok k len by (auto simp: calls_ok_def next_move_question)
  qed
  with serve_questions [of "jb_env b" h "jb_request b" zero_Metrics ans q] q len show ?thesis
    by (simp add: next_move_question)
qed

text \<open>What an action leaves of an evaluation.\<close>

definition later :: "evaluation list \<Rightarrow> evaluation list \<Rightarrow> bool" where
  "later evals evals' \<longleftrightarrow> length evals \<le> length evals' \<and>
     (\<forall>i < length evals. query_of (evals' ! i) = query_of (evals ! i) \<and> steps_left (evals' ! i) \<le> steps_left (evals ! i) \<and>
        (answer_at evals i \<noteq> None \<longrightarrow> answer_at evals' i = answer_at evals i))"

lemma act_later: "later (sy_evals s) (sy_evals (act ForName a s))"
proof (cases a)
  case (Step j Post)
  have "steps_left (fst (advance ForName Post (sy_evals s ! j) (sy_shared s))) \<le> steps_left (sy_evals s ! j)"
    "query_of (fst (advance ForName Post (sy_evals s ! j) (sy_shared s))) = query_of (sy_evals s ! j)"
    using advance_progress [of ForName Post "sy_evals s ! j" "sy_shared s"] by auto
  then show ?thesis
    by (auto simp: Step later_def answer_at_def Let_def case_prod_beta nth_list_update split: if_splits evaluation.splits)
qed (auto simp: later_def answer_at_def nth_append)

lemma answers_later: "later evals evals' \<Longrightarrow> answers_to evals cs = Some ans \<Longrightarrow> answers_to evals' cs = Some ans"
proof (induction cs arbitrary: ans)
  case (Cons c cs)
  then obtain a where "answer_at evals c = Some a" by (auto split: option.splits)
  moreover from this have "c < length evals" by (auto simp: answer_at_def split: if_splits)
  ultimately have "answer_at evals' c = Some a" using Cons.prems(1) by (auto simp: later_def)
  with Cons \<open>answer_at evals c = Some a\<close> show ?case by (auto split: option.splits)
qed simp

lemma calls_later: "later evals evals' \<Longrightarrow> calls_ok h evals b \<Longrightarrow> calls_ok h evals' b"
  unfolding calls_ok_def using answers_later by (fastforce simp: later_def)

text \<open>The work that is left of a request: its open evaluation, and six steps for every question it may still ask.\<close>

definition job_left :: "Handler \<Rightarrow> evaluation list \<Rightarrow> job \<Rightarrow> nat" where
  "job_left h evals b =
     (if jb_outcome b \<noteq> None then 0
      else 1 + 6 * (items h (jb_request b) - length (jb_calls b)) +
        (if jb_calls b = [] then 0 else steps_left (evals ! last (jb_calls b))))"

lemma job_left_later: "later evals evals' \<Longrightarrow> calls_ok h evals b \<Longrightarrow> job_left h evals' b \<le> job_left h evals b"
  by (auto simp: job_left_def later_def calls_ok_def last_conv_nth)

lemma calls_ok_call:
  assumes ok: "calls_ok h evals b" and ans: "answers_to evals (jb_calls b) = Some ans"
    and q: "next_move (jb_env b) h (jb_request b) ans = Inl q"
  shows "calls_ok h (evals @ [Entered q]) (b\<lparr>jb_calls := jb_calls b @ [length evals]\<rparr>)"
proof -
  have l: "later evals (evals @ [Entered q])" by (auto simp: later_def answer_at_def nth_append)
  show ?thesis
    using calls_later [OF l ok] q answers_later [OF l ans]
    by (auto simp: calls_ok_def nth_append less_Suc_eq take_map)
qed

lemma calls_ok_outcome: "calls_ok h evals (b\<lparr>jb_outcome := out\<rparr>) = calls_ok h evals b"
  by (simp add: calls_ok_def)

abbreviation all_calls_ok :: "Handler \<Rightarrow> service \<Rightarrow> bool" where
  "all_calls_ok h s \<equiv> \<forall>b \<in> set (sv_jobs s). calls_ok h (sy_evals (sv_system s)) b"

lemma perform_later: "later (sy_evals (sv_system s)) (sy_evals (sv_system (perform ForName h a s)))"
proof (cases a)
  case (Resume j)
  show ?thesis unfolding Resume
    by (cases rule: resume_cases [of ForName h j s]) (simp_all add: later_def answer_at_def nth_append)
next
  case (Background x)
  then show ?thesis using act_later by simp
qed (simp add: later_def)

lemma perform_calls_ok:
  assumes "all_calls_ok h s"
  shows "all_calls_ok h (perform ForName h a s)"
proof (cases a)
  case (Resume j)
  show ?thesis
  proof (cases rule: resume_cases [of ForName h j s])
    case (call q ans)
    have "calls_ok h (sy_evals (sv_system s)) (sv_jobs s ! j)" using assms call(1) by simp
    moreover have "\<forall>b \<in> set (sv_jobs s). calls_ok h (sy_evals (sv_system s) @ [Entered q]) b"
      using assms calls_later [OF act_later, of h "sv_system s" _ ForName "Arrive q"] by simp
    ultimately show ?thesis
      unfolding Resume call(5) using calls_ok_call [OF _ call(3,4)] by (auto dest!: set_update_subset_insert [THEN subsetD])
  next
    case (finish out ans)
    then show ?thesis
      unfolding Resume finish(5) using assms by (auto dest!: set_update_subset_insert [THEN subsetD] simp: calls_ok_outcome)
  qed (use assms Resume in simp)
next
  case (Background x)
  then show ?thesis using assms calls_later [OF act_later] by auto
qed (use assms in \<open>auto simp: calls_ok_def\<close>)

lemma perform_all_append: "perform_all ForName h (as @ bs) s = perform_all ForName h bs (perform_all ForName h as s)"
  by (induction as arbitrary: s) simp_all

lemma perform_all_calls_ok: "all_calls_ok h s \<Longrightarrow> all_calls_ok h (perform_all ForName h as s)"
  by (induction as arbitrary: s) (simp_all add: perform_calls_ok)

section \<open>The moves of one request\<close>

text \<open>
  What can be done for a request: a step of the evaluation it waits for, or, when none is open, to resume it.
\<close>

definition own_move :: "nat \<Rightarrow> service \<Rightarrow> service_action \<Rightarrow> bool" where
  "own_move j s a \<longleftrightarrow> j < length (sv_jobs s) \<and>
     (let calls = jb_calls (sv_jobs s ! j); evals = sy_evals (sv_system s) in
      if calls = [] \<or> steps_left (evals ! last calls) = 0 then a = Resume j
      else case a of Background (Step i Post) \<Rightarrow> i = last calls | _ \<Rightarrow> False)"

fun own_moves :: "field_lookup \<Rightarrow> Handler \<Rightarrow> nat \<Rightarrow> service_action list \<Rightarrow> service \<Rightarrow> nat" where
  "own_moves ForName h j [] s = 0"
| "own_moves ForName h j (a # as) s = (if own_move j s a then 1 else 0) + own_moves ForName h j as (perform ForName h a s)"

lemma all_answered:
  assumes ok: "calls_ok h evals b" and "jb_calls b = [] \<or> steps_left (evals ! last (jb_calls b)) = 0"
  shows "answers_to evals (jb_calls b) \<noteq> None"
proof (cases "jb_calls b" rule: rev_cases)
  case (snoc cs c)
  then have c: "c < length evals" and "\<exists>ans. answers_to evals cs = Some ans"
    using ok by (auto simp: calls_ok_def dest: spec [of _ "length cs"])
  moreover have "answer_at evals c \<noteq> None"
    using steps_left_0 [of "evals ! c"] assms(2) snoc c by (auto simp: answer_at_def split: evaluation.splits)
  ultimately show ?thesis by (auto simp: snoc those_snoc)
qed simp

abbreviation left_of :: "Handler \<Rightarrow> nat \<Rightarrow> service \<Rightarrow> nat" where
  "left_of h j s \<equiv> job_left h (sy_evals (sv_system s)) (sv_jobs s ! j)"

lemma job_left_outcome [simp]: "job_left h evals (b\<lparr>jb_outcome := Some out\<rparr>) = 0"
  by (simp add: job_left_def)

lemma call_progress:
  assumes "calls_ok h evals b" and "jb_outcome b = None" and "answers_to evals (jb_calls b) = Some ans"
    and "next_move (jb_env b) h (jb_request b) ans = Inl q"
  shows "job_left h (evals @ [Entered q]) (b\<lparr>jb_calls := jb_calls b @ [length evals]\<rparr>) < job_left h evals b"
  using calls_bounded [OF assms(1,3,4)] assms(2) by (simp add: job_left_def)

lemma resume_progress:
  assumes "all_calls_ok h s" and "j < length (sv_jobs s)"
  shows "left_of h i (perform ForName h (Resume j) s) \<le> (if i = j \<and> own_move j s (Resume j) then left_of h i s - 1 else left_of h i s)
    \<or> \<not> i < length (sv_jobs s)"
proof (cases rule: resume_cases [of ForName h j s])
  case idle
  have ok: "calls_ok h (sy_evals (sv_system s)) (sv_jobs s ! j)" using assms by simp
  have "own_move j s (Resume j) \<Longrightarrow> jb_outcome (sv_jobs s ! j) \<noteq> None"
    using all_answered [OF ok] idle(2) assms(2) by (auto simp: own_move_def Let_def split: if_splits)
  then show ?thesis unfolding idle(1) by (auto simp: job_left_def)
next
  case (call q ans)
  have "later (sy_evals (sv_system s)) (sy_evals (sv_system s) @ [Entered q])"
    using act_later [of "sv_system s" ForName "Arrive q"] by simp
  then have "i < length (sv_jobs s) \<Longrightarrow> job_left h (sy_evals (sv_system s) @ [Entered q]) (sv_jobs s ! i) \<le> left_of h i s"
    using job_left_later assms(1) by simp
  with call_progress [OF _ call(2-4)] assms call(1) show ?thesis
    unfolding call(5) by (auto simp: nth_list_update)
next
  case (finish out ans)
  then show ?thesis unfolding finish(5) by (auto simp: nth_list_update)
qed

lemma step_progress:
  assumes ok: "calls_ok h evals b" and "jb_calls b \<noteq> []" and "later evals evals'"
    and "steps_left (evals' ! last (jb_calls b)) < steps_left (evals ! last (jb_calls b))"
  shows "job_left h evals' b \<le> job_left h evals b - 1"
  using assms by (auto simp: job_left_def)

definition same_job :: "job \<Rightarrow> job \<Rightarrow> bool" where
  "same_job b b' \<longleftrightarrow> jb_request b = jb_request b' \<and> jb_env b = jb_env b'"

lemma perform_progress:
  assumes ok: "all_calls_ok h s" and j: "j < length (sv_jobs s)"
  shows "left_of h j (perform ForName h a s) \<le> left_of h j s - (if own_move j s a then 1 else 0)
    \<and> j < length (sv_jobs (perform ForName h a s)) \<and> same_job (sv_jobs (perform ForName h a s) ! j) (sv_jobs s ! j)"
proof (cases a)
  case (Request r env)
  then show ?thesis using j by (auto simp: own_move_def same_job_def Let_def nth_append split: if_splits)
next
  case (Resume i)
  have "\<not> own_move j s (Resume i)" if "i \<noteq> j" using that by (auto simp: own_move_def Let_def split: if_splits)
  moreover have "j < length (sv_jobs (perform ForName h a s)) \<and> same_job (sv_jobs (perform ForName h a s) ! j) (sv_jobs s ! j)"
    unfolding Resume using j by (cases rule: resume_cases [of ForName h i s]) (auto simp: nth_list_update same_job_def simp del: perform.simps)
  moreover have "perform ForName h (Resume i) s = s" if "\<not> i < length (sv_jobs s)" using that by simp
  ultimately show ?thesis
    using resume_progress [OF ok, where j = i and i = j and ForName = ForName] j unfolding Resume by (cases "i = j"; cases "i < length (sv_jobs s)") (auto simp del: perform.simps)
next
  case (Background x)
  let ?b = "sv_jobs s ! j" and ?evals = "sy_evals (sv_system s)"
  have b: "calls_ok h ?evals ?b" using ok j by simp
  note l = act_later [of "sv_system s" ForName x]
  show ?thesis
  proof (cases "own_move j s a")
    case True
    then obtain Post where x: "x = Step (last (jb_calls ?b)) Post" and c: "jb_calls ?b \<noteq> []" "steps_left (?evals ! last (jb_calls ?b)) \<noteq> 0"
      by (auto simp: own_move_def Background Let_def split: if_splits action.splits)
    have "last (jb_calls ?b) < length ?evals" using b c(1) by (auto simp: calls_ok_def last_conv_nth)
    then have "steps_left (sy_evals (act ForName x (sv_system s)) ! last (jb_calls ?b)) < steps_left (?evals ! last (jb_calls ?b))"
      using advance_progress [of ForName Post "?evals ! last (jb_calls ?b)" "sy_shared (sv_system s)"] c(2)
      by (auto simp: x Let_def case_prod_beta)
    with step_progress [OF b c(1) l] True j show ?thesis by (simp add: Background same_job_def)
  next
    case False
    then show ?thesis using job_left_later [OF l b] j by (simp add: Background same_job_def)
  qed
qed

lemma run_moves:
  "all_calls_ok h s \<Longrightarrow> j < length (sv_jobs s) \<Longrightarrow>
   left_of h j (perform_all ForName h as s) \<le> left_of h j s - own_moves ForName h j as s
   \<and> j < length (sv_jobs (perform_all ForName h as s)) \<and> same_job (sv_jobs (perform_all ForName h as s) ! j) (sv_jobs s ! j)"
proof (induction as arbitrary: s)
  case (Cons a as)
  note step = perform_progress [OF Cons.prems, of ForName a]
  note rest = Cons.IH [OF perform_calls_ok [OF Cons.prems(1)], of ForName a]
  have "left_of h j (perform_all ForName h (a # as) s) \<le> left_of h j s - own_moves ForName h j (a # as) s"
    using rest step by (cases "own_move j s a") (fastforce simp del: perform.simps)+
  with rest step show ?case by (auto simp: same_job_def simp del: perform.simps)
qed (simp add: same_job_def)

section \<open>A request that stops asking has an outcome\<close>

definition settled :: "'a option \<times> (heard \<times> QueryInfo option) \<times> Metrics \<Rightarrow> bool" where
  "settled res \<longleftrightarrow> question_of res \<noteq> None \<or> fst res \<noteq> None"

lemma settled_simps [simp]:
  "settled (fail_with env msg ty code sm)" "settled (block_with env ty reason sm)" "settled (pass_with env h ty r b sm)"
  "settled (Some out, sm)" "settled (None, sm) \<longleftrightarrow> snd (fst sm) \<noteq> None"
  by (simp_all add: settled_def question_of_def fail_with_def block_with_def pass_with_def Let_def)

lemma replay_reply:
  "fst (replay q sm) = EvalPanics \<and> snd (fst (snd (replay q sm))) = Some q \<or> (\<exists>r. fst (replay q sm) = Returned r)"
  by (cases "(q, sm)" rule: replay.cases) auto

lemma evaluateAndForward_settled: "settled (evaluateAndForward replay env h r b q sm)"
  unfolding evaluateAndForward_def Let_def
  by (auto split: prod.split eval_reply.split) (metis eval_reply.distinct fst_conv snd_conv replay_reply settled_def question_of_def option.distinct(1))+

lemma batch_loop_settled: "settled (batch_loop replay env h r b i first reqs sm)"
proof (induction reqs arbitrary: i first sm)
  case (Cons req reqs)
  show ?case
  proof (cases "item_query env h req")
    case None
    then show ?thesis by (auto simp: item_query_def split: if_splits parse_reply.splits)
  next
    case (Some q)
    obtain reply sm1 where e: "replay q sm = (reply, sm1)" by (cases "replay q sm")
    with Cons.IH replay_reply [of q sm] show ?thesis
      unfolding batch_loop_Some [OF Some] e by (cases reply) auto
  qed
qed simp

lemma serve_settled: "settled (serve replay env h r sm)"
proof -
  have "settled (handleGraphQLBatch replay env h r b sm)" for b
    by (auto simp: handleGraphQLBatch_def batch_loop_settled split: option.split parse_reply.split)
  moreover have "settled (handleGraphQLSingle replay env h r b sm)" for b
    by (auto simp: handleGraphQLSingle_def evaluateAndForward_settled split: option.split parse_reply.split)
  ultimately have "settled (handleGraphQL replay env h r sm)"
    by (auto simp: handleGraphQL_def split: sum.split body_error.split)
  moreover have "settled (handleGraphQLGet replay env h r sm)"
    by (auto simp: handleGraphQLGet_def Let_def evaluateAndForward_settled split: option.split parse_reply.split)
  ultimately show ?thesis by (simp add: serve_def)
qed

lemma next_move_settled: "next_move env h r ans = Inr out \<Longrightarrow> \<exists>o'. out = Some o'"
  using serve_settled [of env h r "((ans, None), zero_Metrics)"]
  by (auto simp: next_move_def settled_def question_of_def split: prod.splits option.splits)

lemma next_move_crash:
  assumes "next_move env h r ans = Inr (Some Crash)"
  shows "\<exists>qs. carried h r = Some qs \<and> (\<exists>b \<in> set qs. parse_panics env (Query b))"
  by (rule serve_crash [of replay _ _ _ "((ans, None), zero_Metrics)"])
    (use assms in \<open>auto simp: next_move_def split: prod.splits option.splits\<close>)

section \<open>Properties\<close>

text \<open>
  C23: every request gets its answer. In any schedule of the service, with any number of other requests,
  evaluations, updates of the stores and ticks of the clock in between, a request for which more than
  \<open>6 * items\<close> moves of its own are made (steps of the evaluation it waits for, or resuming it when
  none is open) has its outcome: it is forwarded or responded to or, when the parser panics on one of its queries, the
  process ends. It is the outcome that the handler computes from the answers that evaluations of the run gave.
\<close>

theorem every_request_answered:
  assumes s: "s = perform_all ForName h as \<lparr>sv_system = s0, sv_jobs = []\<rparr>"
    and j: "j = length (sv_jobs s)"
    and s': "s' = perform_all ForName h (Request r env # bs) s"
    and moves: "6 * items h r < own_moves ForName h j (Request r env # bs) s"
  shows "\<exists>out ans. jb_outcome (sv_jobs s' ! j) = Some (Some out) \<and> next_move env h r ans = Inr (Some out) \<and>
    (\<forall>(q, res) \<in> set ans. Answered q res \<in> set (sy_evals (sv_system s'))) \<and>
    (out = Crash \<longrightarrow> (\<exists>qs. carried h r = Some qs \<and> (\<exists>b \<in> set qs. parse_panics env (Query b))))"
proof -
  let ?s = "perform ForName h (Request r env) s" and ?start = "\<lparr>sv_system = s0, sv_jobs = []\<rparr>"
  have ok: "all_calls_ok h ?s"
    using perform_calls_ok [OF perform_all_calls_ok [of ?start h ForName as], of ForName "Request r env"] unfolding s by simp
  have new: "jb_request (sv_jobs ?s ! j) = r" "jb_env (sv_jobs ?s ! j) = env" "left_of h j ?s = 6 * items h r + 1" "j < length (sv_jobs ?s)"
    by (simp_all add: j job_left_def)
  have "own_moves ForName h j (Request r env # bs) s = own_moves ForName h j bs ?s"
    by (simp add: own_move_def j)
  with run_moves [OF ok new(4), of ForName bs] moves new
  have b: "left_of h j s' = 0" "j < length (sv_jobs s')" "jb_request (sv_jobs s' ! j) = r" "jb_env (sv_jobs s' ! j) = env"
    by (simp_all add: s' same_job_def)
  then obtain out where out: "jb_outcome (sv_jobs s' ! j) = Some out" by (auto simp: job_left_def split: if_splits)
  have "s' = perform_all ForName h (as @ Request r env # bs) ?start" unfolding s' s by (rule perform_all_append [symmetric])
  then have "job_ok h (sv_system s') (sv_jobs s' ! j)"
    using perform_all_ok [of ?start h ForName s0 _ "as @ Request r env # bs"] begins [of ForName s0] b(2) by fastforce
  with out b(3,4) obtain ans where "next_move env h r ans = Inr out" "\<forall>(q, res) \<in> set ans. Answered q res \<in> set (sy_evals (sv_system s'))"
    unfolding job_ok_def by blast
  with next_move_settled next_move_crash out show ?thesis by blast
qed

lemma demo_items: "items demo_handler (post_request ''a'' demo_body) = 1"
  by (simp add: items_def demo_read demo_body_facts)

theorem every_request_answered_witness:
  "\<exists>out ans. jb_outcome (sv_jobs (perform_all find_field demo_handler
        ([Request (post_request ''a'' demo_body) demo_env, Resume 0] @ replicate 5 (Background (Step 0 no_post)) @ [Resume 0])
        \<lparr>sv_system = demo_system, sv_jobs = []\<rparr>) ! 0) = Some (Some out) \<and>
     next_move demo_env demo_handler (post_request ''a'' demo_body) ans = Inr (Some out)"
proof -
  let ?r = "post_request ''a'' demo_body" and ?start = "\<lparr>sv_system = demo_system, sv_jobs = []\<rparr>"
  let ?bs = "Resume 0 # replicate 5 (Background (Step 0 no_post)) @ [Resume 0]"
  have t: "in_TenantID (read_params demo_query st) = ''a''" for st
    by (simp add: read_params_def BuildInput_def demo_query_tenant)
  have "own_moves find_field demo_handler 0 (Request ?r demo_env # ?bs) ?start = 7"
    by (simp add: numeral_eq_Suc demo_moves(1) demo_system_def own_move_def answer_at_def Let_def case_prod_beta
        demo_composite_opa demo_reads(2) t effective_def)
  then have "6 * items demo_handler ?r < own_moves find_field demo_handler 0 (Request ?r demo_env # ?bs) ?start"
    by (simp add: demo_items)
  with every_request_answered [of ?start find_field demo_handler "[]" demo_system 0 _ ?r demo_env ?bs] show ?thesis
    by (fastforce simp del: perform.simps replicate.simps)
qed

end
