(* ===== verification/Json_Strings.thy ===== *)
theory Json_Strings
  imports Go_Json
begin

text \<open>
  The string encoder of \<open>encoding/json\<close> against its scanner: what is written for a string is
  scanned as one string and unquotes to the text with invalid UTF-8 replaced (\<open>scan_enc_body\<close>,
  \<open>unquote_enc_body\<close>). The compaction that \<open>Marshal\<close> applies to raw messages rewrites characters
  inside strings without changing what they unquote to.
\<close>

section \<open>Escapes\<close>

lemma is_hex_digit_char: "d < 16 \<Longrightarrow> is_hex (digit_char d) \<and> hex_val (digit_char d) = d"
  by (simp add: is_hex_def is_digit_def hex_val_def digit_char_def)

lemma to_base_16_hex: "c \<in> set (to_base 16 n) \<Longrightarrow> is_hex c \<and> hex_val c = digit_val c"
  using set_to_base [of 16 c n] is_hex_digit_char by force

lemma length_to_base_16: "n < 16 ^ k \<Longrightarrow> 0 < k \<Longrightarrow> length (to_base 16 n) \<le> k"
proof (induction k arbitrary: n)
  case (Suc k)
  show ?case
  proof (cases "n < 16")
    case True
    then show ?thesis by (simp add: to_base.simps [of 16 n])
  next
    case False
    then have "0 < k" using Suc.prems by (cases k) auto
    moreover have "n div 16 < 16 ^ k" using Suc.prems by (simp add: less_mult_imp_div_less)
    ultimately show ?thesis using Suc.IH False by (simp add: to_base.simps [of 16 n])
  qed
qed simp

lemma hex4_digits:
  assumes "n < 65536"
  obtains a b c d where "pad0 4 (to_base 16 n) = [a, b, c, d]" and "is_hex a" "is_hex b" "is_hex c" "is_hex d"
    and "((hex_val a * 16 + hex_val b) * 16 + hex_val c) * 16 + hex_val d = n"
proof -
  let ?p = "pad0 4 (to_base 16 n)"
  have "length ?p = 4" using length_to_base_16 [of n 4] assms by (simp add: pad0_def)
  then obtain a b c d where p: "?p = [a, b, c, d]"
    by (auto simp: numeral_eq_Suc length_Suc_conv)
  have zero: "is_hex (CHR ''0'') \<and> hex_val (CHR ''0'') = digit_val (CHR ''0'')"
    by (simp add: is_hex_def is_digit_def hex_val_def digit_val_def)
  have "is_hex x \<and> hex_val x = digit_val x" if "x \<in> set ?p" for x
    using that to_base_16_hex zero by (auto simp: pad0_def split: if_splits)
  then have x: "is_hex a \<and> is_hex b \<and> is_hex c \<and> is_hex d" "hex_val a = digit_val a" "hex_val b = digit_val b"
    "hex_val c = digit_val c" "hex_val d = digit_val d"
    using p by auto
  have "of_base 16 ?p = n" using of_base_to_base [of 16 n] by simp
  then have "((hex_val a * 16 + hex_val b) * 16 + hex_val c) * 16 + hex_val d = n"
    using p x by (simp add: of_base_def)
  with p x(1) that show ?thesis by blast
qed

lemma scan_str_u_escape:
  "n < 65536 \<Longrightarrow> scan_str (u_escape n @ t) = map_option (\<lambda>(b, r). (u_escape n @ b, r)) (scan_str t)"
  by (rule hex4_digits [of n]) (auto simp: u_escape_def simple_escape_def)

lemma unquote_u_escape:
  assumes "n < 65536" and "\<not> is_surrogate n"
  shows "unquote (u_escape n @ t) = encode_rune n @ unquote t"
proof (rule hex4_digits [OF assms(1)])
  fix a b c d
  assume p: "pad0 4 (to_base 16 n) = [a, b, c, d]" and "is_hex a" "is_hex b" "is_hex c" "is_hex d"
    and "((hex_val a * 16 + hex_val b) * 16 + hex_val c) * 16 + hex_val d = n"
  then have "hex4 (a # b # c # d # t) = Some n" by (simp add: hex4_def)
  then show ?thesis using p assms(2) by (simp add: u_escape_def unquote.simps(2))
qed

lemma enc_ascii_scan:
  "(of_char c :: nat) < 128 \<Longrightarrow> scan_str (enc_ascii c @ t) = map_option (\<lambda>(b, r). (enc_ascii c @ b, r)) (scan_str t)"
  by (auto simp: enc_ascii_def Let_def simple_escape_def scan_str_u_escape)

lemma char_eq_of_char: "c = c' \<longleftrightarrow> (of_char c :: nat) = of_char c'"
  by simp

lemma encode_rune_byte: "n < 128 \<Longrightarrow> encode_rune n = [char_of n]"
  by (simp add: encode_rune_def encode_valid_def valid_rune_def is_surrogate_def)

lemma enc_ascii_unquote:
  assumes "(of_char c :: nat) < 128"
  shows "unquote (enc_ascii c @ t) = c # unquote t"
proof -
  let ?n = "of_char c :: nat"
  have u: "unquote (u_escape ?n @ t) = c # unquote t"
    using assms by (subst unquote_u_escape) (auto simp: is_surrogate_def encode_rune_byte)
  show ?thesis
    using assms u
    by (auto simp: enc_ascii_def Let_def unquote.simps(2) escape_value_def char_eq_of_char)
qed

section \<open>Strings\<close>

definition is_contb :: "char \<Rightarrow> bool" where
  "is_contb c = is_cont (of_char c)"

text \<open>Decoding looks at nothing but the continuation bytes that follow.\<close>

lemma second_ok_contb: "second_ok b0 (of_char c) \<Longrightarrow> is_contb c"
  by (auto simp: second_ok_def is_contb_def is_cont_def split: if_splits)

lemma decode_rune_conts: "decode_rune (c # cs) = decode_rune (c # takeWhile is_contb cs)"
proof -
  have "decode2 b cs = decode2 b (takeWhile is_contb cs)" for b
    by (auto simp: decode2_def is_contb_def split: list.split)
  moreover have "decode3 b cs = decode3 b (takeWhile is_contb cs)" for b
    by (auto simp: decode3_def is_contb_def [symmetric] split: list.split dest: second_ok_contb)
  moreover have "decode4 b cs = decode4 b (takeWhile is_contb cs)" for b
    by (auto simp: decode4_def is_contb_def [symmetric] split: list.split dest: second_ok_contb)
  ultimately show ?thesis by (simp add: Let_def)
qed

lemma decode_rune_size_conts: "snd (decode_rune (c # cs)) \<le> Suc (length (takeWhile is_contb cs))"
  using decode_rune_size_le [of "c # takeWhile is_contb cs"] by (simp only: decode_rune_conts [of c cs] list.size)

lemma decode_rune_take:
  assumes "128 \<le> (of_char c :: nat)" and "decode_rune (c # cs) = (r, n)" and "\<not> (r = RuneError \<and> n = 1)"
  shows "decode_rune (take n (c # cs) @ t) = (r, n)"
  using assms by (auto simp: Let_def decode_defs split: list.splits if_splits)

text \<open>A string as it survives encoding: bytes that are not UTF-8 become the replacement character.\<close>

definition valid_text :: "string \<Rightarrow> string" where
  "valid_text s = concat (map encode_rune (runes s))"

lemma scan_str_high:
  "(\<And>x. x \<in> set u \<Longrightarrow> 128 \<le> (of_char x :: nat)) \<Longrightarrow>
   scan_str (u @ t) = map_option (\<lambda>(b, r). (u @ b, r)) (scan_str t)"
proof (induction u)
  case (Cons c u)
  from Cons.prems [of c] have "128 \<le> (of_char c :: nat)" by simp
  then have c: "c \<noteq> CHR 0x22" "c \<noteq> CHR 0x5C" "\<not> (of_char c :: nat) < 32" by (auto simp: char_eq_of_char)
  have "scan_str (u @ t) = map_option (\<lambda>(b, r). (u @ b, r)) (scan_str t)" using Cons by simp
  then show ?case using c by (simp add: option.map_comp comp_def case_prod_beta)
qed (simp add: option.map_id)

lemma rune_error_small: "RuneError < 65536" "\<not> is_surrogate RuneError" "\<not> is_surrogate 0x2028" "\<not> is_surrogate 0x2029"
  by (simp_all add: RuneError_def is_surrogate_def)

lemma scan_enc_body: "scan_str (enc_body s @ CHR 0x22 # t) = Some (enc_body s, t)"
proof (induction s rule: enc_body.induct)
  case (2 c cs)
  show ?case
  proof (cases "(of_char c :: nat) < 128")
    case True
    with 2(1) show ?thesis by (simp add: enc_body.simps(2) enc_ascii_scan)
  next
    case False
    obtain r n where d: "decode_rune (c # cs) = (r, n)" by fastforce
    have IH: "scan_str (enc_body (drop (n - 1) cs) @ CHR 0x22 # t) = Some (enc_body (drop (n - 1) cs), t)"
      using 2(2) [OF False d [symmetric] refl] .
    have high: "128 \<le> (of_char x :: nat)" if "x \<in> set (take n (c # cs))" for x
      using decode_rune_bytes_high [of c x cs] False d that by auto
    show ?thesis
      using False d IH rune_error_small
      by (auto simp: enc_body.simps(2) scan_str_u_escape scan_str_high [OF high] simp del: take_Suc_Cons take_Cons')
  qed
qed simp

lemma unquote_enc_body: "unquote (enc_body s) = valid_text s"
proof (induction s rule: enc_body.induct)
  case (2 c cs)
  show ?case
  proof (cases "(of_char c :: nat) < 128")
    case True
    with 2(1) show ?thesis
      by (simp add: enc_body.simps(2) enc_ascii_unquote valid_text_def runes.simps [of "c # cs"] encode_rune_byte)
  next
    case False
    obtain r n where d: "decode_rune (c # cs) = (r, n)" by fastforce
    have IH: "unquote (enc_body (drop (n - 1) cs)) = valid_text (drop (n - 1) cs)"
      using 2(2) [OF False d [symmetric] refl] .
    have n: "1 \<le> n" using decode_rune_size_pos [of "c # cs"] d by simp
    have v: "valid_text (c # cs) = encode_rune r @ valid_text (drop (n - 1) cs)"
      using d n by (cases n) (simp_all add: valid_text_def runes.simps [of "c # cs"])
    have raw: "unquote (take n (c # cs) @ t) = encode_rune r @ unquote t" if "\<not> (r = RuneError \<and> n = 1)" for t
    proof -
      obtain k where k: "n = Suc k" using n by (cases n) auto
      have "decode_rune (c # take k cs @ t) = (r, Suc k)" using decode_rune_take [OF _ d that, of t] False k by simp
      moreover have "length (take k cs) = k" using decode_rune_size_le [of "c # cs"] d k by simp
      moreover have "c \<noteq> CHR 0x5C" using False by (auto simp: char_eq_of_char)
      ultimately show ?thesis using False k by (simp add: unquote.simps(2))
    qed
    show ?thesis
      using False d IH v raw rune_error_small
      by (auto simp: enc_body.simps(2) unquote_u_escape simp del: take_Suc_Cons take_Cons')
  qed
qed (simp add: valid_text_def runes.simps)

lemma json_value_string: "json_value (Suc n) d (json_string s @ rest) = Some (JStr (valid_text s), rest)"
  by (simp add: json_string_def scan_enc_body unquote_enc_body)

section \<open>Compaction inside strings\<close>

abbreviation squeeze :: "string \<Rightarrow> string" where
  "squeeze \<equiv> compact_loop True"

declare compact_loop.simps(2) [simp del]

lemma scan_str_Some:
  "scan_str s = Some (b, t) \<Longrightarrow> s = b @ CHR 0x22 # t \<and> (\<forall>r. scan_str (b @ CHR 0x22 # r) = Some (b, r))"
proof (induction s arbitrary: b t rule: scan_str.induct)
  case (2 c cs)
  consider (quote) "c = CHR 0x22" | (slash) "c = CHR 0x5C" | (other) "c \<noteq> CHR 0x22" "c \<noteq> CHR 0x5C" by blast
  then show ?case
  proof cases
    case quote
    then show ?thesis using "2.prems" by simp
  next
    case other
    then obtain b' where b': "scan_str cs = Some (b', t)" "b = c # b'" "\<not> (of_char c :: nat) < 32"
      using "2.prems" by (auto split: if_splits)
    from "2.IH"(3) [OF other b'(3) b'(1)] show ?thesis using b' other by simp
  next
    case slash
    then obtain e es where cs: "cs = e # es" using "2.prems" by (cases cs) auto
    show ?thesis
    proof (cases "simple_escape e")
      case True
      then obtain b' where b': "scan_str es = Some (b', t)" "b = c # e # b'"
        using "2.prems" slash cs by auto
      have "c \<noteq> CHR 0x22" using slash by simp
      from "2.IH"(1) [OF this slash cs True b'(1)] show ?thesis using b' slash cs True by simp
    next
      case False
      then have u: "e = CHR ''u''" using "2.prems" slash cs by (auto split: if_splits)
      then obtain h1 h2 h3 h4 t' where es: "es = h1 # h2 # h3 # h4 # t'"
        and h: "is_hex h1 \<and> is_hex h2 \<and> is_hex h3 \<and> is_hex h4"
        using "2.prems" slash cs False by (auto split: list.splits if_splits)
      then obtain b' where b': "scan_str t' = Some (b', t)" "b = c # e # h1 # h2 # h3 # h4 # b'"
        using "2.prems" slash cs False u by auto
      have "c \<noteq> CHR 0x22" using slash by simp
      from "2.IH"(2) [OF this slash cs False u es refl refl refl h b'(1)]
      show ?thesis using b' slash cs False u es h by simp
    qed
  qed
qed simp

lemmas scan_str_tail = scan_str_Some [THEN conjunct2, rule_format]

definition body_ok :: "string \<Rightarrow> bool" where
  "body_ok b \<longleftrightarrow> (\<forall>r. scan_str (b @ CHR 0x22 # r) = Some (b, r))"

lemma body_ok_scan: "scan_str s = Some (b, t) \<Longrightarrow> body_ok b"
  by (simp add: body_ok_def scan_str_tail)

text \<open>The shapes of a string body.\<close>

lemma body_ok_cases:
  assumes "body_ok b"
  obtains "b = []"
    | e es where "b = CHR 0x5C # e # es" "simple_escape e" "body_ok es"
    | h1 h2 h3 h4 es where "b = CHR 0x5C # CHR ''u'' # h1 # h2 # h3 # h4 # es"
        "is_hex h1" "is_hex h2" "is_hex h3" "is_hex h4" "body_ok es"
    | c cs where "b = c # cs" "c \<noteq> CHR 0x22" "c \<noteq> CHR 0x5C" "\<not> (of_char c :: nat) < 32" "body_ok cs"
proof (cases b)
  case (Cons c cs)
  have s: "scan_str (c # cs @ [CHR 0x22]) = Some (c # cs, [])" using assms Cons by (simp add: body_ok_def)
  show ?thesis
  proof (cases "c = CHR 0x5C")
    case True
    with s obtain e es where cs: "cs = e # es" by (cases cs) (auto simp: simple_escape_def)
    show ?thesis
    proof (cases "simple_escape e")
      case True
      with s \<open>c = CHR 0x5C\<close> cs have "scan_str (es @ [CHR 0x22]) = Some (es, [])" by auto
      then show ?thesis using that(2) True Cons \<open>c = CHR 0x5C\<close> cs body_ok_scan by blast
    next
      case False
      with s \<open>c = CHR 0x5C\<close> cs have u: "e = CHR ''u''" by (auto split: if_splits)
      with s \<open>c = CHR 0x5C\<close> cs False obtain h1 h2 h3 h4 t where
        t: "es @ [CHR 0x22] = h1 # h2 # h3 # h4 # t" "is_hex h1" "is_hex h2" "is_hex h3" "is_hex h4"
        and st: "\<exists>b'. scan_str t = Some (b', []) \<and> cs = e # h1 # h2 # h3 # h4 # b'"
        by (auto split: list.splits if_splits)
      then obtain b' where "scan_str t = Some (b', [])" "es = h1 # h2 # h3 # h4 # b'" using cs by auto
      then show ?thesis using that(3) t u Cons \<open>c = CHR 0x5C\<close> cs body_ok_scan by blast
    qed
  next
    case False
    then have "c \<noteq> CHR 0x22" "\<not> (of_char c :: nat) < 32" "scan_str (cs @ [CHR 0x22]) = Some (cs, [])"
      using s by (auto split: if_splits)
    then show ?thesis using that(4) False Cons body_ok_scan by blast
  qed
qed (use that in blast)

lemma body_ok_Cons:
  "c \<noteq> CHR 0x22 \<Longrightarrow> c \<noteq> CHR 0x5C \<Longrightarrow> body_ok (c # cs) \<longleftrightarrow> \<not> (of_char c :: nat) < 32 \<and> body_ok cs"
  unfolding body_ok_def by auto

lemma squeeze_plain:
  "c \<notin> {CHR ''<'', CHR ''>'', CHR ''&'', CHR 0xE2, CHR 0x5C, CHR 0x22} \<Longrightarrow> squeeze (c # cs) = c # squeeze cs"
  by (simp add: compact_loop.simps(2))

lemma hex_plain: "is_hex h \<Longrightarrow> h \<notin> {CHR ''<'', CHR ''>'', CHR ''&'', CHR 0xE2, CHR 0x5C, CHR 0x22}"
  by (auto simp: is_hex_def is_digit_def)

lemma squeeze_hex [simp]: "is_hex h \<Longrightarrow> squeeze (h # cs) = h # squeeze cs"
  by (rule squeeze_plain) (rule hex_plain)

lemma squeeze_escape [simp]: "squeeze (CHR 0x5C # e # es) = CHR 0x5C # e # squeeze es"
  by (simp add: compact_loop.simps(2))

lemma contb_plain: "is_contb c \<Longrightarrow> c \<notin> {CHR ''<'', CHR ''>'', CHR ''&'', CHR 0xE2, CHR 0x5C, CHR 0x22}"
  by (auto simp: is_contb_def is_cont_def)

lemma squeeze_conts: "takeWhile is_contb (squeeze cs) = takeWhile is_contb cs"
proof (induction cs)
  case (Cons c cs)
  show ?case
  proof (cases "is_contb c")
    case True
    then show ?thesis using Cons squeeze_plain [OF contb_plain [OF True], of cs] by simp
  next
    case False
    have "\<not> is_contb (CHR 0x5C)" by (simp add: is_contb_def is_cont_def)
    then have "takeWhile is_contb (squeeze (c # cs)) = []"
      using False by (auto simp: compact_loop.simps(2) u_escape_def split: list.split)
    with False show ?thesis by simp
  qed
qed simp

lemma squeeze_drop:
  "n \<le> length (takeWhile is_contb cs) \<Longrightarrow> drop n (squeeze cs) = squeeze (drop n cs)"
proof (induction cs arbitrary: n)
  case (Cons c cs)
  show ?case
  proof (cases n)
    case (Suc k)
    then have c: "is_contb c" "k \<le> length (takeWhile is_contb cs)" using Cons.prems by (auto split: if_splits)
    then show ?thesis using Cons.IH Suc squeeze_plain [OF contb_plain [OF c(1)], of cs] by simp
  qed simp
qed simp

lemma body_ok_drop:
  "body_ok cs \<Longrightarrow> n \<le> length (takeWhile is_contb cs) \<Longrightarrow> body_ok (drop n cs)"
proof (induction cs arbitrary: n)
  case (Cons c cs)
  show ?case
  proof (cases n)
    case 0
    then show ?thesis using Cons.prems by simp
  next
    case (Suc k)
    then have c: "is_contb c" "k \<le> length (takeWhile is_contb cs)" using Cons.prems by (auto split: if_splits)
    then have "body_ok cs" using Cons.prems(1) contb_plain [OF c(1)] body_ok_Cons [of c cs] by simp
    then show ?thesis using Cons.IH c(2) Suc by simp
  qed
qed simp

text \<open>The line separators U+2028 and U+2029.\<close>

lemma separator_bytes:
  "encode_rune 0x2028 = [CHR 0xE2, CHR 0x80, CHR 0xA8]" "encode_rune 0x2029 = [CHR 0xE2, CHR 0x80, CHR 0xA9]"
  "decode_rune (CHR 0xE2 # CHR 0x80 # CHR 0xA8 # t) = (0x2028, 3)"
  "decode_rune (CHR 0xE2 # CHR 0x80 # CHR 0xA9 # t) = (0x2029, 3)"
  by (simp_all add: encode_rune_def encode_valid_def valid_rune_def is_surrogate_def decode3_def second_ok_def is_cont_def
      char_eq_of_char)

lemma HasPrefix_Cons [simp]: "HasPrefix s [] " "HasPrefix (c # s) (d # p) \<longleftrightarrow> c = d \<and> HasPrefix s p" "\<not> HasPrefix [] (d # p)"
  by (auto simp: HasPrefix_def)

lemma HasPrefix_two: "HasPrefix cs [a, b] \<longleftrightarrow> (\<exists>t. cs = a # b # t)"
  by (cases cs rule: remdups_adj.cases) auto

lemma squeeze_sep:
  "squeeze (CHR 0xE2 # CHR 0x80 # CHR 0xA8 # t) = u_escape 0x2028 @ squeeze t"
  "squeeze (CHR 0xE2 # CHR 0x80 # CHR 0xA9 # t) = u_escape 0x2029 @ squeeze t"
  by (simp_all add: compact_loop.simps(2))

lemma squeeze_html: "c \<in> {CHR ''<'', CHR ''>'', CHR ''&''} \<Longrightarrow> squeeze (c # cs) = u_escape (of_char c) @ squeeze cs"
  by (auto simp: compact_loop.simps(2))

lemma squeeze_E2:
  "\<nexists>t. cs = CHR 0x80 # CHR 0xA8 # t \<Longrightarrow> \<nexists>t. cs = CHR 0x80 # CHR 0xA9 # t \<Longrightarrow>
   squeeze (CHR 0xE2 # cs) = CHR 0xE2 # squeeze cs"
  by (simp add: compact_loop.simps(2) HasPrefix_two)

text \<open>The ways in which compaction goes on, one construct of a string body at a time.\<close>

lemma body_ok_squeeze_cases:
  assumes "body_ok b"
  obtains (Nil) "b = []"
    | (Esc) e es where "b = CHR 0x5C # e # es" "simple_escape e" "body_ok es"
    | (Uni) h1 h2 h3 h4 es where "b = CHR 0x5C # CHR ''u'' # h1 # h2 # h3 # h4 # es"
        "is_hex h1" "is_hex h2" "is_hex h3" "is_hex h4" "body_ok es"
    | (Html) c cs where "b = c # cs" "c \<in> {CHR ''<'', CHR ''>'', CHR ''&''}" "body_ok cs"
    | (Sep) r cs where "b = encode_rune r @ cs" "r \<in> {0x2028, 0x2029}" "body_ok cs" "squeeze b = u_escape r @ squeeze cs"
    | (Plain) c cs where "b = c # cs" "c \<noteq> CHR 0x22" "c \<noteq> CHR 0x5C" "\<not> (of_char c :: nat) < 32" "body_ok cs"
        "squeeze b = c # squeeze cs"
  using assms
proof (rule body_ok_cases)
  fix c cs
  assume b: "b = c # cs" "c \<noteq> CHR 0x22" "c \<noteq> CHR 0x5C" "\<not> (of_char c :: nat) < 32" "body_ok cs"
  consider "c \<in> {CHR ''<'', CHR ''>'', CHR ''&''}" | "c = CHR 0xE2" "\<exists>t. cs = CHR 0x80 # CHR 0xA8 # t"
    | "c = CHR 0xE2" "\<exists>t. cs = CHR 0x80 # CHR 0xA9 # t"
    | "c = CHR 0xE2" "\<nexists>t. cs = CHR 0x80 # CHR 0xA8 # t" "\<nexists>t. cs = CHR 0x80 # CHR 0xA9 # t"
    | "c \<notin> {CHR ''<'', CHR ''>'', CHR ''&'', CHR 0xE2, CHR 0x5C, CHR 0x22}"
    using b(2,3) by (cases "c = CHR 0xE2") auto
  then show ?thesis
  proof cases
    case 1
    then show ?thesis by (rule Html [OF b(1) _ b(5)])
  next
    case 2
    then obtain t where t: "cs = CHR 0x80 # CHR 0xA8 # t" by blast
    then have "body_ok t" using b(5) by (auto simp: body_ok_Cons)
    then show ?thesis
      using t b(1) 2(1) by (intro Sep [where r = "0x2028" and cs = t]) (simp_all add: separator_bytes squeeze_sep)
  next
    case 3
    then obtain t where t: "cs = CHR 0x80 # CHR 0xA9 # t" by blast
    then have "body_ok t" using b(5) by (auto simp: body_ok_Cons)
    then show ?thesis
      using t b(1) 3(1) by (intro Sep [where r = "0x2029" and cs = t]) (simp_all add: separator_bytes squeeze_sep)
  next
    case 4
    then show ?thesis by (intro Plain [OF b]) (simp add: b(1) squeeze_E2)
  next
    case 5
    then show ?thesis by (intro Plain [OF b]) (unfold b(1), rule squeeze_plain)
  qed
next
  fix e es
  assume "b = CHR 0x5C # e # es" "simple_escape e" "body_ok es"
  then show ?thesis by (rule Esc)
next
  fix h1 h2 h3 h4 es
  assume "b = CHR 0x5C # CHR ''u'' # h1 # h2 # h3 # h4 # es" "is_hex h1" "is_hex h2" "is_hex h3" "is_hex h4" "body_ok es"
  then show ?thesis by (rule Uni)
qed (rule Nil)

lemma squeeze_scan: "body_ok b \<Longrightarrow> scan_str (squeeze b @ CHR 0x22 # r) = Some (squeeze b, r)"
proof (induction b rule: length_induct)
  case (1 b)
  from 1(2) show ?case
  proof (cases rule: body_ok_squeeze_cases)
    case (Html c cs)
    then have "scan_str (squeeze cs @ CHR 0x22 # r) = Some (squeeze cs, r)" using 1(1) by simp
    moreover have "(of_char c :: nat) < 65536" using Html(2) by auto
    ultimately show ?thesis using Html(1) squeeze_html [OF Html(2), of cs] by (simp add: scan_str_u_escape)
  next
    case (Sep q cs)
    then have "length cs < length b" using encode_rune_nonempty [of q] by simp
    then have "scan_str (squeeze cs @ CHR 0x22 # r) = Some (squeeze cs, r)" using 1(1) Sep(3) by simp
    moreover have "q < 65536" using Sep(2) by auto
    ultimately show ?thesis using Sep(4) by (simp add: scan_str_u_escape)
  next
    case (Plain c cs)
    then have "scan_str (squeeze cs @ CHR 0x22 # r) = Some (squeeze cs, r)" using 1(1) by simp
    with Plain show ?thesis by simp
  next
    case (Esc e es)
    then have "scan_str (squeeze es @ CHR 0x22 # r) = Some (squeeze es, r)" using 1(1) by simp
    with Esc show ?thesis by simp
  next
    case (Uni h1 h2 h3 h4 es)
    then have "scan_str (squeeze es @ CHR 0x22 # r) = Some (squeeze es, r)" using 1(1) by simp
    with Uni show ?thesis by (simp add: simple_escape_def)
  qed simp
qed

text \<open>A high surrogate followed by an escaped character that compaction introduced is no pair.\<close>

lemma hex4_Some: "is_hex h1 \<Longrightarrow> is_hex h2 \<Longrightarrow> is_hex h3 \<Longrightarrow> is_hex h4 \<Longrightarrow> \<exists>n. \<forall>t. hex4 (h1 # h2 # h3 # h4 # t) = Some n"
  by (auto simp: hex4_def)

lemma getu4_u_escape: "n < 65536 \<Longrightarrow> getu4 (u_escape n @ t) = Some n"
  by (rule hex4_digits [of n]) (auto simp: u_escape_def getu4_def hex4_def)

lemma getu4_squeeze:
  assumes "body_ok b"
  shows "(\<exists>h1 h2 h3 h4 es. b = CHR 0x5C # CHR ''u'' # h1 # h2 # h3 # h4 # es \<and> body_ok es \<and>
           squeeze b = CHR 0x5C # CHR ''u'' # h1 # h2 # h3 # h4 # squeeze es \<and>
           (\<exists>x. getu4 b = Some x \<and> getu4 (squeeze b) = Some x)) \<or>
         getu4 b = None \<and> (\<forall>x. getu4 (squeeze b) = Some x \<longrightarrow> x < 0xDC00)"
  using assms
proof (cases rule: body_ok_squeeze_cases)
  case (Html c cs)
  have "(of_char c :: nat) < 0xDC00" using Html(2) by auto
  moreover from this have "getu4 (squeeze b) = Some (of_char c)"
    using Html(1) squeeze_html [OF Html(2), of cs] by (simp add: getu4_u_escape)
  moreover have "getu4 b = None" using Html(1,2) by (auto simp: getu4_def split: list.split)
  ultimately show ?thesis by simp
next
  case (Sep q cs)
  have "q < 0xDC00" using Sep(2) by auto
  moreover from this have "getu4 (squeeze b) = Some q" using Sep(4) by (simp add: getu4_u_escape)
  moreover have "getu4 b = None" using Sep(1,2) by (auto simp: separator_bytes getu4_def)
  ultimately show ?thesis by simp
next
  case (Plain c cs)
  then have "getu4 b = None" "getu4 (squeeze b) = None" by (auto simp: getu4_def split: list.split)
  then show ?thesis by simp
next
  case (Esc e es)
  then have "getu4 b = None" "getu4 (squeeze b) = None" by (auto simp: getu4_def simple_escape_def)
  then show ?thesis by simp
next
  case (Uni h1 h2 h3 h4 es)
  then show ?thesis by (auto simp: getu4_def hex4_def)
qed (simp add: getu4_def)

lemma squeeze_unquote: "body_ok b \<Longrightarrow> unquote (squeeze b) = unquote b"
proof (induction b rule: length_induct)
  case (1 b)
  note IH = 1(1) [rule_format]
  from 1(2) show ?case
  proof (cases rule: body_ok_squeeze_cases)
    case (Html c cs)
    have c: "(of_char c :: nat) < 128" "c \<noteq> CHR 0x5C" using Html(2) by auto
    have "unquote (squeeze b) = encode_rune (of_char c) @ unquote (squeeze cs)"
      using Html(1) squeeze_html [OF Html(2), of cs] c by (simp add: unquote_u_escape is_surrogate_def)
    then show ?thesis using IH [of cs] Html c by (simp add: encode_rune_byte unquote.simps(2) [of c cs])
  next
    case (Sep q cs)
    then have "length cs < length b" using encode_rune_nonempty [of q] by simp
    moreover have "unquote b = encode_rune q @ unquote cs"
      using Sep(1,2) by (auto simp: separator_bytes unquote.simps(2) simp del: decode_rune.simps)
    moreover have "unquote (squeeze b) = encode_rune q @ unquote (squeeze cs)"
      using Sep(2,4) rune_error_small by (auto simp: unquote_u_escape)
    ultimately show ?thesis using IH [of cs] Sep(3) by simp
  next
    case (Esc e es)
    then show ?thesis using IH [of es] by (auto simp: unquote.simps(2) simple_escape_def)
  next
    case (Plain c cs)
    show ?thesis
    proof (cases "(of_char c :: nat) < 128")
      case True
      then show ?thesis using Plain IH [of cs] by (simp add: unquote.simps(2))
    next
      case False
      let ?n = "snd (decode_rune (c # cs))"
      have d: "decode_rune (c # squeeze cs) = decode_rune (c # cs)"
        using decode_rune_conts [of c cs] decode_rune_conts [of c "squeeze cs"] squeeze_conts [of cs] by simp
      have n: "?n - 1 \<le> length (takeWhile is_contb cs)" using decode_rune_size_conts [of c cs] by linarith
      have "length (drop (?n - 1) cs) < length b" using Plain(1) by simp
      with IH [OF this body_ok_drop [OF Plain(5) n]] squeeze_drop [OF n] show ?thesis
        using False Plain(1,3,6) d by (simp add: unquote.simps(2) del: decode_rune.simps)
    qed
  next
    case (Uni h1 h2 h3 h4 es)
    obtain rr where rr: "\<And>t. hex4 (h1 # h2 # h3 # h4 # t) = Some rr" using hex4_Some Uni(2-5) by blast
    have sq: "squeeze b = CHR 0x5C # CHR ''u'' # h1 # h2 # h3 # h4 # squeeze es" using Uni by simp
    have es: "unquote (squeeze es) = unquote es" using IH [of es] Uni(1,6) by simp
    from getu4_squeeze [OF Uni(6)] show ?thesis
    proof
      assume "\<exists>g1 g2 g3 g4 t. es = CHR 0x5C # CHR ''u'' # g1 # g2 # g3 # g4 # t \<and> body_ok t \<and>
         squeeze es = CHR 0x5C # CHR ''u'' # g1 # g2 # g3 # g4 # squeeze t \<and> (\<exists>x. getu4 es = Some x \<and> getu4 (squeeze es) = Some x)"
      then obtain g1 g2 g3 g4 t x where t: "es = CHR 0x5C # CHR ''u'' # g1 # g2 # g3 # g4 # t" "body_ok t"
        "squeeze es = CHR 0x5C # CHR ''u'' # g1 # g2 # g3 # g4 # squeeze t" "getu4 es = Some x" "getu4 (squeeze es) = Some x"
        by blast
      have "unquote (squeeze t) = unquote t" using IH [of t] t(1,2) Uni(1) by simp
      moreover have "drop 6 es = t" "drop 6 (squeeze es) = squeeze t" using t(1,3) by auto
      ultimately show ?thesis
        unfolding sq using Uni(1) es t(4,5) by (simp add: unquote.simps(2) rr)
    next
      assume "getu4 es = None \<and> (\<forall>x. getu4 (squeeze es) = Some x \<longrightarrow> x < 0xDC00)"
      then have "getu4 es = None" "\<And>x. getu4 (squeeze es) = Some x \<Longrightarrow> decode_surrogates rr x = RuneError"
        by (auto simp: decode_surrogates_def)
      then show ?thesis
        unfolding sq using Uni(1) es by (auto simp: unquote.simps(2) rr Let_def split: option.split)
    qed
  qed simp
qed

lemma squeeze_close: "body_ok b \<Longrightarrow> squeeze (b @ CHR 0x22 # t) = squeeze b @ CHR 0x22 # compact_loop False t"
proof (induction b rule: length_induct)
  case (1 b)
  note IH = 1(1) [rule_format]
  from 1(2) show ?case
  proof (cases rule: body_ok_squeeze_cases)
    case Nil
    then show ?thesis by (simp add: compact_loop.simps(2))
  next
    case (Html c cs)
    then show ?thesis using IH [of cs] squeeze_html [OF Html(2)] by simp
  next
    case (Sep q cs)
    then have "length cs < length b" using encode_rune_nonempty [of q] by simp
    then show ?thesis using IH [of cs] Sep squeeze_sep by (auto simp: separator_bytes)
  next
    case (Esc e es)
    then show ?thesis using IH [of es] by simp
  next
    case (Uni h1 h2 h3 h4 es)
    then show ?thesis using IH [of es] by simp
  next
    case (Plain c cs)
    have "squeeze (c # cs @ CHR 0x22 # t) = c # squeeze (cs @ CHR 0x22 # t)"
    proof (cases "c = CHR 0xE2")
      case True
      have "squeeze (CHR 0xE2 # CHR 0x80 # CHR 0xA8 # x) \<noteq> CHR 0xE2 # y" "squeeze (CHR 0xE2 # CHR 0x80 # CHR 0xA9 # x) \<noteq> CHR 0xE2 # y" for x y
        by (simp_all add: squeeze_sep u_escape_def)
      then have "\<nexists>x. cs = CHR 0x80 # CHR 0xA8 # x" "\<nexists>x. cs = CHR 0x80 # CHR 0xA9 # x" using Plain(1,6) True by auto
      then show ?thesis unfolding True by (intro squeeze_E2) (auto simp: append_eq_Cons_conv Cons_eq_append_conv)
    next
      case False
      have "c \<notin> {CHR ''<'', CHR ''>'', CHR ''&''}"
        using Plain(1,6) squeeze_html [of c cs] by (auto simp: u_escape_def)
      then show ?thesis using False Plain(2,3) by (intro squeeze_plain) simp
    qed
    then show ?thesis using IH [of cs] Plain by simp
  qed
qed

end
