(* ===== verification/Json_Roundtrip.thy ===== *)
theory Json_Roundtrip
  imports Json_Strings
begin

text \<open>
  Compacting a JSON value gives a JSON value that decodes to the same data
  (\<open>json_whole_compacted\<close>, \<open>unmarshal_map_compacted\<close>), and the text of an object whose members
  are encoded strings and compacted values is parsed into those members. The nesting of a value is
  what decides whether it still parses one level deeper.
\<close>

section \<open>Numbers\<close>

definition numchar :: "char \<Rightarrow> bool" where
  "numchar c \<longleftrightarrow> is_digit c \<or> c \<in> {CHR ''-'', CHR ''+'', CHR ''.'', CHR ''e'', CHR ''E''}"

definition no_digit :: "string \<Rightarrow> bool" where
  "no_digit r \<longleftrightarrow> (\<forall>c t. r = c # t \<longrightarrow> \<not> is_digit c)"

definition delim :: "string \<Rightarrow> bool" where
  "delim r \<longleftrightarrow> (\<forall>c t. r = c # t \<longrightarrow> c \<in> {CHR '','', CHR 0x7D, CHR 0x5D})"

lemma digits1_iff:
  "digits1 s = Some t \<longleftrightarrow> (\<exists>ds. s = ds @ t \<and> ds \<noteq> [] \<and> list_all is_digit ds \<and> no_digit t)"
proof
  assume "digits1 s = Some t"
  then have "takeWhile is_digit s \<noteq> []" "t = dropWhile is_digit s" by (auto simp: digits1_def split: if_splits)
  moreover from this(2) have "no_digit t"
    using hd_dropWhile [of is_digit s] unfolding no_digit_def by (metis list.distinct(1) list.sel(1))
  ultimately show "\<exists>ds. s = ds @ t \<and> ds \<noteq> [] \<and> list_all is_digit ds \<and> no_digit t"
    by (intro exI [of _ "takeWhile is_digit s"]) (auto simp: list_all_iff dest: set_takeWhileD)
next
  assume "\<exists>ds. s = ds @ t \<and> ds \<noteq> [] \<and> list_all is_digit ds \<and> no_digit t"
  then obtain ds where ds: "s = ds @ t" "ds \<noteq> []" "\<forall>x \<in> set ds. is_digit x" "no_digit t" by (auto simp: list_all_iff)
  have "takeWhile is_digit t = []" "dropWhile is_digit t = t" using ds(4) by (cases t; simp add: no_digit_def)+
  with ds show "digits1 s = Some t" by (simp add: digits1_def takeWhile_append2 dropWhile_append2)
qed

lemma digits_numchar: "list_all is_digit ds \<Longrightarrow> list_all numchar ds"
  by (auto simp: list_all_iff numchar_def)

lemma num_int_again:
  assumes "num_int s = Some t"
  shows "\<exists>u. s = u @ t \<and> u \<noteq> [] \<and> list_all numchar u \<and> (\<forall>r. no_digit r \<longrightarrow> num_int (u @ r) = Some r)"
proof -
  obtain c s' where s: "s = c # s'" using assms by (cases s) (auto simp: num_int_def)
  show ?thesis
  proof (cases "c = CHR ''0''")
    case True
    then show ?thesis using assms s by (intro exI [of _ "[c]"]) (auto simp: num_int_def numchar_def is_digit_def)
  next
    case False
    then obtain ds where ds: "s = ds @ t" "ds \<noteq> []" "list_all is_digit ds"
      using assms s by (auto simp: num_int_def digits1_iff)
    have "num_int (ds @ r) = Some r" if "no_digit r" for r
    proof -
      have "digits1 (ds @ r) = Some r" using ds that digits1_iff by blast
      then show ?thesis using ds(1,2) s False by (cases ds) (auto simp: num_int_def)
    qed
    with ds show ?thesis using digits_numchar by blast
  qed
qed

lemma num_frac_again:
  assumes "num_frac s = Some t"
  shows "\<exists>u. s = u @ t \<and> list_all numchar u \<and> (u = [] \<or> hd u = CHR ''.'') \<and>
    (\<forall>r. no_digit r \<and> (\<nexists>r'. r = CHR ''.'' # r') \<longrightarrow> num_frac (u @ r) = Some r)"
proof (cases "expect (CHR ''.'') s")
  case None
  then show ?thesis using assms by (intro exI [of _ "[]"]) (auto simp: num_frac_def expect_Some split: option.split)
next
  case (Some s')
  then obtain ds where ds: "s' = ds @ t" "ds \<noteq> []" "list_all is_digit ds"
    using assms by (auto simp: num_frac_def digits1_iff)
  have "num_frac (CHR ''.'' # ds @ r) = Some r" if "no_digit r" for r
    using ds that by (auto simp: num_frac_def expect_def digits1_iff)
  then show ?thesis
    using Some ds digits_numchar [OF ds(3)] by (intro exI [of _ "CHR ''.'' # ds"]) (auto simp: expect_Some numchar_def)
qed

lemma num_exp_again:
  assumes "num_exp s = Some t"
  shows "\<exists>u. s = u @ t \<and> list_all numchar u \<and> (u = [] \<or> hd u = CHR ''e'' \<or> hd u = CHR ''E'') \<and>
    (\<forall>r. delim r \<longrightarrow> num_exp (u @ r) = Some r)"
proof -
  have nd: "no_digit r" if "delim r" for r using that by (auto simp: no_digit_def delim_def is_digit_def)
  have nil: "num_exp r = Some r" if "delim r" for r using that by (auto simp: num_exp_def delim_def split: list.split)
  show ?thesis
  proof (cases "\<exists>c r. s = c # r \<and> (c = CHR ''e'' \<or> c = CHR ''E'')")
    case False
    then have "t = s" using assms by (auto simp: num_exp_def split: list.splits)
    then show ?thesis using nil by (intro exI [of _ "[]"]) auto
  next
    case True
    then obtain c d r where s: "s = c # d # r" "c = CHR ''e'' \<or> c = CHR ''E''"
      using assms by (auto simp: num_exp_def split: list.splits)
    show ?thesis
    proof (cases "d = CHR ''+'' \<or> d = CHR ''-''")
      case True
      then obtain ds where ds: "r = ds @ t" "ds \<noteq> []" "list_all is_digit ds"
        using assms s by (auto simp: num_exp_def digits1_iff)
      have "num_exp (c # d # ds @ x) = Some x" if "delim x" for x
        using True s(2) ds nd [OF that] digits1_iff by (auto simp: num_exp_def)
      then show ?thesis
        using s True ds digits_numchar [OF ds(3)] by (intro exI [of _ "c # d # ds"]) (auto simp: numchar_def)
    next
      case False
      then obtain ds where ds: "d # r = ds @ t" "ds \<noteq> []" "list_all is_digit ds"
        using assms s by (auto simp: num_exp_def digits1_iff)
      then obtain ds' where ds': "ds = d # ds'" by (cases ds) auto
      have "num_exp (c # ds @ x) = Some x" if "delim x" for x
      proof -
        have "digits1 (ds @ x) = Some x" using ds nd [OF that] digits1_iff by blast
        then show ?thesis using False s(2) ds' by (auto simp: num_exp_def)
      qed
      then show ?thesis
        using s ds digits_numchar [OF ds(3)] by (intro exI [of _ "c # ds"]) (auto simp: numchar_def)
    qed
  qed
qed

lemma scan_number_again:
  assumes "scan_number s = Some t"
  shows "\<exists>u. s = u @ t \<and> u \<noteq> [] \<and> list_all numchar u \<and> (\<forall>r. delim r \<longrightarrow> scan_number (u @ r) = Some r)"
proof -
  define m where "m = (case expect (CHR ''-'') s of None \<Rightarrow> s | Some r \<Rightarrow> r)"
  obtain sg where sg: "s = sg @ m" "sg = [] \<or> sg = [CHR ''-'']" "sg = [] \<Longrightarrow> \<nexists>r. s = CHR ''-'' # r"
    by (cases "expect (CHR ''-'') s") (auto simp: m_def expect_Some expect_def split: list.splits if_splits)
  from assms obtain s1 s2 where n: "num_int m = Some s1" "num_frac s1 = Some s2" "num_exp s2 = Some t"
    by (auto simp: scan_number_def m_def bind_eq_Some_conv)
  obtain i where i: "m = i @ s1" "i \<noteq> []" "list_all numchar i" "\<And>r. no_digit r \<Longrightarrow> num_int (i @ r) = Some r"
    using num_int_again [OF n(1)] by blast
  obtain f where f: "s1 = f @ s2" "list_all numchar f" "f = [] \<or> hd f = CHR ''.''"
    "\<And>r. no_digit r \<Longrightarrow> \<nexists>r'. r = CHR ''.'' # r' \<Longrightarrow> num_frac (f @ r) = Some r"
    using num_frac_again [OF n(2)] by blast
  obtain e where e: "s2 = e @ t" "list_all numchar e" "e = [] \<or> hd e = CHR ''e'' \<or> hd e = CHR ''E''"
    "\<And>r. delim r \<Longrightarrow> num_exp (e @ r) = Some r"
    using num_exp_again [OF n(3)] by blast
  have "scan_number ((sg @ i @ f @ e) @ r) = Some r" if r: "delim r" for r
  proof -
    have er: "no_digit (e @ r)" "\<nexists>r'. e @ r = CHR ''.'' # r'"
      using e(3) r by (cases e; auto simp: no_digit_def delim_def is_digit_def)+
    have fr: "no_digit (f @ e @ r)" using f(3) er(1) by (cases f) (auto simp: no_digit_def is_digit_def)
    have "(case expect (CHR ''-'') (sg @ i @ f @ e @ r) of None \<Rightarrow> sg @ i @ f @ e @ r | Some x \<Rightarrow> x) = i @ f @ e @ r"
      using sg i(1,2) by (cases i) (auto simp: expect_def split: if_splits)
    then show ?thesis using i(4) [OF fr] f(4) [OF er] e(4) [OF r] by (simp add: scan_number_def)
  qed
  moreover have "list_all numchar sg" using sg(2) by (auto simp: numchar_def)
  ultimately show ?thesis
    using sg(1) i f e by (intro exI [of _ "sg @ i @ f @ e"]) auto
qed

section \<open>Compaction of a whole value\<close>

abbreviation compacted :: "string \<Rightarrow> string" where
  "compacted \<equiv> compact_loop False"

lemma compacted_plain:
  "c \<notin> {CHR ''<'', CHR ''>'', CHR ''&'', CHR 0xE2, CHR 0x22} \<Longrightarrow> \<not> is_ws c \<Longrightarrow> compacted (c # cs) = c # compacted cs"
  by (simp add: compact_loop.simps(2))

lemma compacted_ws: "is_ws c \<Longrightarrow> compacted (c # cs) = compacted cs"
  by (auto simp: compact_loop.simps(2) is_ws_def)

lemma compacted_skip: "compacted (skip_ws s) = compacted s"
  by (induction s) (auto simp: skip_ws_def compacted_ws)

lemma compacted_numchars: "list_all numchar u \<Longrightarrow> compacted (u @ t) = u @ compacted t"
proof (induction u)
  case (Cons c u)
  then have "c \<notin> {CHR ''<'', CHR ''>'', CHR ''&'', CHR 0xE2, CHR 0x22}" "\<not> is_ws c"
    by (auto simp: numchar_def is_digit_def is_ws_def)
  then show ?case using Cons compacted_plain by simp
qed simp

lemma compacted_string:
  assumes "scan_str s = Some (b, t)"
  shows "compacted (CHR 0x22 # s) = CHR 0x22 # squeeze b @ CHR 0x22 # compacted t"
  using squeeze_close [OF body_ok_scan [OF assms]] scan_str_Some [OF assms] by (simp add: compact_loop.simps(2))

lemma compacted_punct:
  "c \<in> {CHR '','', CHR '':'', CHR 0x7B, CHR 0x7D, CHR 0x5B, CHR 0x5D} \<Longrightarrow> compacted (c # cs) = c # compacted cs"
  by (rule compacted_plain) (auto simp: is_ws_def)

lemma literal_again:
  assumes "json_literal s = Some (v, t)"
  shows "\<exists>u. s = u @ t \<and> u \<in> {''null'', ''true'', ''false''} \<and> (\<forall>r. json_literal (u @ r) = Some (v, r)) \<and>
    compacted s = u @ compacted t"
proof -
  have c: "compacted (u @ x) = u @ compacted x" if "u \<in> {''null'', ''true'', ''false''}" for u x
    using that by (auto simp: compacted_plain is_ws_def)
  have split: "x = p @ drop (length p) x" if "HasPrefix x p" for x p
    using that append_take_drop_id [of "length p" x] by (simp add: HasPrefix_def)
  consider (null) "HasPrefix s ''null''" | (true) "\<not> HasPrefix s ''null''" "HasPrefix s ''true''"
    | (false) "\<not> HasPrefix s ''null''" "\<not> HasPrefix s ''true''" "HasPrefix s ''false''"
    using assms by (auto simp: json_literal_def split: if_splits)
  then obtain u where u: "u \<in> {''null'', ''true'', ''false''}" "s = u @ t" "\<forall>r. json_literal (u @ r) = Some (v, r)"
  proof cases
    case null
    then have "v = JNull" "s = ''null'' @ t" using assms split [of s "''null''"] by (auto simp: json_literal_def numeral_eq_Suc)
    then show ?thesis by (intro that [of "''null''"]) (simp_all add: json_literal_def)
  next
    case true
    then have "v = JBool True" "s = ''true'' @ t" using assms split [of s "''true''"] by (auto simp: json_literal_def numeral_eq_Suc)
    then show ?thesis by (intro that [of "''true''"]) (simp_all add: json_literal_def)
  next
    case false
    then have "v = JBool False" "s = ''false'' @ t" using assms split [of s "''false''"] by (auto simp: json_literal_def numeral_eq_Suc)
    then show ?thesis by (intro that [of "''false''"]) (simp_all add: json_literal_def)
  qed
  then show ?thesis using c by blast
qed

text \<open>Values up to the raw text that objects keep of their members.\<close>

fun strip_raw :: "json \<Rightarrow> json" where
  "strip_raw (JArr vs) = JArr (map strip_raw vs)"
| "strip_raw (JObj ms) = JObj (map (\<lambda>m. (fst m, [], strip_raw (snd (snd m)))) ms)"
| "strip_raw v = v"

abbreviation strip_member :: "string \<times> string \<times> json \<Rightarrow> string \<times> string \<times> json" where
  "strip_member \<equiv> \<lambda>m. (fst m, [], strip_raw (snd (snd m)))"

definition value_again :: "nat \<Rightarrow> nat \<Rightarrow> string \<Rightarrow> json \<Rightarrow> string \<Rightarrow> bool" where
  "value_again n d s v t \<longleftrightarrow>
     (\<exists>u v'. u \<noteq> [] \<and> s \<noteq> [] \<and> hd u = hd s \<and> compacted s = u @ compacted t \<and> strip_raw v' = strip_raw v \<and>
        (\<forall>r. delim r \<longrightarrow> json_value n d (u @ r) = Some (v', r)))"

definition members_again :: "nat \<Rightarrow> nat \<Rightarrow> string \<Rightarrow> (string \<times> string \<times> json) list \<Rightarrow> string \<Rightarrow> bool" where
  "members_again n d s ms t \<longleftrightarrow>
     (\<exists>u ms'. u \<noteq> [] \<and> hd u = CHR 0x22 \<and> compacted s = u @ compacted t \<and> map strip_member ms' = map strip_member ms \<and>
        (\<forall>r. json_members n d (u @ r) = Some (ms', r)))"

definition elements_again :: "nat \<Rightarrow> nat \<Rightarrow> string \<Rightarrow> json list \<Rightarrow> string \<Rightarrow> bool" where
  "elements_again n d s vs t \<longleftrightarrow>
     (\<exists>u vs'. u \<noteq> [] \<and> s \<noteq> [] \<and> hd u = hd s \<and> compacted s = u @ compacted t \<and> map strip_raw vs' = map strip_raw vs \<and>
        (\<forall>r. json_elements n d (u @ r) = Some (vs', r)))"

lemma expect_simps [simp]: "expect c (c # r) = Some r" "c \<noteq> x \<Longrightarrow> expect c (x # r) = None"
  by (simp_all add: expect_def)

lemma punct_not_ws [simp]:
  "\<not> is_ws (CHR '':'')" "\<not> is_ws (CHR '','')" "\<not> is_ws (CHR 0x7D)" "\<not> is_ws (CHR 0x5D)" "\<not> is_ws (CHR 0x7B)" "\<not> is_ws (CHR 0x5B)"
  "\<not> is_ws (CHR 0x22)"
  by (simp_all add: is_ws_def)

lemma json_value_start: "json_value n d s = Some (v, t) \<Longrightarrow> s \<noteq> [] \<and> \<not> is_ws (hd s) \<and> hd s \<notin> {CHR 0x5D, CHR 0x7D}"
proof (cases n)
  case (Suc m)
  assume j: "json_value n d s = Some (v, t)"
  then obtain c r where s: "s = c # r" using Suc by (cases s) auto
  have lit: "json_literal (c # r) = None" if "is_ws c \<or> c \<in> {CHR 0x5D, CHR 0x7D}"
    using that by (auto simp: json_literal_def is_ws_def)
  show ?thesis
  proof (rule ccontr)
    assume "\<not> ?thesis"
    then have c: "is_ws c \<or> c \<in> {CHR 0x5D, CHR 0x7D}" using s by auto
    then have "c \<noteq> CHR 0x7B" "c \<noteq> CHR 0x5B" "c \<noteq> CHR 0x22" "\<not> is_digit c" "c \<noteq> CHR ''-''"
      by (auto simp: is_ws_def is_digit_def)
    with j Suc s lit [OF c] show False by simp
  qed
qed simp

lemma skip_ws_id: "u \<noteq> [] \<Longrightarrow> \<not> is_ws (hd u) \<Longrightarrow> skip_ws (u @ r) = u @ r"
  by (cases u) (auto simp: skip_ws_def)

lemma delim_simps [simp]: "delim (CHR '','' # r)" "delim (CHR 0x7D # r)" "delim (CHR 0x5D # r)" "delim []"
  by (auto simp: delim_def)

lemma members_step:
  assumes IHv: "\<And>s v t. json_value n d s = Some (v, t) \<Longrightarrow> value_again n d s v t"
    and IHm: "\<And>s ms t. json_members n d s = Some (ms, t) \<Longrightarrow> members_again n d s ms t"
    and j: "json_members (Suc n) d s = Some (ms, y)"
  shows "members_again (Suc n) d s ms y"
proof -
  from j obtain s1 k t u v w where s1: "s = CHR 0x22 # s1" "scan_str s1 = Some (k, t)"
    and u: "skip_ws t = CHR '':'' # u" and v: "json_value n d (skip_ws u) = Some (v, w)"
    and r: "(case expect (CHR '','') (skip_ws w) of
            Some x \<Rightarrow> map_option (\<lambda>(ms, y). ((unquote k, consumed (skip_ws u) w, v) # ms, y)) (json_members n d (skip_ws x))
          | None \<Rightarrow> map_option (\<lambda>x. ([(unquote k, consumed (skip_ws u) w, v)], x)) (expect (CHR 0x7D) (skip_ws w))) = Some (ms, y)"
    by (auto simp: bind_eq_Some_conv Let_def expect_Some simp del: not_None_eq)
  from IHv [OF v] obtain uv v' where uv: "uv \<noteq> []" "hd uv = hd (skip_ws u)" "compacted (skip_ws u) = uv @ compacted w"
    "strip_raw v' = strip_raw v" "\<And>r. delim r \<Longrightarrow> json_value n d (uv @ r) = Some (v', r)"
    by (auto simp: value_again_def)
  have ws: "\<not> is_ws (hd uv)" using json_value_start [OF v] uv(2) by simp
  have key: "compacted s = CHR 0x22 # squeeze k @ CHR 0x22 # CHR '':'' # uv @ compacted w"
    using compacted_string [OF s1(2)] s1(1) compacted_skip [of t] u compacted_skip [of u] uv(3) by (simp add: compacted_punct)
  have k: "unquote (squeeze k) = unquote k" "\<And>r. scan_str (squeeze k @ CHR 0x22 # r) = Some (squeeze k, r)"
    using squeeze_unquote squeeze_scan body_ok_scan [OF s1(2)] by blast+
  let ?m = "(unquote k, uv, v')"
  have parse: "json_members (Suc n) d (CHR 0x22 # squeeze k @ CHR 0x22 # CHR '':'' # uv @ r) =
      (case expect (CHR '','') (skip_ws r) of
         Some x \<Rightarrow> map_option (\<lambda>(ms, y). (?m # ms, y)) (json_members n d (skip_ws x))
       | None \<Rightarrow> map_option (\<lambda>x. ([?m], x)) (expect (CHR 0x7D) (skip_ws r)))" if "delim r" for r
    using uv(5) [OF that] k skip_ws_id [OF uv(1) ws, of r] by (simp add: Let_def cong: option.case_cong)
  show ?thesis
  proof (cases "expect (CHR '','') (skip_ws w)")
    case None
    then have y: "skip_ws w = CHR 0x7D # y" "ms = [(unquote k, consumed (skip_ws u) w, v)]"
      using r by (auto simp: expect_Some)
    have "compacted w = CHR 0x7D # compacted y" using compacted_skip [of w] y(1) by (simp add: compacted_punct)
    moreover have "json_members (Suc n) d (CHR 0x22 # squeeze k @ CHR 0x22 # CHR '':'' # uv @ CHR 0x7D # r) = Some ([?m], r)" for r
      using parse [of "CHR 0x7D # r"] by simp
    ultimately show ?thesis
      unfolding members_again_def using key y(2) uv(4)
      by (intro exI [of _ "CHR 0x22 # squeeze k @ CHR 0x22 # CHR '':'' # uv @ [CHR 0x7D]"] exI [of _ "[?m]"])
        (simp del: json_members.simps)
  next
    case (Some x)
    then obtain ms1 where x: "skip_ws w = CHR '','' # x" "json_members n d (skip_ws x) = Some (ms1, y)"
      "ms = (unquote k, consumed (skip_ws u) w, v) # ms1"
      using r by (auto simp: expect_Some)
    from IHm [OF x(2)] obtain um ms' where um: "um \<noteq> []" "hd um = CHR 0x22" "compacted (skip_ws x) = um @ compacted y"
      "map strip_member ms' = map strip_member ms1" "\<And>r. json_members n d (um @ r) = Some (ms', r)"
      by (auto simp: members_again_def)
    have "compacted w = CHR '','' # um @ compacted y"
      using compacted_skip [of w] x(1) compacted_skip [of x] um(3) by (simp add: compacted_punct)
    moreover have "json_members (Suc n) d (CHR 0x22 # squeeze k @ CHR 0x22 # CHR '':'' # uv @ CHR '','' # um @ r) = Some (?m # ms', r)" for r
      using parse [of "CHR '','' # um @ r"] um(1,2,5) skip_ws_id [of um r] by simp
    ultimately show ?thesis
      unfolding members_again_def using key x(3) uv(4) um(4)
      by (intro exI [of _ "CHR 0x22 # squeeze k @ CHR 0x22 # CHR '':'' # uv @ CHR '','' # um"] exI [of _ "?m # ms'"])
        (simp del: json_members.simps)
  qed
qed

lemma json_elements_start: "json_elements n d s = Some (vs, t) \<Longrightarrow> s \<noteq> [] \<and> \<not> is_ws (hd s) \<and> hd s \<noteq> CHR 0x5D"
  by (cases n) (auto simp: bind_eq_Some_conv dest: json_value_start)

lemma elements_step:
  assumes IHv: "\<And>s v t. json_value n d s = Some (v, t) \<Longrightarrow> value_again n d s v t"
    and IHe: "\<And>s vs t. json_elements n d s = Some (vs, t) \<Longrightarrow> elements_again n d s vs t"
    and j: "json_elements (Suc n) d s = Some (vs, y)"
  shows "elements_again (Suc n) d s vs y"
proof -
  from j obtain v w where v: "json_value n d s = Some (v, w)"
    and r: "(case expect (CHR '','') (skip_ws w) of
            Some x \<Rightarrow> map_option (\<lambda>(vs, y). (v # vs, y)) (json_elements n d (skip_ws x))
          | None \<Rightarrow> map_option (\<lambda>x. ([v], x)) (expect (CHR 0x5D) (skip_ws w))) = Some (vs, y)"
    by (auto simp: bind_eq_Some_conv)
  from IHv [OF v] obtain uv v' where uv: "uv \<noteq> []" "s \<noteq> []" "hd uv = hd s" "compacted s = uv @ compacted w"
    "strip_raw v' = strip_raw v" "\<And>r. delim r \<Longrightarrow> json_value n d (uv @ r) = Some (v', r)"
    by (auto simp: value_again_def)
  show ?thesis
  proof (cases "expect (CHR '','') (skip_ws w)")
    case None
    then have y: "skip_ws w = CHR 0x5D # y" "vs = [v]" using r by (auto simp: expect_Some)
    have "compacted w = CHR 0x5D # compacted y" using compacted_skip [of w] y(1) by (simp add: compacted_punct)
    moreover have "json_elements (Suc n) d (uv @ CHR 0x5D # r) = Some ([v'], r)" for r
      using uv(6) [of "CHR 0x5D # r"] by simp
    ultimately show ?thesis
      unfolding elements_again_def using uv y(2)
      by (intro exI [of _ "uv @ [CHR 0x5D]"] exI [of _ "[v']"]) (simp del: json_elements.simps)
  next
    case (Some x)
    then obtain vs1 where x: "skip_ws w = CHR '','' # x" "json_elements n d (skip_ws x) = Some (vs1, y)" "vs = v # vs1"
      using r by (auto simp: expect_Some)
    from IHe [OF x(2)] obtain ue vs' where ue: "ue \<noteq> []" "hd ue = hd (skip_ws x)" "compacted (skip_ws x) = ue @ compacted y"
      "map strip_raw vs' = map strip_raw vs1" "\<And>r. json_elements n d (ue @ r) = Some (vs', r)"
      by (auto simp: elements_again_def)
    have ws: "\<not> is_ws (hd ue)" using json_elements_start [OF x(2)] ue(2) by simp
    have "compacted w = CHR '','' # ue @ compacted y"
      using compacted_skip [of w] x(1) compacted_skip [of x] ue(3) by (simp add: compacted_punct)
    moreover have "json_elements (Suc n) d (uv @ CHR '','' # ue @ r) = Some (v' # vs', r)" for r
      using uv(6) [of "CHR '','' # ue @ r"] ue(5) skip_ws_id [OF ue(1) ws, of r] by simp
    ultimately show ?thesis
      unfolding elements_again_def using uv ue(4) x(3)
      by (intro exI [of _ "uv @ CHR '','' # ue"] exI [of _ "v' # vs'"]) (simp del: json_elements.simps)
  qed
qed

lemma value_step:
  assumes IHm: "\<And>d s ms t. json_members n d s = Some (ms, t) \<Longrightarrow> members_again n d s ms t"
    and IHe: "\<And>d s vs t. json_elements n d s = Some (vs, t) \<Longrightarrow> elements_again n d s vs t"
    and j: "json_value (Suc n) d s = Some (v, t)"
  shows "value_again (Suc n) d s v t"
proof -
  obtain c r where s: "s = c # r" using j by (cases s) auto
  consider (obj) "c = CHR 0x7B" | (arr) "c = CHR 0x5B" | (str) "c = CHR 0x22" | (num) "is_digit c \<or> c = CHR ''-''"
    | (lit) "c \<noteq> CHR 0x7B" "c \<noteq> CHR 0x5B" "c \<noteq> CHR 0x22" "\<not> (is_digit c \<or> c = CHR ''-'')"
    by blast
  then show ?thesis
  proof cases
    case obj
    then have d: "\<not> max_nesting \<le> d" using j s by (auto split: if_splits)
    show ?thesis
    proof (cases "expect (CHR 0x7D) (skip_ws r)")
      case (Some x)
      then have "skip_ws r = CHR 0x7D # t" "v = JObj []" using j s obj d by (auto simp: expect_Some)
      moreover from this have "compacted s = CHR 0x7B # CHR 0x7D # compacted t"
        using compacted_skip [of r] s obj by (simp add: compacted_punct)
      ultimately show ?thesis
        unfolding value_again_def using s obj d
        by (intro exI [of _ "[CHR 0x7B, CHR 0x7D]"] exI [of _ "JObj []"]) (simp add: s)
    next
      case None
      then obtain ms where ms: "json_members n (Suc d) (skip_ws r) = Some (ms, t)" "v = JObj ms"
        using j s obj d by auto
      from IHm [OF ms(1)] obtain um ms' where um: "um \<noteq> []" "hd um = CHR 0x22" "compacted (skip_ws r) = um @ compacted t"
        "map strip_member ms' = map strip_member ms" "\<And>r. json_members n (Suc d) (um @ r) = Some (ms', r)"
        by (auto simp: members_again_def)
      have sk: "skip_ws (um @ x) = um @ x" "expect (CHR 0x7D) (um @ x) = None" for x
        using um(1,2) skip_ws_id [of um x] by (cases um; simp)+
      have "compacted s = CHR 0x7B # um @ compacted t"
        using compacted_skip [of r] s obj um(3) by (simp add: compacted_punct)
      moreover have "json_value (Suc n) d (CHR 0x7B # um @ x) = Some (JObj ms', x)" for x
        using d sk um(5) by simp
      ultimately show ?thesis
        unfolding value_again_def using s obj um(4) ms(2)
        by (intro exI [of _ "CHR 0x7B # um"] exI [of _ "JObj ms'"]) (simp del: json_value.simps)
    qed
  next
    case arr
    then have d: "\<not> max_nesting \<le> d" using j s by (auto split: if_splits)
    show ?thesis
    proof (cases "expect (CHR 0x5D) (skip_ws r)")
      case (Some x)
      then have "skip_ws r = CHR 0x5D # t" "v = JArr []" using j s arr d by (auto simp: expect_Some)
      moreover from this have "compacted s = CHR 0x5B # CHR 0x5D # compacted t"
        using compacted_skip [of r] s arr by (simp add: compacted_punct)
      ultimately show ?thesis
        unfolding value_again_def using s arr d
        by (intro exI [of _ "[CHR 0x5B, CHR 0x5D]"] exI [of _ "JArr []"]) (simp add: s)
    next
      case None
      then obtain vs where vs: "json_elements n (Suc d) (skip_ws r) = Some (vs, t)" "v = JArr vs"
        using j s arr d by auto
      from IHe [OF vs(1)] obtain ue vs' where ue: "ue \<noteq> []" "hd ue = hd (skip_ws r)" "compacted (skip_ws r) = ue @ compacted t"
        "map strip_raw vs' = map strip_raw vs" "\<And>r. json_elements n (Suc d) (ue @ r) = Some (vs', r)"
        by (auto simp: elements_again_def)
      have "\<not> is_ws (hd ue)" "hd ue \<noteq> CHR 0x5D" using json_elements_start [OF vs(1)] ue(2) by auto
      then have sk: "skip_ws (ue @ x) = ue @ x" "expect (CHR 0x5D) (ue @ x) = None" for x
        using ue(1) skip_ws_id [of ue x] by (cases ue; simp)+
      have "compacted s = CHR 0x5B # ue @ compacted t"
        using compacted_skip [of r] s arr ue(3) by (simp add: compacted_punct)
      moreover have "json_value (Suc n) d (CHR 0x5B # ue @ x) = Some (JArr vs', x)" for x
        using d sk ue(5) by simp
      ultimately show ?thesis
        unfolding value_again_def using s arr ue(4) vs(2)
        by (intro exI [of _ "CHR 0x5B # ue"] exI [of _ "JArr vs'"]) (simp del: json_value.simps)
    qed
  next
    case str
    then obtain b where b: "scan_str r = Some (b, t)" "v = JStr (unquote b)" using j s by auto
    have "compacted s = CHR 0x22 # squeeze b @ CHR 0x22 # compacted t" using compacted_string [OF b(1)] s str by simp
    moreover have "json_value (Suc n) d (CHR 0x22 # squeeze b @ CHR 0x22 # x) = Some (JStr (unquote b), x)" for x
      using squeeze_scan [OF body_ok_scan [OF b(1)]] squeeze_unquote [OF body_ok_scan [OF b(1)]] by simp
    ultimately show ?thesis
      unfolding value_again_def using s str b(2)
      by (intro exI [of _ "CHR 0x22 # squeeze b @ [CHR 0x22]"] exI [of _ "JStr (unquote b)"]) (simp del: json_value.simps)
  next
    case num
    then have c: "c \<noteq> CHR 0x7B" "c \<noteq> CHR 0x5B" "c \<noteq> CHR 0x22" by (auto simp: is_digit_def)
    then have n: "scan_number s = Some t" "v = JNum (consumed s t)" using j s num by auto
    obtain u where u: "s = u @ t" "u \<noteq> []" "list_all numchar u" "\<And>r. delim r \<Longrightarrow> scan_number (u @ r) = Some r"
      using scan_number_again [OF n(1)] by blast
    then obtain u' where u': "u = c # u'" using s by (cases u) auto
    have "json_value (Suc n) d (u @ x) = Some (JNum u, x)" if "delim x" for x
      using u(4) [OF that] c num consumed_append [of u x] unfolding u' by simp
    moreover have "v = JNum u" using n(2) u(1) by simp
    ultimately show ?thesis
      unfolding value_again_def using s u compacted_numchars [OF u(3), of t]
      by (intro exI [of _ u] exI [of _ "JNum u"]) (simp add: u' del: json_value.simps)
  next
    case lit
    then have "json_literal s = Some (v, t)" using j s by simp
    then obtain u where u: "s = u @ t" "u \<in> {''null'', ''true'', ''false''}" "\<And>r. json_literal (u @ r) = Some (v, r)"
      "compacted s = u @ compacted t"
      using literal_again by blast
    have "json_value (Suc n) d (u @ x) = Some (v, x)" for x
      using u(2,3) by (auto simp: is_digit_def)
    then show ?thesis
      unfolding value_again_def using s u
      by (intro exI [of _ u] exI [of _ v]) (auto simp del: json_value.simps)
  qed
qed

lemma json_again:
  "(\<forall>d s v t. json_value n d s = Some (v, t) \<longrightarrow> value_again n d s v t) \<and>
   (\<forall>d s ms t. json_members n d s = Some (ms, t) \<longrightarrow> members_again n d s ms t) \<and>
   (\<forall>d s vs t. json_elements n d s = Some (vs, t) \<longrightarrow> elements_again n d s vs t)"
proof (induction n)
  case (Suc n)
  then have V: "\<And>d s v t. json_value n d s = Some (v, t) \<Longrightarrow> value_again n d s v t"
    and M: "\<And>d s ms t. json_members n d s = Some (ms, t) \<Longrightarrow> members_again n d s ms t"
    and E: "\<And>d s vs t. json_elements n d s = Some (vs, t) \<Longrightarrow> elements_again n d s vs t"
    by blast+
  show ?case
    by (intro conjI allI impI)
      (rule value_step [OF M E] members_step [OF V M] elements_step [OF V E], assumption+)+
qed simp

section \<open>Nesting\<close>

fun nesting :: "json \<Rightarrow> nat" where
  "nesting (JArr vs) = Suc (foldr max (map nesting vs) 0)"
| "nesting (JObj ms) = Suc (foldr max (map (\<lambda>m. nesting (snd (snd m))) ms) 0)"
| "nesting v = 0"

text \<open>A value that is not nested too deeply is read at any depth that leaves room for it.\<close>

lemma json_depth_shift:
  "(\<forall>d s v t. json_value n d s = Some (v, t) \<longrightarrow> (\<forall>d'. d' + nesting v \<le> max_nesting \<longrightarrow> json_value n d' s = Some (v, t))) \<and>
   (\<forall>d s ms t. json_members n d s = Some (ms, t) \<longrightarrow>
      (\<forall>d'. d' + foldr max (map (\<lambda>m. nesting (snd (snd m))) ms) 0 \<le> max_nesting \<longrightarrow> json_members n d' s = Some (ms, t))) \<and>
   (\<forall>d s vs t. json_elements n d s = Some (vs, t) \<longrightarrow>
      (\<forall>d'. d' + foldr max (map nesting vs) 0 \<le> max_nesting \<longrightarrow> json_elements n d' s = Some (vs, t)))"
proof (induction n)
  case (Suc n)
  then have V: "\<And>d s v t d'. json_value n d s = Some (v, t) \<Longrightarrow> d' + nesting v \<le> max_nesting \<Longrightarrow> json_value n d' s = Some (v, t)"
    and M: "\<And>d s ms t d'. json_members n d s = Some (ms, t) \<Longrightarrow>
      d' + foldr max (map (\<lambda>m. nesting (snd (snd m))) ms) 0 \<le> max_nesting \<Longrightarrow> json_members n d' s = Some (ms, t)"
    and E: "\<And>d s vs t d'. json_elements n d s = Some (vs, t) \<Longrightarrow> d' + foldr max (map nesting vs) 0 \<le> max_nesting \<Longrightarrow>
      json_elements n d' s = Some (vs, t)"
    by blast+
  have "json_value (Suc n) d' s = Some (v, t)" if j: "json_value (Suc n) d s = Some (v, t)" and d': "d' + nesting v \<le> max_nesting" for d s v t d'
  proof -
    obtain c r where s: "s = c # r" using j by (cases s) auto
    show ?thesis
    proof (cases "c = CHR 0x7B \<or> c = CHR 0x5B")
      case False
      then show ?thesis using j s by simp
    next
      case True
      then show ?thesis
        using j s d' M [of "Suc d" "skip_ws r" _ t "Suc d'"] E [of "Suc d" "skip_ws r" _ t "Suc d'"]
        by (auto split: if_splits option.splits)
    qed
  qed
  moreover have "json_elements (Suc n) d' s = Some (vs, t)"
    if j: "json_elements (Suc n) d s = Some (vs, t)" and d': "d' + foldr max (map nesting vs) 0 \<le> max_nesting" for d s vs t d'
  proof -
    from j obtain v w where v: "json_value n d s = Some (v, w)" and vs: "v \<in> set vs \<or> True"
      and r: "(case expect (CHR '','') (skip_ws w) of
              Some x \<Rightarrow> map_option (\<lambda>(vs, y). (v # vs, y)) (json_elements n d (skip_ws x))
            | None \<Rightarrow> map_option (\<lambda>x. ([v], x)) (expect (CHR 0x5D) (skip_ws w))) = Some (vs, t)"
      by (auto simp: bind_eq_Some_conv)
    have "nesting v \<le> foldr max (map nesting vs) 0" using r by (auto split: option.splits)
    then have "json_value n d' s = Some (v, w)" using V [OF v, of d'] d' by simp
    then show ?thesis
      using r d' E [of d _ _ t d'] by (auto split: option.splits)
  qed
  moreover have "json_members (Suc n) d' s = Some (ms, t)"
    if j: "json_members (Suc n) d s = Some (ms, t)"
      and d': "d' + foldr max (map (\<lambda>m. nesting (snd (snd m))) ms) 0 \<le> max_nesting" for d s ms t d'
  proof -
    from j obtain k t1 u v w where k: "Option.bind (expect (CHR 0x22) s) scan_str = Some (k, t1)"
      "expect (CHR '':'') (skip_ws t1) = Some u" and v: "json_value n d (skip_ws u) = Some (v, w)"
      and r: "(case expect (CHR '','') (skip_ws w) of
            Some x \<Rightarrow> map_option (\<lambda>(ms, y). ((unquote k, consumed (skip_ws u) w, v) # ms, y)) (json_members n d (skip_ws x))
          | None \<Rightarrow> map_option (\<lambda>x. ([(unquote k, consumed (skip_ws u) w, v)], x)) (expect (CHR 0x7D) (skip_ws w))) = Some (ms, t)"
      by (auto simp: bind_eq_Some_conv Let_def simp del: not_None_eq)
    have "nesting v \<le> foldr max (map (\<lambda>m. nesting (snd (snd m))) ms) 0" using r by (auto split: option.splits)
    then have "json_value n d' (skip_ws u) = Some (v, w)" using V [OF v, of d'] d' by simp
    then show ?thesis
      using k r d' M [of d _ _ t d'] by (auto simp: Let_def split: option.splits)
  qed
  ultimately show ?case by blast
qed simp

section \<open>Reading back what was written\<close>

lemma to_gval_strip: "to_gval (strip_raw v) = to_gval v"
proof (induction v rule: to_gval.induct)
  case (6 ms)
  have "to_gval (strip_raw (snd (snd m))) = to_gval (snd (snd m))" if "m \<in> set ms" for m
    using 6 [of m "fst m" "snd m" "fst (snd m)" "snd (snd m)"] that by simp
  then show ?case by (auto simp: foldl_map case_prod_beta intro!: foldl_cong_set)
qed auto

lemma numbers_fit_strip: "numbers_fit (strip_raw v) = numbers_fit v"
  by (induction v rule: numbers_fit.induct) auto

lemma json_to_map_strip: "strip_raw v = strip_raw w \<Longrightarrow> json_to_map v = json_to_map w"
  unfolding json_to_map_def by (metis to_gval_strip numbers_fit_strip)

lemma json_value_again: "json_value n d s = Some (v, t) \<Longrightarrow> value_again n d s v t"
  using json_again by blast

lemma json_value_shift:
  "json_value n d s = Some (v, t) \<Longrightarrow> d' + nesting v \<le> max_nesting \<Longrightarrow> json_value n d' s = Some (v, t)"
  using json_depth_shift by blast

lemma compact_nonempty:
  assumes "json_whole raw = Some v" and "nesting v < max_nesting" and "2 * length raw < n"
  obtains u v' where "compacted raw = u" "u \<noteq> []" "\<not> is_ws (hd u)" "strip_raw v' = strip_raw v"
    "\<And>r. delim r \<Longrightarrow> json_value n 1 (u @ r) = Some (v', r)"
proof -
  from assms(1) obtain rest where p: "json_prefix raw = Some (v, rest)" "skip_ws rest = []"
    by (auto simp: json_whole_def bind_eq_Some_conv split: if_splits)
  have "json_value n 0 (skip_ws raw) = Some (v, rest)" using json_fuel_enough [OF assms(3)] p(1) by simp
  then have j: "json_value n 1 (skip_ws raw) = Some (v, rest)" using json_value_shift [of n 0 _ v rest 1] assms(2) by simp
  then obtain u v' where u: "u \<noteq> []" "hd u = hd (skip_ws raw)" "compacted (skip_ws raw) = u @ compacted rest"
    "strip_raw v' = strip_raw v" "\<And>r. delim r \<Longrightarrow> json_value n 1 (u @ r) = Some (v', r)"
    using json_value_again [OF j] by (auto simp: value_again_def)
  have "compacted rest = []" using compacted_skip [of rest] p(2) by simp
  then have "compacted raw = u" using u(3) compacted_skip [of raw] by simp
  moreover have "\<not> is_ws (hd u)" using json_value_start [OF j] u(2) by simp
  ultimately show ?thesis using that u by blast
qed

text \<open>Compaction does not change what a raw message means.\<close>

lemma json_whole_compacted:
  assumes "json_whole raw = Some v"
  obtains v' where "json_whole (compacted raw) = Some v'" and "strip_raw v' = strip_raw v"
proof -
  let ?n = "Suc (2 * length raw + 2 * length (compacted raw))"
  from assms obtain rest where p: "json_prefix raw = Some (v, rest)" "skip_ws rest = []"
    by (auto simp: json_whole_def bind_eq_Some_conv split: if_splits)
  have j: "json_value ?n 0 (skip_ws raw) = Some (v, rest)" using json_fuel_enough [of raw ?n] p(1) by simp
  then obtain u v' where u: "u \<noteq> []" "hd u = hd (skip_ws raw)" "compacted (skip_ws raw) = u @ compacted rest"
    "strip_raw v' = strip_raw v" "\<And>r. delim r \<Longrightarrow> json_value ?n 0 (u @ r) = Some (v', r)"
    using json_value_again [OF j] by (auto simp: value_again_def)
  have "compacted rest = []" using compacted_skip [of rest] p(2) by simp
  then have c: "compacted raw = u" using u(3) compacted_skip [of raw] by simp
  have "\<not> is_ws (hd u)" using json_value_start [OF j] u(2) by simp
  then have "skip_ws u = u" using skip_ws_id [OF u(1), of "[]"] by simp
  then have "json_prefix u = Some (v', [])" using json_fuel_enough [of u ?n] u(5) [of "[]"] c by simp
  then have "json_whole (compacted raw) = Some v'" using c by (simp add: json_whole_def)
  with u(4) that show ?thesis by blast
qed

lemma unmarshal_map_compacted:
  assumes "json_whole raw = Some v"
  shows "unmarshal_map (compacted raw) = unmarshal_map raw"
proof -
  obtain v' where v': "json_whole (compacted raw) = Some v'" "strip_raw v' = strip_raw v"
    using json_whole_compacted [OF assms] by blast
  show ?thesis by (simp add: unmarshal_map_def v'(1) assms json_to_map_strip [OF v'(2)])
qed

lemma valid_text_ascii: "list_all (\<lambda>c. (of_char c :: nat) < 128) s \<Longrightarrow> valid_text s = s"
proof (induction s)
  case (Cons c s)
  then show ?case by (simp add: valid_text_def runes.simps [of "c # s"] encode_rune_byte)
qed (simp add: valid_text_def runes.simps)

lemma json_string_start: "json_string s \<noteq> []" "hd (json_string s) = CHR 0x22"
  by (simp_all add: json_string_def)

lemma json_members_last_text:
  assumes "w \<noteq> []" and "\<not> is_ws (hd w)" and "\<And>r. delim r \<Longrightarrow> json_value n d (w @ r) = Some (v, r)"
  shows "json_members (Suc n) d (json_string k @ CHR '':'' # w @ CHR 0x7D # r) = Some ([(valid_text k, w, v)], r)"
  using assms(3) [of "CHR 0x7D # r"] skip_ws_id [OF assms(1,2), of "CHR 0x7D # r"] consumed_append [of w "CHR 0x7D # r"]
  by (simp add: json_string_def scan_enc_body unquote_enc_body Let_def)

lemma json_members_more_text:
  assumes "w \<noteq> []" and "\<not> is_ws (hd w)" and "\<And>r. delim r \<Longrightarrow> json_value n d (w @ r) = Some (v, r)"
    and "json_members n d (json_string k' @ tl') = Some (ms, y)"
  shows "json_members (Suc n) d (json_string k @ CHR '':'' # w @ CHR '','' # json_string k' @ tl') =
    Some ((valid_text k, w, v) # ms, y)"
proof -
  let ?r = "CHR '','' # json_string k' @ tl'"
  have "skip_ws (json_string k' @ tl') = json_string k' @ tl'"
    using json_string_start [of k'] skip_ws_id [of "json_string k'" tl'] by simp
  then show ?thesis
    using assms(3) [of ?r] skip_ws_id [OF assms(1,2), of ?r] consumed_append [of w ?r] assms(4)
    by (simp add: json_string_def [of k] scan_enc_body unquote_enc_body Let_def)
qed

lemma json_object_text:
  assumes "json_members (Suc n) 1 (json_string k @ w) = Some (ms, [])" and "2 * length (CHR 0x7B # json_string k @ w) \<le> n"
  shows "json_prefix (CHR 0x7B # json_string k @ w) = Some (JObj ms, [])"
proof -
  let ?s = "CHR 0x7B # json_string k @ w"
  have "skip_ws (json_string k @ w) = json_string k @ w" "expect (CHR 0x7D) (json_string k @ w) = None"
    using json_string_start [of k] skip_ws_id [of "json_string k" w] by (simp_all add: json_string_def)
  then have "json_value (Suc (Suc n)) 0 (skip_ws ?s) = Some (JObj ms, [])"
    using assms(1) by (simp add: max_nesting_def del: json_members.simps)
  with json_fuel_enough [of ?s "Suc (Suc n)"] assms(2) show ?thesis by simp
qed

lemma json_members_string_last:
  "json_members (Suc (Suc k)) d (json_string key @ CHR '':'' # json_string x @ CHR 0x7D # r) =
    Some ([(valid_text key, json_string x, JStr (valid_text x))], r)"
  by (rule json_members_last_text) (simp_all add: json_string_start json_value_string del: json_value.simps)

lemma json_members_string_more:
  assumes "json_members (Suc k) d (json_string k' @ tl') = Some (ms, y)"
  shows "json_members (Suc (Suc k)) d (json_string key @ CHR '':'' # json_string x @ CHR '','' # json_string k' @ tl') =
    Some ((valid_text key, json_string x, JStr (valid_text x)) # ms, y)"
  by (rule json_members_more_text [OF _ _ _ assms]) (simp_all add: json_string_start json_value_string del: json_value.simps)

end
