(* ===== verification/Get_Forwarding.thy ===== *)
theory Get_Forwarding
  imports Handler_Properties Json_Roundtrip
begin

text \<open>
  A GET request is forwarded as a request whose body is built from its URL parameters. The theory
  follows that body through the encoder of the handler and back through its strict reader.
\<close>

section \<open>The body of a GET request\<close>

text \<open>The members that the encoder writes for a body, as the parser reads them.\<close>

definition body_members :: "graphQLBody \<Rightarrow> json \<Rightarrow> (string \<times> string \<times> json) list" where
  "body_members b v =
     [(''query'', json_string (Query b), JStr (valid_text (Query b)))] @
     (if gb_OperationName b = [] then []
      else [(''operationName'', json_string (gb_OperationName b), JStr (valid_text (gb_OperationName b)))]) @
     (if Variables b = [] then [] else [(''variables'', compacted (Variables b), v)])"

lemma field_keys: "valid_text ''query'' = ''query''" "valid_text ''operationName'' = ''operationName''"
  "valid_text ''variables'' = ''variables''"
  by (simp_all add: valid_text_ascii)

lemma marshal_body_text:
  assumes "marshal_body b = Some s" and "Extensions b = []"
  shows "s = CHR 0x7B # json_string ''query'' @ CHR '':'' # json_string (Query b) @
     (if gb_OperationName b = [] then [] else CHR '','' # json_string ''operationName'' @ CHR '':'' # json_string (gb_OperationName b)) @
     (if Variables b = [] then [] else CHR '','' # json_string ''variables'' @ CHR '':'' # compacted (Variables b)) @ ''}''"
  using assms by (auto simp: marshal_body_def json_compact_def split: if_splits)

lemma marshal_body_parses:
  assumes m: "marshal_body b = Some s" and e: "Extensions b = []"
    and v: "Variables b \<noteq> [] \<Longrightarrow> json_whole (Variables b) = Some v \<and> nesting v < max_nesting"
  shows "\<exists>v'. json_prefix s = Some (JObj (body_members b v'), [])"
proof -
  let ?q = "json_string (Query b)" and ?o = "json_string (gb_OperationName b)" and ?c = "compacted (Variables b)"
  define n where "n = Suc (2 * length s + 2 * length (Variables b))"
  note last = json_members_string_last [of _ 1 _ _ "[]"] and more = json_members_string_more [where d = 1]
  note s = marshal_body_text [OF m e]
  have "\<exists>w v' k. s = CHR 0x7B # json_string ''query'' @ w \<and> n \<le> k \<and>
      json_members (Suc k) 1 (json_string ''query'' @ w) = Some (body_members b v', [])"
  proof (cases "Variables b = []")
    case vars: True
    show ?thesis
    proof (cases "gb_OperationName b = []")
      case True
      have "json_members (Suc (Suc n)) 1 (json_string ''query'' @ CHR '':'' # ?q @ ''}'') = Some (body_members b v, [])"
        using last [of n "''query''" "Query b"] True vars field_keys by (simp add: body_members_def del: json_members.simps)
      then show ?thesis
        using s True vars
        by (intro exI [of _ "CHR '':'' # ?q @ ''}''"] exI [of _ v] exI [of _ "Suc n"]) (simp del: json_members.simps)
    next
      case False
      let ?w = "CHR '':'' # ?q @ CHR '','' # json_string ''operationName'' @ CHR '':'' # ?o @ ''}''"
      have "json_members (Suc (Suc (Suc n))) 1 (json_string ''query'' @ ?w) = Some (body_members b v, [])"
        using more [OF last [of n "''operationName''" "gb_OperationName b"], of "''query''" "Query b"] False vars field_keys
        by (simp add: body_members_def del: json_members.simps)
      then show ?thesis
        using s False vars by (intro exI [of _ ?w] exI [of _ v] exI [of _ "Suc (Suc n)"]) (simp del: json_members.simps)
    qed
  next
    case vars: False
    obtain v' where c: "?c \<noteq> []" "\<not> is_ws (hd ?c)" "\<And>r. delim r \<Longrightarrow> json_value (Suc n) 1 (?c @ r) = Some (v', r)"
      using compact_nonempty [of "Variables b" v "Suc n"] v [OF vars] by (auto simp: n_def)
    have vs: "json_members (Suc (Suc n)) 1 (json_string ''variables'' @ CHR '':'' # ?c @ ''}'') = Some ([(''variables'', ?c, v')], [])"
      using json_members_last_text [OF c, of "''variables''" "[]"] field_keys by simp
    show ?thesis
    proof (cases "gb_OperationName b = []")
      case True
      let ?w = "CHR '':'' # ?q @ CHR '','' # json_string ''variables'' @ CHR '':'' # ?c @ ''}''"
      have "json_members (Suc (Suc (Suc n))) 1 (json_string ''query'' @ ?w) = Some (body_members b v', [])"
        using more [OF vs, of "''query''" "Query b"] True vars field_keys by (simp add: body_members_def del: json_members.simps)
      then show ?thesis
        using s True vars by (intro exI [of _ ?w] exI [of _ v'] exI [of _ "Suc (Suc n)"]) (simp del: json_members.simps)
    next
      case False
      let ?w = "CHR '':'' # ?q @ CHR '','' # json_string ''operationName'' @ CHR '':'' # ?o @
            CHR '','' # json_string ''variables'' @ CHR '':'' # ?c @ ''}''"
      have "json_members (Suc (Suc (Suc (Suc n)))) 1 (json_string ''query'' @ ?w) = Some (body_members b v', [])"
        using more [OF more [OF vs, of "''operationName''" "gb_OperationName b"], of "''query''" "Query b"] False vars field_keys
        by (simp add: body_members_def del: json_members.simps)
      then show ?thesis
        using s False vars by (intro exI [of _ ?w] exI [of _ v'] exI [of _ "Suc (Suc (Suc n))"]) (simp del: json_members.simps)
    qed
  qed
  then obtain w v' k where w: "s = CHR 0x7B # json_string ''query'' @ w" "n \<le> k"
    "json_members (Suc k) 1 (json_string ''query'' @ w) = Some (body_members b v', [])"
    by blast
  have "2 * length (CHR 0x7B # json_string ''query'' @ w) \<le> k" using w(1,2) by (simp add: n_def)
  from json_object_text [OF w(3) this] show ?thesis using w(1) by blast
qed

lemma field_names_ok:
  "is_field ''query'' ''query''" "\<not> is_field ''query'' ''operationName''" "is_field ''operationName'' ''operationName''"
  "\<not> is_field ''query'' ''variables''" "\<not> is_field ''operationName'' ''variables''" "is_field ''variables'' ''variables''"
  by code_simp+

lemma valid_text_Nil [simp]: "valid_text [] = []"
  by (simp add: valid_text_def runes.simps)

lemma marshal_body_single:
  assumes "marshal_body b = Some s" and "Extensions b = []"
    and "Variables b \<noteq> [] \<Longrightarrow> json_whole (Variables b) = Some v \<and> nesting v < max_nesting"
  shows "single_body s = Some \<lparr>Query = valid_text (Query b), gb_OperationName = valid_text (gb_OperationName b),
    Variables = compacted (Variables b), Extensions = []\<rparr>"
proof -
  obtain v' where "json_prefix s = Some (JObj (body_members b v'), [])" using marshal_body_parses [OF assms] by blast
  moreover have "decode_body True (JObj (body_members b v')) = Some \<lparr>Query = valid_text (Query b),
      gb_OperationName = valid_text (gb_OperationName b), Variables = compacted (Variables b), Extensions = []\<rparr>"
    by (simp add: decode_body_def decode_struct_def body_members_def decode_body_member_def decode_string_def field_names_ok
        zero_graphQLBody_def)
  ultimately show ?thesis by (simp add: single_body_def decoder_More_def)
qed

section \<open>GET requests\<close>

lemma parse_no_variables:
  assumes "parse_query env = Parse ParseQuery FragForName" and "parseQueryWithTimeout env query timeout = Parsed info"
  shows "RequestVariables info = []"
proof -
  have "parseGraphQL ParseQuery FragForName query = Some (Inr info)"
    using assms by (auto simp: parseQueryWithTimeout_def Parse_def split: option.splits if_splits sum.splits)
  then obtain doc where
    "analyse_operations (FragForName (Fragments doc)) doc (Operations doc) (initial_info doc query) = Some info"
    by (rule parseGraphQL_Inr)
  then show ?thesis using analyse_operations_frame by (fastforce simp: initial_info_def zero_QueryInfo_def)
qed

lemma Body_director [simp]: "Body (host_fixed_director u r) = Body r"
  by (simp add: host_fixed_director_def single_host_director_def Let_def)

lemma get_forwarded_body:
  assumes env: "parse_query env = Parse ParseQuery FragForName"
    and r: "isGraphQLPath (Path (URL r))" "Method r = ''GET''"
    and "fst (ServeHTTP eval env h r sm) = Some (Forward hdrs out)"
  shows "Body out = (case marshal_body (url_body (URL r)) of None \<Rightarrow> [] | Some bs \<Rightarrow> bs)"
proof -
  obtain s m where sm: "sm = (s, m)" by (cases sm)
  have f: "forwards (handleGraphQLGet eval env h r (s, m)) out"
    using assms(4) r ServeHTTP_forwards [of eval env h r sm out] by (auto simp: forwards_def serve_def sm)
  let ?q = "Values_Get (URL_Query (URL r)) ''query''"
  have q: "?q \<noteq> []" using f by (auto simp: handleGraphQLGet_def Let_def split: if_splits)
  obtain p where p: "parseQueryWithTimeout env ?q (ParseTimeout h) = Parsed p"
    using f q by (cases "parseQueryWithTimeout env ?q (ParseTimeout h)") (simp_all add: handleGraphQLGet_def Let_def)
  have "RequestVariables p = []" using parse_no_variables [OF env p] .
  then have "\<exists>info. handleGraphQLGet eval env h r (s, m) =
      evaluateAndForward eval env h r (case marshal_body (url_body (URL r)) of None \<Rightarrow> [] | Some bs \<Rightarrow> bs) info (s, m)"
    using q p by (auto simp: handleGraphQLGet_def Let_def url_body_def)
  with f show ?thesis by (auto simp: evaluateAndForward_forwards simp del: approved.simps)
qed

text \<open>
  C17: a GET request reaches the upstream as what was inspected. Its parameters are turned into a
  JSON body, and reading that body back in the strict way of the handler gives the query, the
  operation name (with bytes that are not UTF-8 replaced) and variables that decode to the same
  values, unless the variables are nested to the very limit of the decoder. When they are no JSON at
  all, the body is empty.
\<close>

theorem get_forward_roundtrip:
  assumes "parse_query env = Parse ParseQuery FragForName"
    and "isGraphQLPath (Path (URL r))" and "Method r = ''GET''"
    and "fst (ServeHTTP eval env h r sm) = Some (Forward hdrs out)" and u: "u = url_body (URL r)"
    and n: "\<And>v. json_whole (Variables u) = Some v \<Longrightarrow> nesting v < max_nesting"
  shows "if Variables u \<noteq> [] \<and> json_whole (Variables u) = None then Body out = []
    else \<exists>b. single_body (Body out) = Some b \<and> Query b = valid_text (Query u) \<and>
      gb_OperationName b = valid_text (gb_OperationName u) \<and> Extensions b = [] \<and>
      (Variables u \<noteq> [] \<longrightarrow> unmarshal_map (Variables b) = unmarshal_map (Variables u)) \<and>
      (Variables u = [] \<longrightarrow> Variables b = [])"
proof -
  have body: "Body out = (case marshal_body u of None \<Rightarrow> [] | Some bs \<Rightarrow> bs)"
    unfolding u using get_forwarded_body [OF assms(1-4)] .
  have e: "Extensions u = []" by (simp add: u url_body_def)
  show ?thesis
  proof (cases "Variables u \<noteq> [] \<and> json_whole (Variables u) = None")
    case True
    then have "marshal_body u = None" by (simp add: marshal_body_def json_compact_def)
    then show ?thesis using True body by simp
  next
    case False
    then have v: "json_whole (Variables u) = Some (the (json_whole (Variables u))) \<and> nesting (the (json_whole (Variables u))) < max_nesting"
      if "Variables u \<noteq> []" using n that by auto
    have "marshal_body u \<noteq> None" using False e by (auto simp: marshal_body_def json_compact_def split: option.splits)
    then obtain bs where bs: "marshal_body u = Some bs" by blast
    have "Variables u \<noteq> [] \<Longrightarrow> unmarshal_map (compacted (Variables u)) = unmarshal_map (Variables u)"
      using v unmarshal_map_compacted by blast
    then show ?thesis using False body bs marshal_body_single [OF bs e v] by auto
  qed
qed

definition get_request :: http_request where
  "get_request =
     \<lparr>Method = ''GET'', URL = \<lparr>Scheme = [], url_Host = [], Path = ''/graphql'',
        RawQuery = ''query=%7Ba%7D&variables=%7B%22x%22%3A+1%7D''\<rparr>,
      Header = [(''X-Api-Key'', ''a'')], Host = ''evil.example'', RemoteAddr = ''10.0.0.1:999'', Body = [], BodyFails = False\<rparr>"

lemma get_request_facts:
  "url_body (URL get_request) = \<lparr>Query = ''{a}'', gb_OperationName = [], Variables = ''{\"x\": 1}'', Extensions = []\<rparr>"
  "json_whole ''{\"x\": 1}'' = Some (JObj [(''x'', ''1'', JNum ''1'')])"
  "isGraphQLPath (Path (URL get_request))" "Header_Get (Header get_request) ''X-API-Key'' = ''a''"
  "extractTenantID ''a'' = ''a''"
  by (unfold get_request_def) code_simp+

lemma get_request_forwarded:
  "\<exists>hdrs out. fst (ServeHTTP (composite_eval find_field no_post) demo_env demo_handler get_request (demo_world 0, zero_Metrics)) =
     Some (Forward hdrs out)"
proof -
  have m: "Method get_request = ''GET''" by (simp add: get_request_def)
  have i: "\<exists>q. inspected demo_env demo_handler get_request = Some [q] \<and> in_TenantID (BuildInput q st) = ''a''" for st
    by (simp add: inspected_def m get_request_facts demo_item_query with_tenant_def BuildInput_def)
  have "approved (composite_eval find_field no_post) [q] (demo_world 0, m)" if "in_TenantID (BuildInput q (Some NewDataStore)) = ''a''" for q m
    using that by (simp add: composite_eval_def demo_world_def case_prod_beta Let_def Evaluate_def Evaluate_policy_def
        demo_composite_opa judge_def allow_result_def) (simp add: demo_composite_def BuildInput_def)
  then have "\<exists>out. forwards (serve (composite_eval find_field no_post) demo_env demo_handler get_request (demo_world 0, zero_Metrics)) out"
    unfolding serve_forwards [OF get_request_facts(3)] using i [of "Some NewDataStore"] by blast
  then show ?thesis using ServeHTTP_forwardsD by blast
qed

theorem get_forward_roundtrip_witness:
  "\<exists>hdrs out b. fst (ServeHTTP (composite_eval find_field no_post) demo_env demo_handler get_request (demo_world 0, zero_Metrics)) =
     Some (Forward hdrs out) \<and> single_body (Body out) = Some b \<and> Query b = ''{a}'' \<and>
     unmarshal_map (Variables b) = unmarshal_map ''{\"x\": 1}''"
proof -
  obtain hdrs out where f: "fst (ServeHTTP (composite_eval find_field no_post) demo_env demo_handler get_request (demo_world 0, zero_Metrics)) =
     Some (Forward hdrs out)" using get_request_forwarded by blast
  have env: "parse_query demo_env = Parse (\<lambda>_. Some demo_document) find_fragment" by (simp add: demo_env_def)
  have m: "Method get_request = ''GET''" by (simp add: get_request_def)
  let ?u = "url_body (URL get_request)"
  have u: "valid_text (Query ?u) = ''{a}''" "Variables ?u = ''{\"x\": 1}''" "Variables ?u \<noteq> []"
    by (simp_all add: get_request_facts(1) valid_text_ascii)
  have v: "json_whole (Variables ?u) = Some (JObj [(''x'', ''1'', JNum ''1'')])" using u(2) get_request_facts(2) by metis
  have "nesting v < max_nesting" if "json_whole (Variables ?u) = Some v" for v
    using v that by (auto simp: max_nesting_def)
  from get_forward_roundtrip [OF env get_request_facts(3) m f refl this]
  have "\<exists>b. single_body (Body out) = Some b \<and> Query b = ''{a}'' \<and>
     unmarshal_map (Variables b) = unmarshal_map ''{\"x\": 1}''"
    using v u by (metis option.distinct(1))
  then show ?thesis using f by blast
qed

end
