(* ===== verification/Spec2Isabelle.thy ===== *)
theory Spec2Isabelle
  imports Policy_Enforcement Lifecycle Request_Progress Get_Forwarding
begin

text \<open>
  \<^bold>\<open>A verification library for gql-firewall.\<close>

  gql-firewall is an HTTP reverse proxy in Go that inspects GraphQL requests: it parses the query,
  validates it against a schema, asks an Open Policy Agent (OPA) policy, and forwards or blocks
  the request. This library models its request path, its policy evaluation, its rate limiter, its
  admin API and its start-up as executable functions, and proves what makes them correct.

  \<^bold>\<open>Parts of the program and where they are modelled.\<close>

  \<^item> \<open>Prelude\<close>: names for the basic types, Go maps as association lists with distinct keys, shared
    lemmas.
  \<^item> \<open>Go_Strings\<close>, \<open>Go_Sha256\<close>, \<open>Go_Json\<close>, \<open>Go_Http\<close>: what the source uses of Go's standard
    library, on bytes: UTF-8, \<open>strings\<close>, the verbs of \<open>fmt\<close>; SHA-256; the scanner,
    decoder and encoder of \<open>encoding/json\<close>; headers, query strings, limited bodies, routing and the
    director of the reverse proxy.
  \<^item> \<open>Json_Strings\<close>, \<open>Json_Roundtrip\<close>: the encoder of \<open>encoding/json\<close> against its parser, for
    strings, for raw messages, which it compacts, and for objects.
  \<^item> \<open>Query_Ast\<close>, \<open>Query_Analysis\<close>: \<open>internal/parser/parse.go\<close> and the query part of
    \<open>parser.go\<close>. \<open>walkSelections\<close> is a partial function, because Go's recursion goes through
    named fragments; \<open>parseGraphQL\<close> aggregates the operations of a document into a
    \<open>QueryInfo\<close>. The parser proper is the third-party package gqlparser, a parameter.
  \<^item> \<open>Schema_Validation\<close>: \<open>SchemaInfo\<close> of \<open>parser.go\<close>.
  \<^item> \<open>Rate_Limiter\<close>: \<open>internal/ratelimit\<close>, with rational tokens and times in nanoseconds.
  \<^item> \<open>Metrics\<close>: \<open>internal/metrics\<close>, counters as functions of their labels.
  \<^item> \<open>Data_Store\<close>, \<open>Opa_Input\<close>, \<open>Opa_Evaluators\<close>: \<open>internal/opa\<close>. The Rego engine and the
    HTTP client are parameters.
  \<^item> \<open>Graphql_Policy\<close>: the policy that comes with the program, \<open>opa-policies/graphql.rego\<close>, rule by
    rule, over the fragment of Rego it uses.
  \<^item> \<open>Composite_Evaluator\<close>: the \<open>compositeEvaluator\<close> of \<open>cmd/server/main.go\<close> with its decision
    cache.
  \<^item> \<open>Concurrent_Evaluation\<close>: any number of calls of that evaluator in progress at once, one step
    per critical section of its lock and of the lock of the store, in any order.
    \<open>Concurrent_Requests\<close>: any number of handlers in progress on top of it;
    \<open>Request_Progress\<close>: they come to an end.
  \<^item> \<open>Proxy_Handler\<close>: \<open>internal/proxy/proxy.go\<close>, from \<open>ServeHTTP\<close> to the request handed to the
    reverse proxy, over an arbitrary evaluator. \<open>Handler_Messages\<close>, \<open>Handler_Forwarding\<close>,
    \<open>Handler_Contracts\<close> and \<open>Handler_Properties\<close> prove what it does, for any evaluator and then with
    the composite evaluator behind it; \<open>Get_Forwarding\<close> follows the body that
    \<open>handleGraphQLGet\<close> builds from the URL.
  \<^item> \<open>Admin_Api\<close>: the admin handlers of \<open>main.go\<close>, on a heap of data stores.
  \<^item> \<open>Server\<close>: the flags, the start-up, the rate-limiting middleware and the main router of
    \<open>main.go\<close>. \<open>Running_Server\<close>: everything that can happen to it after its start.
    \<open>Lifecycle\<close>: the listeners and the life of the process up to its exit.
  \<^item> \<open>Schema_Enforcement\<close>, \<open>Policy_Enforcement\<close> and this theory: the properties that span
    components, from the bytes of a request to the schema and to the policy.

  \<^bold>\<open>How state and effects are modelled.\<close> State is passed explicitly in records named after the
  Go structs; an error is a value of a sum or an option; a panic of a handler is a missing outcome, and one of the parser's goroutine, which nothing recovers, the outcome \<open>Crash\<close>. Clock readings
  are arguments, so nothing is assumed about time except where a theorem says so. What the lock
  of a component protects is one step; \<open>Concurrent_Evaluation\<close> interleaves these steps. Third-party code is a parameter, and a theorem that needs
  something of it says so as a hypothesis; with each such theorem goes a concrete instance.

  \<^bold>\<open>Interfaces.\<close> \<open>keyed_store\<close> (tenants of the data store), \<open>token_bucket\<close> (the limiter),
  \<open>ttl_cache\<close> (the decision cache), \<open>policy_evaluator\<close> (sidecar, embedded evaluator and the
  dispatch over both), \<open>counting_evaluator\<close>, \<open>total_evaluator\<close> and \<open>stable_evaluator\<close> (what
  the handler relies on; the composite evaluator) are locales, each interpreted on the model.

  \<^bold>\<open>What is shown.\<close>

  \<^item> Query analysis: it terminates on every document, circular fragments included; it reports only
    selected paths, and all of them where no named fragment is spread; every selected response name
    is recorded whatever the fragments are; depth, worst case over
    operations, argument depth, errors; and what it does not see (repeated spreads, names behind
    aliases).
  \<^item> Schema validation accepts exactly the paths that resolve in the schema.
  \<^item> The rate limit holds in every window, at the limiter and at the server, cleanup included, under
    a stated condition; no key starves.
  \<^item> Policy evaluation: what it takes for each evaluator to allow; which input the policy sees;
    every answer of the composite evaluator, cached or not, is justified by a decision of the policy;
    fail-closed nothing passes ungranted; both in every interleaving of concurrent evaluations with
    changes of the stores and of the requests that wait for them, where every evaluation and every request
    gets its answer within a number of its own steps, and an evaluation
    that runs alone is \<open>Evaluate\<close>; what the cache key distinguishes and what it does not.
  \<^item> Handler: a GraphQL request is forwarded exactly when all its queries were inspected and
    allowed; where it goes and with which bytes; refusals, and what the status of an answer tells; one count per request; responses
    that cannot be broken by a policy's reason; tenant of an API key; the body that a GET request is
    turned into reads back as its parameters.
  \<^item> The policy of the repository allows exactly what stays within its documented limits and lists,
    when the parameters have the documented types, save that anonymous operations pass the allowlist of names; the
    embedded evaluator allows nothing else, whatever the engine does on errors; a tenant configuration can only tighten it; its rules
    on persisted queries never apply.
  \<^item> Admin API: nothing without the token; it implements the keyed store; its invariant.
  \<^item> Server: what a start guarantees, the size limit, and enforcement from end to end, of the policy
    and of the schema; with the policy of the repository, its limits and the absence of introspection.
  \<^item> Process: every answer it gives is one of the running server, and each way to end has its cause; after a signal it ends with status
    0, or 1 when the port failed, or 2 when the parser panicked, within six steps of its goroutines, and does not wait
    for requests in progress.

  \<^bold>\<open>Bounds and fuel.\<close> The JSON parser spends fuel; \<open>json_fuel_enough\<close> shows that more than twice
  the length of the text always suffices, and that is what \<open>json_prefix\<close> gives it. The nesting limit
  of 10000 is Go's; the round trip of a GET request excludes variables nested to that limit, since
  they are one level deeper in the body. Hashes and the size limit are computed on 64-bit words, SHA-256 on 32-bit
  words. Numbers that Go keeps as \<open>float64\<close> are rationals, without rounding.

  \<^bold>\<open>What is not modelled.\<close> Logging has no part in the model. Sockets and TLS are \<open>http.Server\<close>, of
  which \<open>Lifecycle\<close> has the documented behaviour. The reverse proxy's exchange with the upstream,
  gqlparser, the Rego engine and the Prometheus client (\<open>metrics.Handler\<close>) are libraries.
  \<open>internal/testutil\<close> only serves tests, and the policies under \<open>docs/opa-samples\<close> are documentation. In
  \<open>Running_Server\<close> and \<open>Lifecycle\<close> a request is one step; the steps inside a request are those of
  \<open>Concurrent_Requests\<close>, where the counters of the handlers are left out.
\<close>

section \<open>Enforcement\<close>

text \<open>
  C1: enforcement from end to end. Start the server fail-closed, enforcing and without a decision
  cache, and let anything happen to it: requests, sidecar answers, cleanup passes, admin updates.
  Whenever a request on a GraphQL path then reaches the upstream, it carried at least one query,
  every query it carried conforms to the loaded schema, and the policy granted every one of
  them, on an input with the parameters and the tenant configuration stored at that moment.
\<close>

theorem end_to_end_enforcement:
  assumes "startup out clock f = Inr srv0" and "f_fail_closed f" and "\<not> f_audit_only f" and "f_cache_ttl f \<le> 0"
    and "server_reachable ForName srv0 srv"
    and "serve_main ForName Post a srv = (Proxied (Some (Forward hdrs req)), srv')"
    and "isGraphQLPath (Path (URL (ar_request a)))"
  shows "\<exists>qs. inspected (ar_env a) (srv_handler srv0) (ar_request a) = Some qs \<and> qs \<noteq> [] \<and>
    (\<forall>q \<in> set qs. schema_refusal ForName (w_eval (srv_world srv0)) q = None \<and>
       opa_grants Post (opa (w_eval (srv_world srv0))) (BuildInput q (Some (w_heap (srv_world srv) 0))))"
  by (rule forwarded_granted [OF assms])

theorem end_to_end_enforcement_witness:
  "opa_grants demo_yes_post (Sidecar demo_client)
     (BuildInput (with_tenant (post_request ''a'' demo_body) (demo_info ''{a}'')) (Some NewDataStore))"
proof -
  obtain hdrs req srv' where s: "serve_main find_field demo_yes_post (demo_arrival (post_request ''a'' demo_body) 0) demo_server =
     (Proxied (Some (Forward hdrs req)), srv')"
    using demo_server_forwards by blast
  have g: "isGraphQLPath (Path (URL (ar_request (demo_arrival (post_request ''a'' demo_body) 0))))"
    by (simp add: demo_arrival_def post_request_simps)
  from end_to_end_enforcement [OF demo_startup _ _ _ started s g] show ?thesis
    by (auto simp: demo_flags_def demo_arrival_def demo_server_def demo_inspected)
qed

end
